(* ===== verification/Launcher_Prelude.thy ===== *)
theory Launcher_Prelude
  imports Main "HOL-Library.Word" "HOL-Library.AList" "HOL-Library.Multiset" "HOL-Library.Sublist"
begin

text \<open>
  Shared vocabulary of the development: Go errors as values, the order in which Go ranges over a
  map, three-way comparison (\<open>cmp.Compare\<close>, \<open>bytes.Compare\<close>), the \<open>strings\<close> and \<open>strconv\<close>
  functions the components call, and the generic lemmas they rest on.

  A Go \<open>string\<close> or \<open>[]byte\<close> that is treated as text is a HOL \<^typ>\<open>string\<close> (one \<^typ>\<open>char\<close> per
  byte); \<open>[]byte\<close> that is decoded numerically is a list of \<open>8 word\<close>.  A Go map is an association
  list with distinct keys.
\<close>

named_theorems go_simps \<open>unfolding rules for the Go library functions\<close>
named_theorems inv_intros \<open>preservation lemmas of component invariants\<close>

type_synonym byte = "8 word"
type_synonym bytes = "byte list"

subsection \<open>Errors\<close>

text \<open>\<open>errors.New\<close> and \<open>fmt.Errorf(..., %w, err)\<close>; formatted arguments are dropped from the message.\<close>

datatype error = ErrNew string | ErrWrap string error

fun is_err :: "'e + 'a \<Rightarrow> bool" where
  "is_err (Inl _) = True"
| "is_err (Inr _) = False"

lemma is_err_iff: "is_err r \<longleftrightarrow> (\<exists>e. r = Inl e)"
  by (cases r) auto

lemma not_is_err_iff: "\<not> is_err r \<longleftrightarrow> (\<exists>a. r = Inr a)"
  by (cases r) auto

subsection \<open>Ranging over a map\<close>

text \<open>
  Go leaves the order of \<open>for k, v := range m\<close> unspecified and picks it from a random seed.
  \<open>go_range seed xs\<close> is the order a seed selects: always a permutation
  (\<open>mset_go_range\<close>), and every permutation is selected by some seed
  (\<open>go_range_surj\<close>), so a statement for all seeds is a statement for all orders.
\<close>

fun go_range :: "nat list \<Rightarrow> 'a list \<Rightarrow> 'a list" where
  "go_range seed [] = []"
| "go_range [] xs = xs"
| "go_range (s # ss) xs =
     (let i = s mod length xs in xs ! i # go_range ss (take i xs @ drop (Suc i) xs))"

lemma mset_take_nth_drop:
  assumes "i < length xs"
  shows "add_mset (xs ! i) (mset (take i xs @ drop (Suc i) xs)) = mset xs"
proof -
  have "mset xs = mset (take i xs @ xs ! i # drop (Suc i) xs)"
    using assms by (simp only: id_take_nth_drop[symmetric])
  then show ?thesis by simp
qed

lemma mset_go_range [simp]: "mset (go_range seed xs) = mset xs"
proof (induction seed xs rule: go_range.induct)
  case (3 s ss x xs)
  let ?i = "s mod length (x # xs)"
  have "?i < length (x # xs)" by simp
  from mset_take_nth_drop[OF this] show ?case
    using 3 by (simp add: Let_def)
qed simp_all

lemma set_go_range [simp]: "set (go_range seed xs) = set xs"
  by (metis mset_go_range set_mset_mset)

lemma length_go_range [simp]: "length (go_range seed xs) = length xs"
  by (metis mset_go_range size_mset)

lemma distinct_go_range [simp]: "distinct (go_range seed xs) = distinct xs"
  by (metis mset_eq_imp_distinct_iff mset_go_range)

lemma distinct_keys_go_range [simp]:
  "distinct (map fst (go_range seed m)) = distinct (map fst m)"
  by (metis mset_eq_imp_distinct_iff mset_go_range mset_map)

lemma map_of_go_range [simp]:
  "distinct (map fst m) \<Longrightarrow> map_of (go_range seed m) = map_of m"
  by (rule map_of_eqI) (auto simp: map_of_eq_None_iff dest: map_of_SomeD)

lemma go_range_surj: "mset ys = mset xs \<Longrightarrow> \<exists>seed. go_range seed xs = ys"
proof (induction ys arbitrary: xs)
  case Nil
  then show ?case by simp
next
  case (Cons y ys)
  then have "y \<in> set xs" by (metis list.set_intros(1) set_mset_mset)
  then obtain i where i: "i < length xs" "xs ! i = y" by (auto simp: in_set_conv_nth)
  let ?rest = "take i xs @ drop (Suc i) xs"
  from mset_take_nth_drop[OF i(1)] i(2) Cons.prems
  have "add_mset y (mset ys) = add_mset y (mset ?rest)" by simp
  then have "mset ys = mset ?rest" by (simp only: add_mset_add_mset_same_iff)
  from Cons.IH[OF this] obtain seed where "go_range seed ?rest = ys" by blast
  with i have "go_range (i # seed) xs = y # ys" by (cases xs) (auto simp: Let_def)
  then show ?case by blast
qed

subsection \<open>Three-way comparison\<close>

text \<open>\<open>cmp.Compare\<close> on an ordered type and \<open>bytes.Compare\<close> on byte slices.\<close>

definition cmp_Compare :: "'a::linorder \<Rightarrow> 'a \<Rightarrow> int" where
  "cmp_Compare x y = (if x < y then -1 else if y < x then 1 else 0)"

fun bytes_Compare :: "bytes \<Rightarrow> bytes \<Rightarrow> int" where
  "bytes_Compare [] [] = 0"
| "bytes_Compare [] (_ # _) = -1"
| "bytes_Compare (_ # _) [] = 1"
| "bytes_Compare (x # xs) (y # ys) =
     (if x < y then -1 else if y < x then 1 else bytes_Compare xs ys)"

lemma cmp_Compare_refl [simp]: "cmp_Compare x x = 0"
  by (simp add: cmp_Compare_def)

lemma cmp_Compare_swap: "cmp_Compare y x = - cmp_Compare x y"
  by (auto simp: cmp_Compare_def)

lemma cmp_Compare_eq_0 [simp]: "cmp_Compare x y = 0 \<longleftrightarrow> x = y"
  by (simp add: cmp_Compare_def) auto

lemma bytes_Compare_refl [simp]: "bytes_Compare xs xs = 0"
  by (induction xs) auto

lemma bytes_Compare_swap: "bytes_Compare ys xs = - bytes_Compare xs ys"
  by (induction xs ys rule: bytes_Compare.induct) auto

lemma bytes_Compare_eq_0 [simp]: "bytes_Compare xs ys = 0 \<longleftrightarrow> xs = ys"
  by (induction xs ys rule: bytes_Compare.induct) auto

end
