(* ===== verification/KVStore.thy ===== *)
theory KVStore
  imports Launcher_Prelude
begin

text \<open>
  The key/val store interface (\<open>ee/agent/types/keyvalue_store.go\<close>) and its in-memory
  implementation (\<open>ee/agent/storage/inmemory/keyvalue_store_in_memory.go\<close>).

  The interface is the record \<open>KVStore\<close> of operations that clients are given; the promises its
  comments make are the locale \<open>kv_store\<close>, which the in-memory store is an interpretation of.
  The components that keep a store (flags, action queue, control service, osquery history) are
  written against the record and use the locale's laws.
\<close>

subsection \<open>The interface\<close>

record ('s, 'v, 'acc) KVStore =
  kv_Get :: "'s \<Rightarrow> string \<Rightarrow> error + 'v option"
  kv_Set :: "'s \<Rightarrow> string \<Rightarrow> 'v \<Rightarrow> error + 's"
  kv_Delete :: "'s \<Rightarrow> string list \<Rightarrow> error + 's"
  kv_DeleteAll :: "'s \<Rightarrow> error + 's"
  kv_ForEach :: "'s \<Rightarrow> (string \<Rightarrow> 'v option \<Rightarrow> 'acc \<Rightarrow> 'acc \<times> error option) \<Rightarrow> 'acc \<Rightarrow>
     'acc \<times> error option"
  kv_Update :: "'s \<Rightarrow> (string \<times> 'v) list \<Rightarrow> 's \<times> (error + string list)"
  kv_AppendValues :: "'s \<Rightarrow> 'v list \<Rightarrow> error + 's"

text \<open>
  The contract: \<open>lookup\<close> is the map a store stands for,
  \<open>inv\<close> what a usable store satisfies.
\<close>

locale kv_store =
  fixes S :: "('s, 'v, 'acc) KVStore"
    and lookup :: "'s \<Rightarrow> string \<Rightarrow> 'v option"
    and inv :: "'s \<Rightarrow> bool"
  assumes get_ok: "inv s \<Longrightarrow> kv_Get S s k = Inr (lookup s k)"
    and set_ok: "inv s \<Longrightarrow> k \<noteq> '''' \<Longrightarrow>
      \<exists>s'. kv_Set S s k v = Inr s' \<and> inv s' \<and> lookup s' = (lookup s)(k \<mapsto> v)"
    and set_blank: "inv s \<Longrightarrow> is_err (kv_Set S s '''' v)"
    and delete_ok: "inv s \<Longrightarrow>
      \<exists>s'. kv_Delete S s ks = Inr s' \<and> inv s' \<and> lookup s' = (lookup s) |` (- set ks)"
    and delete_all_ok: "inv s \<Longrightarrow>
      \<exists>s'. kv_DeleteAll S s = Inr s' \<and> inv s' \<and> lookup s' = Map.empty"
begin

lemma set_Inr:
  assumes "inv s" and "kv_Set S s k v = Inr s'"
  shows "k \<noteq> '''' \<and> inv s' \<and> lookup s' = (lookup s)(k \<mapsto> v)"
proof -
  from assms have k: "k \<noteq> ''''" using set_blank by (metis is_err.simps(2))
  from set_ok[OF assms(1) k, of v] assms(2) k show ?thesis by auto
qed

lemma get_after_set:
  "inv s \<Longrightarrow> kv_Set S s k v = Inr s' \<Longrightarrow>
   kv_Get S s' j = Inr (if j = k then Some v else lookup s j)"
  using set_Inr[of s k v s'] get_ok[of s' j] by simp

lemma set_nonblank_not_err: "inv s \<Longrightarrow> k \<noteq> '''' \<Longrightarrow> \<not> is_err (kv_Set S s k v)"
  using set_ok[of s k v] by auto

lemma delete_Inr:
  "inv s \<Longrightarrow> kv_Delete S s ks = Inr s' \<Longrightarrow> inv s' \<and> lookup s' = (lookup s) |` (- set ks)"
  using delete_ok[of s ks] by auto

end

text \<open>A store that can be iterated and bulk-replaced.\<close>

locale kv_updater = kv_store +
  fixes pairs :: "'a \<Rightarrow> (string \<times> 'b) list"
  assumes pairs_distinct: "inv s \<Longrightarrow> distinct (map fst (pairs s))"
    and pairs_lookup: "inv s \<Longrightarrow> map_of (pairs s) = lookup s"
    and for_each_ok: "inv s \<Longrightarrow>
      kv_ForEach S s fn acc = fold
        (\<lambda>(k, v) (acc, err). if err = None then fn k (Some v) acc else (acc, err))
        (pairs s) (acc, None)"
    and update_ok: "inv s \<Longrightarrow> distinct (map fst kvs) \<Longrightarrow> '''' \<notin> fst ` set kvs \<Longrightarrow>
      \<exists>s' dels. kv_Update S s kvs = (s', Inr dels) \<and> inv s' \<and> lookup s' = map_of kvs \<and>
        distinct dels \<and> set dels = dom (lookup s) - fst ` set kvs"
begin

lemma for_each_visits_all:
  assumes "inv s" and "\<And>k v acc. fn k (Some v) acc = (g k v acc, None)"
  shows "kv_ForEach S s fn acc = (fold (\<lambda>(k, v). g k v) (pairs s) acc, None)"
proof -
  have "fold (\<lambda>(k, v) (acc, err). if err = None then fn k (Some v) acc else (acc, err)) ps (acc, None)
      = (fold (\<lambda>(k, v). g k v) ps acc, None)" for ps
    by (induction ps arbitrary: acc) (auto simp: assms(2))
  then show ?thesis using for_each_ok[OF assms(1)] by simp
qed

end

subsection \<open>The in-memory store\<close>

record 'v inMemoryKeyValueStore =
  items :: "(string \<times> 'v) list"
  order :: "string list"
  sequence :: "64 word"

text \<open>The receiver is a pointer, so every method is a function of an optional store.\<close>

type_synonym 'v inmem = "'v inMemoryKeyValueStore option"

definition store_is_nil :: error where
  "store_is_nil = ErrNew ''store is nil''"

definition inmem_NewStore :: "'v inmem" where
  "inmem_NewStore = Some \<lparr>items = [], order = [], sequence = 0\<rparr>"

fun inmem_Get :: "'v inmem \<Rightarrow> string \<Rightarrow> error + 'v option" where
  "inmem_Get None key = Inl store_is_nil"
| "inmem_Get (Some s) key = Inr (map_of (items s) key)"

fun inmem_Set :: "'v inmem \<Rightarrow> string \<Rightarrow> 'v \<Rightarrow> error + 'v inmem" where
  "inmem_Set None key val = Inl store_is_nil"
| "inmem_Set (Some s) key val =
     (if key = '''' then Inl (ErrNew ''key is blank'')
      else
        let s1 = (if map_of (items s) key = None then s\<lparr>order := order s @ [key]\<rparr> else s)
        in Inr (Some (s1\<lparr>items := AList.update key val (items s1)\<rparr>)))"

text \<open>The inner loop of \<open>Delete\<close> drops the first occurrence of the key from \<open>order\<close>.\<close>

fun inmem_Delete_loop :: "string list \<Rightarrow> 'v inMemoryKeyValueStore \<Rightarrow> 'v inMemoryKeyValueStore" where
  "inmem_Delete_loop [] s = s"
| "inmem_Delete_loop (key # keys) s =
     inmem_Delete_loop keys
       (s\<lparr>items := AList.delete key (items s), order := remove1 key (order s)\<rparr>)"

fun inmem_Delete :: "'v inmem \<Rightarrow> string list \<Rightarrow> error + 'v inmem" where
  "inmem_Delete None keys = Inl store_is_nil"
| "inmem_Delete (Some s) keys = Inr (Some (inmem_Delete_loop keys s))"

fun inmem_DeleteAll :: "'v inmem \<Rightarrow> error + 'v inmem" where
  "inmem_DeleteAll None = Inl store_is_nil"
| "inmem_DeleteAll (Some s) = Inr (Some (s\<lparr>items := [], order := []\<rparr>))"

text \<open>
  \<open>ForEach\<close> calls \<open>fn\<close> on every key of \<open>order\<close> and stops at its first error; \<open>s.items[key]\<close> of a
  missing key would be \<open>nil\<close>.  What \<open>fn\<close> captures and changes is the accumulator.
\<close>

fun inmem_ForEach_loop ::
  "(string \<times> 'v) list \<Rightarrow> string list \<Rightarrow> (string \<Rightarrow> 'v option \<Rightarrow> 'acc \<Rightarrow> 'acc \<times> error option) \<Rightarrow>
   'acc \<Rightarrow> 'acc \<times> error option" where
  "inmem_ForEach_loop m [] fn acc = (acc, None)"
| "inmem_ForEach_loop m (key # keys) fn acc =
     (case fn key (map_of m key) acc of
        (acc', Some err) \<Rightarrow> (acc', Some err)
      | (acc', None) \<Rightarrow> inmem_ForEach_loop m keys fn acc')"

fun inmem_ForEach ::
  "'v inmem \<Rightarrow> (string \<Rightarrow> 'v option \<Rightarrow> 'acc \<Rightarrow> 'acc \<times> error option) \<Rightarrow> 'acc \<Rightarrow> 'acc \<times> error option" where
  "inmem_ForEach None fn acc = (acc, Some store_is_nil)"
| "inmem_ForEach (Some s) fn acc = inmem_ForEach_loop (items s) (order s) fn acc"

text \<open>
  \<open>Update\<close>: the pairs to store are the association list \<open>kvs\<close> in the order Go ranges over them; the
  seed fixes the order of the second range, over \<open>s.items\<close>.  The errors of the inner \<open>Set\<close> and
  \<open>Delete\<close> are dropped, as in the code.  A blank key returns at once and leaves what was stored.
\<close>

definition keep_on_err :: "'s \<Rightarrow> error + 's \<Rightarrow> 's" where
  "keep_on_err s r = (case r of Inl _ \<Rightarrow> s | Inr s' \<Rightarrow> s')"

fun inmem_Update_set :: "(string \<times> 'v) list \<Rightarrow> 'v inmem \<Rightarrow> 'v inmem \<times> error option" where
  "inmem_Update_set [] s = (s, None)"
| "inmem_Update_set ((key, val) # kvs) s =
     (if key = '''' then (s, Some (ErrNew ''key is blank''))
      else inmem_Update_set kvs (keep_on_err s (inmem_Set s key val)))"

fun inmem_Update_prune ::
  "(string \<times> 'v) list \<Rightarrow> string list \<Rightarrow> 'v inmem \<Rightarrow> string list \<Rightarrow> 'v inmem \<times> string list" where
  "inmem_Update_prune kvs [] s deletedKeys = (s, deletedKeys)"
| "inmem_Update_prune kvs (key # keys) s deletedKeys =
     (if map_of kvs key \<noteq> None then inmem_Update_prune kvs keys s deletedKeys
      else inmem_Update_prune kvs keys (keep_on_err s (inmem_Delete s [key])) (deletedKeys @ [key]))"

fun inmem_items :: "'v inmem \<Rightarrow> (string \<times> 'v) list" where
  "inmem_items None = []"
| "inmem_items (Some s) = items s"

definition inmem_Update ::
  "nat list \<Rightarrow> 'v inmem \<Rightarrow> (string \<times> 'v) list \<Rightarrow> 'v inmem \<times> (error + string list)" where
  "inmem_Update seed s kvs =
     (if s = None then (s, Inl store_is_nil)
      else case inmem_Update_set kvs s of
        (s1, Some err) \<Rightarrow> (s1, Inl err)
      | (s1, None) \<Rightarrow>
          (case inmem_Update_prune kvs (go_range seed (map fst (inmem_items s1))) s1 [] of
             (s2, deletedKeys) \<Rightarrow> (s2, Inr deletedKeys)))"

text \<open>\<open>Count\<close> dereferences its receiver without a check: \<open>None\<close> is the panic on a nil store.\<close>

fun inmem_Count :: "'v inmem \<Rightarrow> nat option" where
  "inmem_Count None = None"
| "inmem_Count (Some s) = Some (length (items s))"

text \<open>\<open>binary.BigEndian.PutUint64\<close> into a fresh 8-byte slice.\<close>

definition PutUint64 :: "64 word \<Rightarrow> string" where
  "PutUint64 w = map (\<lambda>i. char_of (unat (drop_bit (8 * i) w) mod 256)) [7, 6, 5, 4, 3, 2, 1, 0]"

definition inmem_nextSequenceKey ::
  "'v inMemoryKeyValueStore \<Rightarrow> string \<times> 'v inMemoryKeyValueStore" where
  "inmem_nextSequenceKey s =
     (let s' = s\<lparr>sequence := sequence s + 1\<rparr> in (PutUint64 (sequence s'), s'))"

fun inmem_AppendValues_loop :: "'v list \<Rightarrow> 'v inMemoryKeyValueStore \<Rightarrow> 'v inMemoryKeyValueStore" where
  "inmem_AppendValues_loop [] s = s"
| "inmem_AppendValues_loop (val # vs) s =
     (case inmem_nextSequenceKey s of (key, s1) \<Rightarrow>
        (case inmem_Set (Some s1) key val of
           Inr (Some s2) \<Rightarrow> inmem_AppendValues_loop vs s2
         | _ \<Rightarrow> inmem_AppendValues_loop vs s1))"

fun inmem_AppendValues :: "'v inmem \<Rightarrow> 'v list \<Rightarrow> error + 'v inmem" where
  "inmem_AppendValues None vs =
     Inl (ErrNew ''unable to append values into uninitialized inmemory db store'')"
| "inmem_AppendValues (Some s) vs = Inr (Some (inmem_AppendValues_loop vs s))"

text \<open>The in-memory store as a val of the interface.\<close>

definition inmem_KVStore :: "nat list \<Rightarrow> ('v inmem, 'v, 'acc) KVStore" where
  "inmem_KVStore seed =
     \<lparr>kv_Get = inmem_Get, kv_Set = inmem_Set, kv_Delete = inmem_Delete,
      kv_DeleteAll = inmem_DeleteAll, kv_ForEach = inmem_ForEach,
      kv_Update = inmem_Update seed, kv_AppendValues = inmem_AppendValues\<rparr>"

subsection \<open>The invariant: \<open>items\<close> and \<open>order\<close> hold the same keys, once each\<close>

definition inmem_wf :: "'v inMemoryKeyValueStore \<Rightarrow> bool" where
  "inmem_wf s \<longleftrightarrow> distinct (map fst (items s)) \<and> distinct (order s) \<and>
     set (order s) = fst ` set (items s)"

definition inmem_inv :: "'v inmem \<Rightarrow> bool" where
  "inmem_inv s = (case s of None \<Rightarrow> False | Some s \<Rightarrow> inmem_wf s)"

definition inmem_lookup :: "'v inmem \<Rightarrow> string \<Rightarrow> 'v option" where
  "inmem_lookup s = map_of (inmem_items s)"

text \<open>What an iteration sees: the keys in the order they were first stored, with their values.\<close>

definition inmem_pairs :: "'v inmem \<Rightarrow> (string \<times> 'v) list" where
  "inmem_pairs s = (case s of None \<Rightarrow> []
     | Some s \<Rightarrow> map (\<lambda>k. (k, the (map_of (items s) k))) (order s))"

lemma map_of_None_notin: "map_of m k = None \<longleftrightarrow> k \<notin> fst ` set m"
  by (simp add: map_of_eq_None_iff)

lemma inmem_invE:
  assumes "inmem_inv s"
  obtains s' where "s = Some s'" "inmem_wf s'"
  using assms by (cases s) (auto simp: inmem_inv_def)

lemma inmem_wf_NewStore: "inmem_inv inmem_NewStore"
  by (simp add: inmem_inv_def inmem_NewStore_def inmem_wf_def)

lemma inmem_Set_ok:
  assumes "inmem_wf s" and "key \<noteq> ''''"
  shows "\<exists>s'. inmem_Set (Some s) key v = Inr (Some s') \<and> inmem_wf s' \<and>
    map_of (items s') = (map_of (items s))(key \<mapsto> v) \<and>
    order s' = (if key \<in> set (order s) then order s else order s @ [key]) \<and>
    sequence s' = sequence s"
proof (intro exI conjI)
  let ?s1 = "if map_of (items s) key = None then s\<lparr>order := order s @ [key]\<rparr> else s"
  let ?s' = "?s1\<lparr>items := AList.update key v (items ?s1)\<rparr>"
  show "inmem_Set (Some s) key v = Inr (Some ?s')" using assms(2) by (simp add: Let_def)
  show "inmem_wf ?s'" using assms(1)
    by (auto simp: inmem_wf_def distinct_update map_of_None_notin dom_update)
  show "map_of (items ?s') = (map_of (items s))(key \<mapsto> v)"
    by (simp add: update_conv')
  show "order ?s' = (if key \<in> set (order s) then order s else order s @ [key])"
    using assms(1) by (auto simp: inmem_wf_def map_of_None_notin)
  show "sequence ?s' = sequence s" by simp
qed

lemma inmem_wf_delete:
  assumes "inmem_wf s"
  shows "inmem_wf (s\<lparr>items := AList.delete key (items s), order := remove1 key (order s)\<rparr>)"
  using assms by (auto simp: inmem_wf_def distinct_delete set_remove1_eq delete_keys distinct_removeAll simp flip: set_map)

lemma remove1_filter: "distinct xs \<Longrightarrow> remove1 x xs = filter (\<lambda>y. y \<noteq> x) xs"
  by (induction xs) (auto intro!: filter_True[symmetric])

lemma inmem_Delete_loop_ok:
  assumes "inmem_wf s"
  shows "inmem_wf (inmem_Delete_loop keys s) \<and>
    map_of (items (inmem_Delete_loop keys s)) = (map_of (items s)) |` (- set keys) \<and>
    order (inmem_Delete_loop keys s) = filter (\<lambda>k. k \<notin> set keys) (order s) \<and>
    sequence (inmem_Delete_loop keys s) = sequence s"
  using assms
proof (induction keys s rule: inmem_Delete_loop.induct)
  case (2 key keys s)
  have "remove1 key (order s) = filter (\<lambda>k. k \<noteq> key) (order s)"
    using 2(2) by (simp add: inmem_wf_def remove1_filter)
  with 2(1)[OF inmem_wf_delete[OF 2(2)]] show ?case
    by (auto simp: delete_conv' restrict_map_def fun_eq_iff intro: filter_cong)
qed (auto simp: restrict_map_def fun_eq_iff)

lemma inmem_Update_set_ok:
  assumes "inmem_wf s" and "'''' \<notin> fst ` set kvs"
  shows "\<exists>s'. inmem_Update_set kvs (Some s) = (Some s', None) \<and> inmem_wf s' \<and>
    map_of (items s') = map_of (items s) ++ map_of (rev kvs)"
  using assms
proof (induction kvs arbitrary: s)
  case Nil
  then show ?case by simp
next
  case (Cons kv kvs)
  obtain k v where kv: "kv = (k, v)" by fastforce
  with Cons.prems have "k \<noteq> ''''" by auto
  from inmem_Set_ok[OF Cons.prems(1) this, of v] obtain s1 where
    s1: "inmem_Set (Some s) k v = Inr (Some s1)" "inmem_wf s1"
      "map_of (items s1) = (map_of (items s))(k \<mapsto> v)" by blast
  from Cons.prems(2) have "'''' \<notin> fst ` set kvs" by simp
  from Cons.IH[OF s1(2) this] obtain s2 where
    s2: "inmem_Update_set kvs (Some s1) = (Some s2, None)" "inmem_wf s2"
      "map_of (items s2) = map_of (items s1) ++ map_of (rev kvs)" by blast
  have "inmem_Update_set (kv # kvs) (Some s) = (Some s2, None)"
    using s1(1) s2(1) kv \<open>k \<noteq> ''''\<close> by (simp add: keep_on_err_def)
  moreover have "map_of (items s2) = map_of (items s) ++ map_of (rev (kv # kvs))"
    by (simp add: s2(3) s1(3) kv map_add_upd_left fun_eq_iff map_add_def split: option.splits)
  ultimately show ?case using s2(2) by blast
qed

lemma inmem_Update_prune_ok:
  assumes "inmem_wf s"
  shows "\<exists>s'. inmem_Update_prune kvs keys (Some s) dels =
      (Some s', dels @ filter (\<lambda>k. map_of kvs k = None) keys) \<and> inmem_wf s' \<and>
      map_of (items s') = (map_of (items s)) |` (- {k \<in> set keys. map_of kvs k = None})"
  using assms
proof (induction keys arbitrary: s dels)
  case Nil
  then show ?case by (auto simp: restrict_map_def fun_eq_iff)
next
  case (Cons k keys)
  show ?case
  proof (cases "map_of kvs k = None")
    case True
    let ?s1 = "inmem_Delete_loop [k] s"
    have d: "inmem_wf ?s1" "map_of (items ?s1) = (map_of (items s)) |` (- {k})"
      using inmem_Delete_loop_ok[OF Cons.prems, of "[k]"] by (simp_all only: list.set)
    have step: "inmem_Update_prune kvs (k # keys) (Some s) dels =
        inmem_Update_prune kvs keys (Some ?s1) (dels @ [k])"
      using True by (simp add: keep_on_err_def)
    from Cons.IH[OF d(1), of "dels @ [k]"] obtain s' where
      s': "inmem_Update_prune kvs keys (Some ?s1) (dels @ [k]) =
        (Some s', (dels @ [k]) @ filter (\<lambda>k. map_of kvs k = None) keys)" "inmem_wf s'"
        "map_of (items s') = map_of (items ?s1) |` (- {k \<in> set keys. map_of kvs k = None})"
      by blast
    show ?thesis unfolding step
      by (rule exI[of _ s']) (use s' d(2) True in \<open>auto simp: restrict_map_def fun_eq_iff\<close>)
  next
    case False
    then have "{j \<in> set (k # keys). map_of kvs j = None} = {j \<in> set keys. map_of kvs j = None}"
      by auto
    with Cons.IH[OF Cons.prems, of dels] False show ?thesis by (simp del: not_None_eq)
  qed
qed

lemma map_of_rev_distinct: "distinct (map fst m) \<Longrightarrow> map_of (rev m) = map_of m"
  by (rule map_of_eqI) (auto simp: map_of_eq_None_iff rev_map[symmetric] dest!: map_of_SomeD)

lemma inmem_Update_ok:
  assumes "inmem_wf s" and "distinct (map fst kvs)" and "'''' \<notin> fst ` set kvs"
  shows "\<exists>s' dels. inmem_Update seed (Some s) kvs = (Some s', Inr dels) \<and> inmem_wf s' \<and>
     map_of (items s') = map_of kvs \<and> distinct dels \<and>
     set dels = fst ` set (items s) - fst ` set kvs"
proof -
  obtain s1 where s1: "inmem_Update_set kvs (Some s) = (Some s1, None)" "inmem_wf s1"
    "map_of (items s1) = map_of (items s) ++ map_of kvs"
    using inmem_Update_set_ok[OF assms(1,3)] map_of_rev_distinct[OF assms(2)] by metis
  let ?keys = "go_range seed (map fst (items s1))"
  obtain s2 where s2: "inmem_Update_prune kvs ?keys (Some s1) [] =
      (Some s2, filter (\<lambda>k. map_of kvs k = None) ?keys)" "inmem_wf s2"
    "map_of (items s2) = (map_of (items s1)) |` (- {k \<in> set ?keys. map_of kvs k = None})"
    using inmem_Update_prune_ok[OF s1(2), of kvs ?keys "[]"] by auto
  have dom1: "fst ` set (items s1) = fst ` set (items s) \<union> fst ` set kvs"
    using s1(3) by (metis dom_map_add dom_map_of_conv_image_fst sup_commute)
  show ?thesis
  proof (intro exI conjI)
    show "inmem_Update seed (Some s) kvs = (Some s2, Inr (filter (\<lambda>k. map_of kvs k = None) ?keys))"
      by (simp add: inmem_Update_def s1 s2)
    show "map_of (items s2) = map_of kvs"
    proof
      fix k
      show "map_of (items s2) k = map_of kvs k"
      proof (cases "map_of kvs k")
        case None
        have "map_of (items s1) k = None \<or> k \<in> fst ` set (items s1)"
          by (simp add: map_of_None_notin)
        with None show ?thesis by (auto simp: s2(3) restrict_map_def)
      qed (simp add: s2(3) s1(3) restrict_map_def map_add_def)
    qed
    show "distinct (filter (\<lambda>k. map_of kvs k = None) ?keys)"
      using s1(2) by (simp add: inmem_wf_def)
    show "set (filter (\<lambda>k. map_of kvs k = None) ?keys) = fst ` set (items s) - fst ` set kvs"
      using dom1 by (auto simp: map_of_None_notin)
  qed (rule s2(2))
qed

subsection \<open>The in-memory store meets the contract\<close>

lemma inmem_ForEach_loop_fold:
  assumes "set keys \<subseteq> fst ` set m"
  shows "inmem_ForEach_loop m keys fn acc = fold
     (\<lambda>(k, v) (acc, err). if err = None then fn k (Some v) acc else (acc, err))
     (map (\<lambda>k. (k, the (map_of m k))) keys) (acc, None)"
proof -
  have stop: "fold (\<lambda>(k, v) (acc, err). if err = None then fn k (Some v) acc else (acc, err)) ps
      (a, Some e) = (a, Some e)" for ps a e
    by (induction ps) auto
  show ?thesis using assms
  proof (induction keys arbitrary: acc)
    case (Cons k keys)
    then obtain v where "map_of m k = Some v" by (auto simp: map_of_eq_Some_iff weak_map_of_SomeI)
        (metis weak_map_of_SomeI)
    with Cons show ?case
      by (cases "fn k (Some v) acc") (auto simp: stop split: option.splits)
  qed simp
qed

interpretation inmem: kv_updater
  "inmem_KVStore seed :: ('v inmem, 'v, 'acc) KVStore" inmem_lookup inmem_inv inmem_pairs
  for seed
proof unfold_locales
  fix s :: "'v inmem" and k ks v
  assume inv: "inmem_inv s"
  then obtain t where t: "s = Some t" "inmem_wf t" by (rule inmem_invE)
  show "kv_Get (inmem_KVStore seed) s k = Inr (inmem_lookup s k)"
    using t by (simp add: inmem_KVStore_def inmem_lookup_def)
  show "is_err (kv_Set (inmem_KVStore seed) s '''' v)"
    using t by (simp add: inmem_KVStore_def)
  show "\<exists>s'. kv_Delete (inmem_KVStore seed) s ks = Inr s' \<and> inmem_inv s' \<and>
      inmem_lookup s' = inmem_lookup s |` (- set ks)"
    using t inmem_Delete_loop_ok[OF t(2)]
    by (simp add: inmem_KVStore_def inmem_lookup_def inmem_inv_def)
  show "\<exists>s'. kv_DeleteAll (inmem_KVStore seed) s = Inr s' \<and> inmem_inv s' \<and>
      inmem_lookup s' = Map.empty"
    using t by (simp add: inmem_KVStore_def inmem_lookup_def inmem_inv_def inmem_wf_def)
  show "distinct (map fst (inmem_pairs s))"
    using t by (simp add: inmem_pairs_def inmem_wf_def comp_def)
  show "map_of (inmem_pairs s) = inmem_lookup s"
    using t by (simp add: inmem_pairs_def inmem_lookup_def inmem_wf_def map_of_map_keys
        dom_map_of_conv_image_fst)
  fix fn :: "string \<Rightarrow> 'v option \<Rightarrow> 'acc \<Rightarrow> 'acc \<times> error option" and acc
  show "kv_ForEach (inmem_KVStore seed) s fn acc = fold
     (\<lambda>(k, v) (acc, err). if err = None then fn k (Some v) acc else (acc, err))
     (inmem_pairs s) (acc, None)"
    using t by (simp add: inmem_KVStore_def inmem_pairs_def inmem_wf_def inmem_ForEach_loop_fold)
next
  fix s :: "'v inmem" and k :: string and v :: 'v
  assume "inmem_inv s" "k \<noteq> ''''"
  then obtain t t' where "s = Some t" "inmem_Set (Some t) k v = Inr (Some t')" "inmem_wf t'"
    "map_of (items t') = (map_of (items t))(k \<mapsto> v)"
    using inmem_Set_ok[of _ k v] by (auto elim!: inmem_invE simp del: inmem_Set.simps) blast
  then show "\<exists>s'. kv_Set (inmem_KVStore seed) s k v = Inr s' \<and> inmem_inv s' \<and>
      inmem_lookup s' = (inmem_lookup s)(k \<mapsto> v)"
    by (intro exI[of _ "Some t'"]) (simp add: inmem_KVStore_def inmem_lookup_def inmem_inv_def)
next
  fix s :: "'v inmem" and kvs :: "(string \<times> 'v) list"
  assume "inmem_inv s" "distinct (map fst kvs)" "'''' \<notin> fst ` set kvs"
  then show "\<exists>s' dels. kv_Update (inmem_KVStore seed) s kvs = (s', Inr dels) \<and> inmem_inv s' \<and>
      inmem_lookup s' = map_of kvs \<and> distinct dels \<and>
      set dels = dom (inmem_lookup s) - fst ` set kvs"
    using inmem_Update_ok[of _ kvs seed]
    by (fastforce elim!: inmem_invE simp: inmem_KVStore_def inmem_lookup_def inmem_inv_def
        dom_map_of_conv_image_fst)
qed

subsection \<open>Ordered values\<close>

lemma PutUint64_nonblank: "PutUint64 w \<noteq> ''''"
  by (simp add: PutUint64_def)

lemma length_PutUint64: "length (PutUint64 w) = 8"
  by (simp add: PutUint64_def)

lemma PutUint64_inj:
  assumes "PutUint64 v = PutUint64 w"
  shows "v = w"
proof -
  have byte: "drop_bit (8 * i) (unat v) mod 256 = drop_bit (8 * i) (unat w) mod 256" if "i < 8" for i
  proof -
    have "i \<in> set [7, 6, 5, 4, 3, 2, 1, 0]" using that by auto
    then have "char_of (unat (drop_bit (8 * i) v) mod 256) = (char_of (unat (drop_bit (8 * i) w) mod 256) :: char)"
      using assms unfolding PutUint64_def map_eq_conv by blast
    then have "(of_char (char_of (unat (drop_bit (8 * i) v) mod 256)) :: nat) =
        of_char (char_of (unat (drop_bit (8 * i) w) mod 256))" by simp
    then show ?thesis by (simp add: unat_drop_bit_eq)
  qed
  have "bit v n = bit w n" if "n < 64" for n
  proof -
    have "bit (take_bit 8 (drop_bit (8 * (n div 8)) (unat v))) (n mod 8) =
        bit (take_bit 8 (drop_bit (8 * (n div 8)) (unat w))) (n mod 8)"
      using byte[of "n div 8"] that by (simp add: take_bit_eq_mod)
    then show ?thesis
      by (simp add: bit_take_bit_iff bit_drop_bit_eq bit_unsigned_iff)
  qed
  then show ?thesis by (intro bit_word_eqI) simp
qed
lemma inmem_AppendValues_loop_ok:
  assumes "inmem_wf s"
    and "\<forall>i < length vs. PutUint64 (sequence s + 1 + of_nat i) \<notin> set (order s)"
    and "length vs < 2 ^ 64"
  shows "inmem_wf (inmem_AppendValues_loop vs s) \<and>
    inmem_pairs (Some (inmem_AppendValues_loop vs s)) =
      inmem_pairs (Some s) @
      zip (map (\<lambda>i. PutUint64 (sequence s + 1 + of_nat i)) [0..<length vs]) vs"
  using assms
proof (induction vs arbitrary: s)
  case Nil
  then show ?case by simp
next
  case (Cons v vs)
  let ?s1 = "s\<lparr>sequence := sequence s + 1\<rparr>" and ?k = "PutUint64 (sequence s + 1)"
  have wf1: "inmem_wf ?s1" using Cons.prems(1) by (simp add: inmem_wf_def)
  have new: "?k \<notin> set (order s)" using Cons.prems(2)[rule_format, of 0] by simp
  obtain s2 where s2: "inmem_Set (Some ?s1) ?k v = Inr (Some s2)" "inmem_wf s2"
    "map_of (items s2) = (map_of (items s))(?k \<mapsto> v)"
    "order s2 = order s @ [?k]" "sequence s2 = sequence s + 1"
    using inmem_Set_ok[OF wf1 PutUint64_nonblank, of "sequence s + 1" v] new by fastforce
  have step: "inmem_AppendValues_loop (v # vs) s = inmem_AppendValues_loop vs s2"
    using s2(1) by (simp add: inmem_nextSequenceKey_def Let_def del: inmem_Set.simps)
  have shift: "sequence s + 1 + of_nat (Suc i) = sequence s2 + 1 + of_nat i" for i
    by (simp add: s2(5) ac_simps)
  have fresh: "\<forall>i < length vs. PutUint64 (sequence s2 + 1 + of_nat i) \<notin> set (order s2)"
  proof (intro allI impI)
    fix i assume i: "i < length vs"
    from Cons.prems(2)[rule_format, of "Suc i"] i
    have old: "PutUint64 (sequence s2 + 1 + of_nat i) \<notin> set (order s)" by (simp add: shift[symmetric] del: of_nat_Suc)
    have "unat (of_nat (Suc i) :: 64 word) = Suc i"
      using i Cons.prems(3) by (simp add: unat_of_nat del: of_nat_Suc)
    then have "of_nat (Suc i) \<noteq> (0 :: 64 word)" by (metis nat.distinct(1) unat_0)
    then have "sequence s2 + 1 + of_nat i \<noteq> sequence s + 1"
      unfolding shift[symmetric] by (simp only: add_cancel_left_right not_False_eq_True)
    then have "PutUint64 (sequence s2 + 1 + of_nat i) \<noteq> ?k" using PutUint64_inj by blast
    with old show "PutUint64 (sequence s2 + 1 + of_nat i) \<notin> set (order s2)"
      by (simp only: s2(4)) simp
  qed
  have pairs: "inmem_pairs (Some s2) = inmem_pairs (Some s) @ [(?k, v)]"
    using new s2(3,4) by (auto simp: inmem_pairs_def)
  have zip: "zip (map (\<lambda>i. PutUint64 (sequence s + 1 + of_nat i)) [0..<length (v # vs)]) (v # vs)
      = (?k, v) # zip (map (\<lambda>i. PutUint64 (sequence s2 + 1 + of_nat i)) [0..<length vs]) vs"
    by (simp add: upt_conv_Cons map_Suc_upt[symmetric] shift comp_def del: upt_Suc of_nat_Suc)
  from Cons.IH[OF s2(2) fresh] Cons.prems(3) show ?case
    unfolding step by (simp only: pairs zip) simp
qed

subsection \<open>Properties\<close>

text \<open>C15: a bulk update with non-blank keys leaves exactly the given pairs in the store and returns
  exactly the keys that were pruned, each once, whatever order Go ranges over the map in.\<close>

theorem inmem_Update_replaces:
  assumes "inmem_inv s" and "distinct (map fst kvs)" and "'''' \<notin> fst ` set kvs"
  shows "\<exists>s' dels. inmem_Update seed s kvs = (s', Inr dels) \<and> inmem_inv s' \<and>
    inmem_lookup s' = map_of kvs \<and> distinct dels \<and> set dels = dom (inmem_lookup s) - fst ` set kvs"
  using inmem.update_ok[OF assms, of seed] by (simp add: inmem_KVStore_def)

theorem inmem_Update_replaces_witness:
  "\<exists>s' dels. inmem_Update [1] (Some \<lparr>items = [(''a'', 1), (''b'', 2)], order = [''a'', ''b''], sequence = 0\<rparr>)
      [(''b'', 3::int)] = (s', Inr dels) \<and> inmem_inv s' \<and> inmem_lookup s' = [''b'' \<mapsto> 3] \<and>
      distinct dels \<and> set dels = {''a''}"
proof -
  let ?s = "Some \<lparr>items = [(''a'', 1), (''b'', 2::int)], order = [''a'', ''b''], sequence = 0\<rparr>"
  have inv: "inmem_inv ?s" by (simp add: inmem_inv_def inmem_wf_def)
  have dom: "dom (inmem_lookup ?s) - fst ` set [(''b'', 3::int)] = {''a''}"
    by (auto simp: inmem_lookup_def)
  show ?thesis using inmem_Update_replaces[OF inv, of "[(''b'', 3)]" "[1]", unfolded dom] by simp
qed

text \<open>Values appended to the in-memory store are stored under fresh keys and are iterated after
  everything already there, in the order in which they were appended (as long as the sequence
  keys are not taken and fewer than \<open>2^64\<close> values are appended).\<close>

lemma inmem_AppendValues_in_order:
  assumes "inmem_wf s"
    and "\<forall>i < length vs. PutUint64 (sequence s + 1 + of_nat i) \<notin> set (order s)"
    and "length vs < 2 ^ 64"
  shows "\<exists>s'. inmem_AppendValues (Some s) vs = Inr s' \<and> inmem_inv s' \<and>
    map snd (inmem_pairs s') = map snd (inmem_pairs (Some s)) @ vs"
  using inmem_AppendValues_loop_ok[OF assms] by (simp add: inmem_inv_def)

end
