(* ===== verification/SendBuffer.thy ===== *)
theory SendBuffer
  imports Launcher_Prelude
begin

text \<open>
  The log buffer of \<open>pkg/sendbuffer/sendbuffer.go\<close>: logs are appended by \<open>Write\<close>, rewritten by
  \<open>UpdateData\<close>, shipped in order by \<open>sendAndPurge\<close> (from the ticker loop \<open>Run\<close> or from \<open>Drain\<close>).
  A \<open>Write\<close> may run while a send is on the network, so a send is two atomic parts: copying the
  logs to a payload, and purging them once the sender has accepted it.
\<close>

subsection \<open>State\<close>

text \<open>
  The mutexes are not fields: each operation that holds \<open>writeMutex\<close> is one atomic step, and
  \<open>sendMutex\<close> is held exactly while a payload is in flight (see \<open>sb_sys\<close> below).
\<close>

record SendBuffer =
  logs :: "bytes list"
  isSending :: bool
  logsJustPurged :: bool
  sb_size :: int
  maxStorageSizeBytes :: int
  maxSendSizeBytes :: int
  maxDrainSends :: int
  sendInterval :: int
  drainSendWait :: int

definition defaultMaxSizeBytes :: int where "defaultMaxSizeBytes = 1024 * 1024"
definition defaultSendSizeBytes :: int where "defaultSendSizeBytes = 512 * 1024"
definition defaultSendInterval :: int where "defaultSendInterval = 60 * 10 ^ 9"
definition maxWriteBytes :: int where "maxWriteBytes = 8 * 1024"
definition defaultMaxDrainSends :: int where "defaultMaxDrainSends = 5"
definition defaultDrainSendWait :: int where "defaultDrainSendWait = 300 * 10 ^ 6"

definition WithMaxStorageSizeBytes :: "int \<Rightarrow> SendBuffer \<Rightarrow> SendBuffer" where
  "WithMaxStorageSizeBytes maxSize sb = sb\<lparr>maxStorageSizeBytes := maxSize\<rparr>"
definition WithMaxSendSizeBytes :: "int \<Rightarrow> SendBuffer \<Rightarrow> SendBuffer" where
  "WithMaxSendSizeBytes sendSize sb = sb\<lparr>maxSendSizeBytes := sendSize\<rparr>"
definition WithMaxDrainSends :: "int \<Rightarrow> SendBuffer \<Rightarrow> SendBuffer" where
  "WithMaxDrainSends cnt sb = sb\<lparr>maxDrainSends := cnt\<rparr>"
definition WithDrainSendWait :: "int \<Rightarrow> SendBuffer \<Rightarrow> SendBuffer" where
  "WithDrainSendWait wait sb = sb\<lparr>drainSendWait := wait\<rparr>"
definition WithSendInterval :: "int \<Rightarrow> SendBuffer \<Rightarrow> SendBuffer" where
  "WithSendInterval interval sb = sb\<lparr>sendInterval := interval\<rparr>"

definition SendBuffer_New :: "(SendBuffer \<Rightarrow> SendBuffer) list \<Rightarrow> SendBuffer" where
  "SendBuffer_New opts = fold (\<lambda>opt sb. opt sb) opts
     \<lparr>logs = [], isSending = False, logsJustPurged = False, sb_size = 0,
      maxStorageSizeBytes = defaultMaxSizeBytes, maxSendSizeBytes = defaultSendSizeBytes,
      maxDrainSends = defaultMaxDrainSends, sendInterval = defaultSendInterval,
      drainSendWait = defaultDrainSendWait\<rparr>"

subsection \<open>Operations\<close>

text \<open>
  \<open>deleteLogs\<close> indexes \<open>sb.logs[i]\<close> for every \<open>i < toIndex\<close>, so it panics (\<open>None\<close>) when fewer logs
  are left.
\<close>

definition deleteLogs :: "nat \<Rightarrow> SendBuffer \<Rightarrow> SendBuffer option" where
  "deleteLogs toIndex sb =
     (if toIndex \<le> length (logs sb)
      then Some (sb\<lparr>logs := drop toIndex (logs sb),
                    sb_size := sb_size sb - int (sum_list (map length (take toIndex (logs sb))))\<rparr>)
      else None)"

text \<open>\<open>Write\<close> returns \<open>len(in)\<close> and no error on every path; \<open>None\<close> would be a panic.\<close>

definition SendBuffer_Write :: "SendBuffer \<Rightarrow> bytes \<Rightarrow> (nat \<times> SendBuffer) option" where
  "SendBuffer_Write sb inp =
     (if inp = [] then Some (length inp, sb)
      else if int (length inp) > maxWriteBytes then Some (length inp, sb)
      else if int (length inp) + sb_size sb > maxStorageSizeBytes sb
      then (case deleteLogs (length (logs sb)) sb of
              None \<Rightarrow> None
            | Some sb1 \<Rightarrow> Some (length inp, sb1\<lparr>logsJustPurged := True\<rparr>))
      else Some (length inp,
             sb\<lparr>logs := logs sb @ [inp], sb_size := sb_size sb + int (length inp)\<rparr>))"

definition SetSendInterval :: "int \<Rightarrow> SendBuffer \<Rightarrow> SendBuffer" where
  "SetSendInterval interval sb = sb\<lparr>sendInterval := interval\<rparr>"

text \<open>
  \<open>UpdateData\<close>: \<open>f\<close> maps the bytes of a log to what it wrote, or fails (\<open>None\<close>).  The first loop
  rewrites the logs in place and collects the indexes to delete, the second deletes them, shifting
  each by the number already deleted.
\<close>

function UpdateData_loop ::
  "(bytes \<Rightarrow> bytes option) \<Rightarrow> nat \<Rightarrow> SendBuffer \<Rightarrow> nat list \<Rightarrow> SendBuffer \<times> nat list" where
  "UpdateData_loop f i sb indexesToDelete =
     (if i < length (logs sb) then
        (case f (logs sb ! i) of
           None \<Rightarrow> UpdateData_loop f (Suc i) sb indexesToDelete
         | Some out \<Rightarrow>
             (let inSize = int (length (logs sb ! i));
                  outLen = int (length out);
                  sb1 = sb\<lparr>logs := (logs sb)[i := []], sb_size := sb_size sb - inSize\<rparr>
              in if outLen = 0 then UpdateData_loop f (Suc i) sb1 (indexesToDelete @ [i])
                 else if outLen > maxSendSizeBytes sb1
                 then UpdateData_loop f (Suc i) sb1 (indexesToDelete @ [i])
                 else if outLen + sb_size sb1 > maxStorageSizeBytes sb1
                 then UpdateData_loop f (Suc i) sb1 (indexesToDelete @ [i])
                 else UpdateData_loop f (Suc i)
                        (sb1\<lparr>logs := (logs sb1)[i := out], sb_size := sb_size sb1 + outLen\<rparr>)
                        indexesToDelete))
      else (sb, indexesToDelete))"
  by pat_completeness auto
termination
  by (relation "measure (\<lambda>(f, i, sb, d). length (logs sb) - i)") (auto simp: Let_def)

declare UpdateData_loop.simps [simp del]

fun UpdateData_delete :: "nat \<Rightarrow> nat list \<Rightarrow> bytes list \<Rightarrow> bytes list" where
  "UpdateData_delete i [] ls = ls"
| "UpdateData_delete i (idx # rest) ls =
     (let indexToDelete = idx - i
      in UpdateData_delete (Suc i) rest (take indexToDelete ls @ drop (Suc indexToDelete) ls))"

definition UpdateData :: "(bytes \<Rightarrow> bytes option) \<Rightarrow> SendBuffer \<Rightarrow> SendBuffer" where
  "UpdateData f sb =
     (case UpdateData_loop f 0 sb [] of
        (sb1, indexesToDelete) \<Rightarrow> sb1\<lparr>logs := UpdateData_delete 0 indexesToDelete (logs sb1)\<rparr>)"

definition DeleteAllData :: "SendBuffer \<Rightarrow> SendBuffer" where
  "DeleteAllData sb = sb\<lparr>logs := [], sb_size := 0\<rparr>"

text \<open>\<open>copyLogs\<close> into a \<open>bytes.Buffer\<close>, whose \<open>Write\<close> does not fail.\<close>

fun copyLogs_loop :: "int \<Rightarrow> bytes list \<Rightarrow> int \<Rightarrow> nat \<Rightarrow> bytes \<Rightarrow> nat \<times> bytes" where
  "copyLogs_loop maxSizeBytes [] sz lastLogIndex w = (lastLogIndex, w)"
| "copyLogs_loop maxSizeBytes (l # ls) sz lastLogIndex w =
     (if int (length l) + sz > maxSizeBytes then (lastLogIndex, w)
      else copyLogs_loop maxSizeBytes ls (sz + int (length l)) (Suc lastLogIndex) (w @ l))"

definition copyLogs :: "SendBuffer \<Rightarrow> int \<Rightarrow> nat \<times> bytes" where
  "copyLogs sb maxSizeBytes = copyLogs_loop maxSizeBytes (logs sb) 0 0 []"

text \<open>
  The end of \<open>sendAndPurge\<close>, under \<open>writeMutex\<close>, once the sender has accepted the payload; the
  number of logs it reports as sent comes with the new state.
\<close>

definition sendAndPurge_finish :: "nat \<Rightarrow> SendBuffer \<Rightarrow> (nat \<times> SendBuffer) option" where
  "sendAndPurge_finish lastKey sb =
     (if logsJustPurged sb then Some (0, sb\<lparr>logsJustPurged := False\<rparr>)
      else map_option (Pair lastKey) (deleteLogs lastKey sb))"

text \<open>
  \<open>sendAndPurge\<close> with no other operation in between; \<open>locked\<close> says that another send holds \<open>sendMutex\<close>, so
  that \<open>TryLock\<close> fails, and \<open>send\<close> is the sender.
\<close>

definition sendAndPurge ::
  "bool \<Rightarrow> (bytes \<Rightarrow> error option) \<Rightarrow> SendBuffer \<Rightarrow> ((nat \<times> error option) \<times> SendBuffer) option" where
  "sendAndPurge locked send sb =
     (if locked then Some ((0, None), sb)
      else case copyLogs sb (maxSendSizeBytes sb) of (lastKey, toSendBuff) \<Rightarrow>
        if toSendBuff = [] then Some ((0, None), sb)
        else case send toSendBuff of
          Some err \<Rightarrow> Some ((0, Some err), sb)
        | None \<Rightarrow>
            (case sendAndPurge_finish lastKey sb of
               None \<Rightarrow> None
             | Some (cnt, sb') \<Rightarrow> Some ((cnt, None), sb')))"

text \<open>
  \<open>Drain\<close>: \<open>locked i\<close> says that the \<open>i\<close>-th send finds \<open>sendMutex\<close> taken, \<open>send i\<close> is the sender's answer to it and \<open>ctxErr i\<close> what \<open>ctx.Err()\<close> is
  when the context ends during the wait after it (\<open>None\<close>: the wait ran out first).
\<close>

function Drain_loop ::
  "(nat \<Rightarrow> bool) \<Rightarrow> (nat \<Rightarrow> bytes \<Rightarrow> error option) \<Rightarrow> (nat \<Rightarrow> error option) \<Rightarrow> nat \<Rightarrow> int \<Rightarrow> SendBuffer \<Rightarrow>
   (error option \<times> SendBuffer) option" where
  "Drain_loop locked send ctxErr i linesRemaining sb =
     (if int i < maxDrainSends sb \<and> linesRemaining > 0 \<and> length (logs sb) > 0 then
        (case sendAndPurge (locked i) (send i) sb of
           None \<Rightarrow> None
         | Some ((cnt, err), sb') \<Rightarrow>
             (case err of
                Some e \<Rightarrow> Some (Some (ErrWrap ''draining sendbuffer failed on send and purge'' e), sb')
              | None \<Rightarrow>
                  if cnt = 0 then Some (None, sb')
                  else if linesRemaining - int cnt \<le> 0 then Some (None, sb')
                  else (case ctxErr i of
                          Some e \<Rightarrow> Some (Some e, sb')
                        | None \<Rightarrow> Drain_loop locked send ctxErr (Suc i) (linesRemaining - int cnt) sb')))
      else if int i \<ge> maxDrainSends sb
      then Some (Some (ErrNew ''failed to drain sendbuffer after the maximum of sends''), sb)
      else Some (None, sb))"
  by pat_completeness auto

lemma deleteLogs_config:
  "deleteLogs n sb = Some sb' \<Longrightarrow> maxDrainSends sb' = maxDrainSends sb \<and>
     maxSendSizeBytes sb' = maxSendSizeBytes sb \<and> maxStorageSizeBytes sb' = maxStorageSizeBytes sb \<and>
     logsJustPurged sb' = logsJustPurged sb"
  by (auto simp: deleteLogs_def split: if_splits)

lemma sendAndPurge_config:
  assumes "sendAndPurge locked send sb = Some (r, sb')"
  shows "maxDrainSends sb' = maxDrainSends sb \<and> maxSendSizeBytes sb' = maxSendSizeBytes sb \<and>
    maxStorageSizeBytes sb' = maxStorageSizeBytes sb"
  using assms
  by (auto simp: sendAndPurge_def sendAndPurge_finish_def split: prod.splits if_splits option.splits
      dest!: deleteLogs_config)

termination Drain_loop
  by (relation "measure (\<lambda>(locked, send, ctxErr, i, n, sb). nat (maxDrainSends sb - int i))")
    (auto dest!: sendAndPurge_config)

declare Drain_loop.simps [simp del]

definition SendBuffer_Drain ::
  "(nat \<Rightarrow> bool) \<Rightarrow> (nat \<Rightarrow> bytes \<Rightarrow> error option) \<Rightarrow> (nat \<Rightarrow> error option) \<Rightarrow> SendBuffer \<Rightarrow>
   (error option \<times> SendBuffer) option" where
  "SendBuffer_Drain locked send ctxErr sb = Drain_loop locked send ctxErr 0 (int (length (logs sb))) sb"

text \<open>
  \<open>Run\<close>: one round per tick.  A round is whether the send finds \<open>sendMutex\<close> taken, the sender's behaviour, and whether the context is done in
  the select that follows; the run ends at the first round whose context is done, and the history
  considered is finite.  Errors are logged only.
\<close>

fun Run_loop :: "(bool \<times> (bytes \<Rightarrow> error option) \<times> bool) list \<Rightarrow> SendBuffer \<Rightarrow> SendBuffer option" where
  "Run_loop [] sb = Some sb"
| "Run_loop ((locked, send, ctxDone) # rounds) sb =
     (case sendAndPurge locked send sb of
        None \<Rightarrow> None
      | Some (_, sb') \<Rightarrow>
          if ctxDone then Some (sb'\<lparr>isSending := False\<rparr>) else Run_loop rounds sb')"

definition SendBuffer_Run ::
  "(bool \<times> (bytes \<Rightarrow> error option) \<times> bool) list \<Rightarrow> SendBuffer \<Rightarrow> (error option \<times> SendBuffer) option" where
  "SendBuffer_Run rounds sb =
     (if isSending sb then Some (Some (ErrNew ''already running''), sb)
      else map_option (Pair None) (Run_loop rounds (sb\<lparr>isSending := True\<rparr>)))"

subsection \<open>Copying: the longest prefix that fits\<close>

definition bytes_in :: "bytes list \<Rightarrow> int" where
  "bytes_in ls = int (sum_list (map length ls))"

lemma bytes_in_simps [simp]:
  "bytes_in [] = 0" "bytes_in (l # ls) = int (length l) + bytes_in ls" "bytes_in (xs @ ys) = bytes_in xs + bytes_in ys"
  by (simp_all add: bytes_in_def)

lemma bytes_in_nonneg: "0 \<le> bytes_in ls"
  by (simp add: bytes_in_def)

lemma bytes_in_take_drop: "bytes_in (take n ls) + bytes_in (drop n ls) = bytes_in ls"
  by (metis append_take_drop_id bytes_in_simps(3))

lemma bytes_in_eq_length_concat: "bytes_in ls = int (length (concat ls))"
  by (simp add: bytes_in_def length_concat)

lemma bytes_in_concat_Nil: "concat ls = [] \<Longrightarrow> bytes_in ls = 0"
  by (simp add: bytes_in_eq_length_concat)

lemma deleteLogs_alt:
  "deleteLogs n sb = (if n \<le> length (logs sb)
     then Some (sb\<lparr>logs := drop n (logs sb), sb_size := sb_size sb - bytes_in (take n (logs sb))\<rparr>) else None)"
  by (simp add: deleteLogs_def bytes_in_def)

definition fits :: "int \<Rightarrow> bytes list \<Rightarrow> nat \<Rightarrow> bool" where
  "fits m ls n \<longleftrightarrow> n \<le> length ls \<and> bytes_in (take n ls) \<le> m \<and>
     (n < length ls \<longrightarrow> bytes_in (take (Suc n) ls) > m)"

lemma copyLogs_loop_fits:
  assumes "sz \<le> m"
  shows "\<exists>n. copyLogs_loop m ls sz k w = (k + n, w @ concat (take n ls)) \<and> fits (m - sz) ls n"
  using assms
proof (induction ls arbitrary: sz k w)
  case Nil
  then show ?case by (auto simp: fits_def)
next
  case (Cons l ls)
  show ?case
  proof (cases "int (length l) + sz > m")
    case True
    with Cons.prems show ?thesis by (intro exI[of _ 0]) (simp add: fits_def)
  next
    case False
    from Cons.IH[of "sz + int (length l)" "Suc k" "w @ l"] False obtain n where
      n: "copyLogs_loop m ls (sz + int (length l)) (Suc k) (w @ l) =
          (Suc k + n, (w @ l) @ concat (take n ls))" "fits (m - (sz + int (length l))) ls n"
      by auto
    then show ?thesis using False by (intro exI[of _ "Suc n"]) (auto simp: fits_def)
  qed
qed

lemma copyLogs_fits:
  assumes "0 \<le> maxSize"
  obtains n where "copyLogs sb maxSize = (n, concat (take n (logs sb)))" and "fits maxSize (logs sb) n"
  using copyLogs_loop_fits[OF assms, of "logs sb" 0 "[]"] by (auto simp: copyLogs_def)

subsection \<open>The size invariant\<close>

text \<open>
  \<open>size\<close> is the number of bytes buffered, it never exceeds the configured storage, and no empty log
  is buffered.
\<close>

definition sb_inv :: "SendBuffer \<Rightarrow> bool" where
  "sb_inv sb \<longleftrightarrow> sb_size sb = bytes_in (logs sb) \<and> sb_size sb \<le> maxStorageSizeBytes sb \<and>
     [] \<notin> set (logs sb)"

lemma sb_inv_deleteLogs: "sb_inv sb \<Longrightarrow> deleteLogs n sb = Some sb' \<Longrightarrow> sb_inv sb'"
  using bytes_in_take_drop[of n "logs sb"] bytes_in_nonneg[of "take n (logs sb)"]
  by (auto simp: sb_inv_def deleteLogs_alt split: if_splits dest: in_set_dropD)

lemma SendBuffer_Write_total: "\<exists>sb'. SendBuffer_Write sb inp = Some (length inp, sb')"
  by (simp add: SendBuffer_Write_def deleteLogs_alt)

lemma sb_inv_Write [inv_intros]:
  "sb_inv sb \<Longrightarrow> SendBuffer_Write sb inp = Some (n, sb') \<Longrightarrow> sb_inv sb'"
  using sb_inv_deleteLogs[of sb "length (logs sb)"]
  by (auto simp: SendBuffer_Write_def sb_inv_def split: if_splits option.splits)

lemma sb_inv_finish [inv_intros]:
  "sb_inv sb \<Longrightarrow> sendAndPurge_finish n sb = Some (k, sb') \<Longrightarrow> sb_inv sb'"
  using sb_inv_deleteLogs[of sb n]
  by (auto simp: sendAndPurge_finish_def split: if_splits) (auto simp: sb_inv_def)

lemma sb_inv_DeleteAllData [inv_intros]: "sb_inv sb \<Longrightarrow> sb_inv (DeleteAllData sb)"
  using bytes_in_nonneg[of "logs sb"] by (simp add: sb_inv_def DeleteAllData_def)

subsection \<open>\<open>UpdateData\<close> against a one-pass specification\<close>

text \<open>
  One left-to-right pass over the logs with the running size: a log whose update fails is kept, an
  updated log is kept if it is not empty, can be sent, and fits next to everything buffered.
\<close>

fun update_pass ::
  "(bytes \<Rightarrow> bytes option) \<Rightarrow> int \<Rightarrow> int \<Rightarrow> int \<Rightarrow> bytes list \<Rightarrow> bytes list \<times> int" where
  "update_pass f maxSend maxStore sz [] = ([], sz)"
| "update_pass f maxSend maxStore sz (l # ls) =
     (case f l of
        None \<Rightarrow> apfst ((#) l) (update_pass f maxSend maxStore sz ls)
      | Some out \<Rightarrow>
          (let sz1 = sz - int (length l) in
           if out = [] \<or> int (length out) > maxSend \<or> int (length out) + sz1 > maxStore
           then update_pass f maxSend maxStore sz1 ls
           else apfst ((#) out) (update_pass f maxSend maxStore (sz1 + int (length out)) ls)))"

text \<open>Deleting increasing indexes with the shift is filtering by index.\<close>

definition drop_indexes :: "nat \<Rightarrow> nat list \<Rightarrow> bytes list \<Rightarrow> bytes list" where
  "drop_indexes base ds ls = map snd (filter (\<lambda>(j, _). j \<notin> set ds) (zip [base..<base + length ls] ls))"

lemma drop_indexes_Cons:
  "drop_indexes base ds (l # ls) =
     (if base \<in> set ds then drop_indexes (Suc base) ds ls else l # drop_indexes (Suc base) ds ls)"
  by (simp add: drop_indexes_def upt_conv_Cons del: upt_Suc)

lemma drop_indexes_Nil [simp]: "drop_indexes base ds [] = []"
  by (simp add: drop_indexes_def)

lemma drop_indexes_none: "\<forall>d \<in> set ds. d < base \<Longrightarrow> drop_indexes base ds ls = ls"
  by (induction ls arbitrary: base) (auto simp: drop_indexes_Cons less_Suc_eq)

lemma UpdateData_delete_prefix:
  assumes "sorted_wrt (<) ds" and "\<forall>d \<in> set ds. base \<le> d \<and> d < base + length ls"
    and "length pre + i = base"
  shows "UpdateData_delete i ds (pre @ ls) = pre @ drop_indexes base ds ls"
  using assms
proof (induction ls arbitrary: base ds i pre)
  case Nil
  then have "ds = []" by (cases ds) auto
  then show ?case by simp
next
  case (Cons l ls)
  show ?case
  proof (cases ds)
    case Nil
    then show ?thesis by (simp add: drop_indexes_none)
  next
    case (Cons d ds')
    show ?thesis
    proof (cases "d = base")
      case True
      have step: "UpdateData_delete i ds (pre @ l # ls) = UpdateData_delete (Suc i) ds' (pre @ ls)"
        using Cons.prems(3) Cons True by (auto simp: Let_def Suc_diff_le)
      have "UpdateData_delete (Suc i) ds' (pre @ ls) = pre @ drop_indexes (Suc base) ds' ls"
      proof (rule Cons.IH)
        show "\<forall>d \<in> set ds'. Suc base \<le> d \<and> d < Suc base + length ls"
          using Cons.prems(1,2) Cons True by auto
      qed (use Cons.prems Cons in auto)
      moreover have "drop_indexes (Suc base) ds ls = drop_indexes (Suc base) ds' ls"
        using Cons True by (auto simp: drop_indexes_def intro!: arg_cong[of _ _ "map snd"] filter_cong
            dest: set_zip_leftD)
      ultimately show ?thesis using step Cons True by (simp add: drop_indexes_Cons)
    next
      case False
      then have gt: "\<forall>d \<in> set ds. Suc base \<le> d \<and> d < Suc base + length ls"
        using Cons.prems(1,2) Cons by fastforce
      then have "base \<notin> set ds" by fastforce
      have "UpdateData_delete i ds ((pre @ [l]) @ ls) = (pre @ [l]) @ drop_indexes (Suc base) ds ls"
        by (rule Cons.IH) (use Cons.prems gt in auto)
      then show ?thesis using \<open>base \<notin> set ds\<close> by (simp add: drop_indexes_Cons)
    qed
  qed
qed

lemma drop_indexes_later: "\<forall>d \<in> set ds. base + length ls \<le> d \<Longrightarrow> drop_indexes base ds ls = ls"
  by (induction ls arbitrary: base) (auto simp: drop_indexes_Cons)

lemma UpdateData_loop_step:
  assumes "logs sb = pre @ l # rest" and "length pre = i"
  shows "UpdateData_loop f i sb ds =
    (case f l of
       None \<Rightarrow> UpdateData_loop f (Suc i) sb ds
     | Some out \<Rightarrow>
         (let sz1 = sb_size sb - int (length l) in
          if out = [] \<or> int (length out) > maxSendSizeBytes sb \<or>
             int (length out) + sz1 > maxStorageSizeBytes sb
          then UpdateData_loop f (Suc i) (sb\<lparr>logs := pre @ [] # rest, sb_size := sz1\<rparr>) (ds @ [i])
          else UpdateData_loop f (Suc i)
                 (sb\<lparr>logs := pre @ out # rest, sb_size := sz1 + int (length out)\<rparr>) ds))"
  using assms
  by (subst UpdateData_loop.simps) (auto simp: Let_def nth_append list_update_append split: option.splits)

lemma UpdateData_loop_pass:
  assumes "logs sb = pre @ rest" and "length pre = i"
  shows "\<exists>rest' ds'. UpdateData_loop f i sb ds =
      (sb\<lparr>logs := pre @ rest', sb_size := snd (update_pass f (maxSendSizeBytes sb)
            (maxStorageSizeBytes sb) (sb_size sb) rest)\<rparr>, ds @ ds') \<and>
    length rest' = length rest \<and> sorted_wrt (<) ds' \<and>
    (\<forall>d \<in> set ds'. i \<le> d \<and> d < i + length rest) \<and>
    drop_indexes i ds' rest' =
      fst (update_pass f (maxSendSizeBytes sb) (maxStorageSizeBytes sb) (sb_size sb) rest)"
  using assms
proof (induction rest arbitrary: i pre sb ds)
  case Nil
  then show ?case by (subst UpdateData_loop.simps) simp
next
  case (Cons l rest)
  have keep: ?case if
    step: "UpdateData_loop f i sb ds = UpdateData_loop f (Suc i) (sb\<lparr>logs := pre @ x # rest, sb_size := sz\<rparr>) ds"
    and pass: "update_pass f (maxSendSizeBytes sb) (maxStorageSizeBytes sb) (sb_size sb) (l # rest) =
      apfst ((#) x) (update_pass f (maxSendSizeBytes sb) (maxStorageSizeBytes sb) sz rest)" for x sz
  proof -
    from Cons.IH[of "sb\<lparr>logs := pre @ x # rest, sb_size := sz\<rparr>" "pre @ [x]" "Suc i" ds] Cons.prems
    obtain rest' ds' where r: "UpdateData_loop f (Suc i) (sb\<lparr>logs := pre @ x # rest, sb_size := sz\<rparr>) ds =
        (sb\<lparr>logs := pre @ x # rest', sb_size := snd (update_pass f (maxSendSizeBytes sb)
            (maxStorageSizeBytes sb) sz rest)\<rparr>, ds @ ds')"
      "length rest' = length rest" "sorted_wrt (<) ds'"
      "\<forall>d \<in> set ds'. Suc i \<le> d \<and> d < Suc i + length rest"
      "drop_indexes (Suc i) ds' rest' =
        fst (update_pass f (maxSendSizeBytes sb) (maxStorageSizeBytes sb) sz rest)"
      by auto
    from r(4) have "i \<notin> set ds'" by fastforce
    with r show ?thesis unfolding step pass
      by (intro exI[of _ "x # rest'"] exI[of _ ds']) (auto simp: drop_indexes_Cons)
  qed
  have cut: ?case if
    step: "UpdateData_loop f i sb ds =
      UpdateData_loop f (Suc i) (sb\<lparr>logs := pre @ [] # rest, sb_size := sz\<rparr>) (ds @ [i])"
    and pass: "update_pass f (maxSendSizeBytes sb) (maxStorageSizeBytes sb) (sb_size sb) (l # rest) =
      update_pass f (maxSendSizeBytes sb) (maxStorageSizeBytes sb) sz rest" for sz
  proof -
    from Cons.IH[of "sb\<lparr>logs := pre @ [] # rest, sb_size := sz\<rparr>" "pre @ [[]]" "Suc i" "ds @ [i]"] Cons.prems
    obtain rest' ds' where r: "UpdateData_loop f (Suc i) (sb\<lparr>logs := pre @ [] # rest, sb_size := sz\<rparr>) (ds @ [i]) =
        (sb\<lparr>logs := pre @ [] # rest', sb_size := snd (update_pass f (maxSendSizeBytes sb)
            (maxStorageSizeBytes sb) sz rest)\<rparr>, ds @ i # ds')"
      "length rest' = length rest" "sorted_wrt (<) ds'"
      "\<forall>d \<in> set ds'. Suc i \<le> d \<and> d < Suc i + length rest"
      "drop_indexes (Suc i) ds' rest' =
        fst (update_pass f (maxSendSizeBytes sb) (maxStorageSizeBytes sb) sz rest)"
      by auto
    have "drop_indexes (Suc i) (i # ds') rest' = drop_indexes (Suc i) ds' rest'"
      by (auto simp: drop_indexes_def intro!: arg_cong[of _ _ "map snd"] filter_cong dest: set_zip_leftD)
    with r show ?thesis unfolding step pass
      by (intro exI[of _ "[] # rest'"] exI[of _ "i # ds'"]) (auto simp: drop_indexes_Cons)
  qed
  note step = UpdateData_loop_step[OF Cons.prems, of f ds]
  show ?case
  proof (cases "f l")
    case None
    have "sb\<lparr>logs := pre @ l # rest, sb_size := sb_size sb\<rparr> = sb"
      using Cons.prems(1) by (cases sb) simp
    then have "UpdateData_loop f i sb ds =
        UpdateData_loop f (Suc i) (sb\<lparr>logs := pre @ l # rest, sb_size := sb_size sb\<rparr>) ds"
      using None step by (simp only: option.case)
    then show ?thesis by (rule keep) (simp add: None)
  next
    case (Some out)
    define sz1 where "sz1 = sb_size sb - int (length l)"
    show ?thesis
    proof (cases "out = [] \<or> int (length out) > maxSendSizeBytes sb \<or>
        int (length out) + sz1 > maxStorageSizeBytes sb")
      case True
      then show ?thesis by (intro cut[where sz = sz1]) (simp_all add: step Some sz1_def Let_def)
    next
      case False
      then show ?thesis
        by (intro keep[where x = out and sz = "sz1 + int (length out)"]) (simp_all add: step Some sz1_def Let_def)
    qed
  qed
qed

lemma UpdateData_eq_pass:
  "UpdateData f sb =
    (let (ls, sz) = update_pass f (maxSendSizeBytes sb) (maxStorageSizeBytes sb) (sb_size sb) (logs sb)
     in sb\<lparr>logs := ls, sb_size := sz\<rparr>)"
proof -
  obtain rest' ds' where r: "UpdateData_loop f 0 sb [] =
      (sb\<lparr>logs := rest', sb_size := snd (update_pass f (maxSendSizeBytes sb)
            (maxStorageSizeBytes sb) (sb_size sb) (logs sb))\<rparr>, ds')"
    "length rest' = length (logs sb)" "sorted_wrt (<) ds'" "\<forall>d \<in> set ds'. d < length (logs sb)"
    "drop_indexes 0 ds' rest' =
      fst (update_pass f (maxSendSizeBytes sb) (maxStorageSizeBytes sb) (sb_size sb) (logs sb))"
    using UpdateData_loop_pass[of sb "[]" "logs sb" 0 f "[]"] by auto
  have "UpdateData_delete 0 ds' rest' = drop_indexes 0 ds' rest'"
    using UpdateData_delete_prefix[of ds' 0 rest' "[]" 0] r by simp
  then show ?thesis using r by (simp add: UpdateData_def split: prod.splits)
qed

lemma update_pass_size:
  assumes "sz = k + bytes_in ls"
  shows "snd (update_pass f ms mx sz ls) = k + bytes_in (fst (update_pass f ms mx sz ls))"
  using assms
proof (induction ls arbitrary: sz k)
  case (Cons l ls)
  show ?case
  proof (cases "f l")
    case None
    then show ?thesis using Cons.IH[of sz "k + int (length l)"] Cons.prems by simp
  next
    case (Some out)
    then show ?thesis
      using Cons.IH[of "sz - int (length l)" k]
        Cons.IH[of "sz - int (length l) + int (length out)" "k + int (length out)"] Cons.prems
      by (simp add: Let_def)
  qed
qed simp

lemma update_pass_le:
  assumes "sz \<le> mx"
  shows "snd (update_pass f ms mx sz ls) \<le> mx"
  using assms
  by (induction ls arbitrary: sz) (auto simp: Let_def split: option.split)

lemma update_pass_nonempty:
  "[] \<notin> set ls \<Longrightarrow> [] \<notin> set (fst (update_pass f ms mx sz ls))"
  by (induction ls arbitrary: sz) (auto simp: Let_def split: option.split)

lemma sb_inv_UpdateData [inv_intros]: "sb_inv sb \<Longrightarrow> sb_inv (UpdateData f sb)"
  using update_pass_size[of "sb_size sb" 0 "logs sb"] update_pass_le[of "sb_size sb"]
    update_pass_nonempty[of "logs sb"]
  by (auto simp: sb_inv_def UpdateData_eq_pass split: prod.split) (metis fst_conv snd_conv)+

subsection \<open>Sends interleaved with writes\<close>

text \<open>
  The buffer with the payload that is on the network (\<open>inflight\<close>, present exactly while \<open>sendMutex\<close>
  is held) and what is remembered of the run: the bytes \<open>Write\<close> has appended, those of them appended since
  the last purge, the bytes the sender has accepted, how often \<open>Write\<close> has purged, and how many sends
  reported nothing removed although the sender accepted the payload.
\<close>

record sb_sys =
  buf :: SendBuffer
  inflight :: "(nat \<times> bytes) option"
  accepted :: bytes
  fresh :: bytes
  delivered :: bytes
  purges :: nat
  unremoved :: nat

datatype sb_event =
  Append bytes | Drop bytes | Purge bytes | Update "bytes \<Rightarrow> bytes option" | DeleteAll
  | SendBegin | SendFail | SendOk

definition oversize :: "bytes \<Rightarrow> bool" where
  "oversize inp \<longleftrightarrow> inp = [] \<or> int (length inp) > maxWriteBytes"

definition overflows :: "SendBuffer \<Rightarrow> bytes \<Rightarrow> bool" where
  "overflows sb inp \<longleftrightarrow> int (length inp) + sb_size sb > maxStorageSizeBytes sb"

inductive sb_step :: "sb_sys \<Rightarrow> sb_event \<Rightarrow> sb_sys \<Rightarrow> bool" where
  append: "\<not> oversize inp \<Longrightarrow> \<not> overflows (buf s) inp \<Longrightarrow> SendBuffer_Write (buf s) inp = Some (n, b) \<Longrightarrow>
    sb_step s (Append inp) (s\<lparr>buf := b, accepted := accepted s @ inp, fresh := fresh s @ inp\<rparr>)"
| dropped: "oversize inp \<Longrightarrow> SendBuffer_Write (buf s) inp = Some (n, b) \<Longrightarrow>
    sb_step s (Drop inp) (s\<lparr>buf := b\<rparr>)"
| purge: "\<not> oversize inp \<Longrightarrow> overflows (buf s) inp \<Longrightarrow> SendBuffer_Write (buf s) inp = Some (n, b) \<Longrightarrow>
    sb_step s (Purge inp) (s\<lparr>buf := b, fresh := [], purges := Suc (purges s)\<rparr>)"
| update: "sb_step s (Update f) (s\<lparr>buf := UpdateData f (buf s)\<rparr>)"
| delete_all: "sb_step s DeleteAll (s\<lparr>buf := DeleteAllData (buf s)\<rparr>)"
| send_begin: "inflight s = None \<Longrightarrow> copyLogs (buf s) (maxSendSizeBytes (buf s)) = (k, p) \<Longrightarrow> p \<noteq> [] \<Longrightarrow>
    sb_step s SendBegin (s\<lparr>inflight := Some (k, p)\<rparr>)"
| send_fail: "inflight s = Some kp \<Longrightarrow> sb_step s SendFail (s\<lparr>inflight := None\<rparr>)"
| send_ok: "inflight s = Some (k, p) \<Longrightarrow> sendAndPurge_finish k (buf s) = Some (n, b) \<Longrightarrow>
    sb_step s SendOk (s\<lparr>buf := b, inflight := None, delivered := delivered s @ p,
      unremoved := unremoved s + of_bool (n = 0)\<rparr>)"

inductive_cases sb_step_cases: "sb_step s ev s'"

inductive sb_run :: "sb_sys \<Rightarrow> sb_event list \<Rightarrow> sb_sys \<Rightarrow> bool" where
  none: "sb_run s [] s"
| more: "sb_run s evs s1 \<Longrightarrow> sb_step s1 ev s2 \<Longrightarrow> sb_run s (evs @ [ev]) s2"

text \<open>The same steps as a function, to run concrete histories.\<close>

fun sb_exec :: "sb_sys \<Rightarrow> sb_event \<Rightarrow> sb_sys option" where
  "sb_exec s (Append inp) =
     (if oversize inp \<or> overflows (buf s) inp then None
      else map_option (\<lambda>(n, b). s\<lparr>buf := b, accepted := accepted s @ inp, fresh := fresh s @ inp\<rparr>) (SendBuffer_Write (buf s) inp))"
| "sb_exec s (Drop inp) =
     (if oversize inp then map_option (\<lambda>(n, b). s\<lparr>buf := b\<rparr>) (SendBuffer_Write (buf s) inp) else None)"
| "sb_exec s (Purge inp) =
     (if \<not> oversize inp \<and> overflows (buf s) inp
      then map_option (\<lambda>(n, b). s\<lparr>buf := b, fresh := [], purges := Suc (purges s)\<rparr>) (SendBuffer_Write (buf s) inp)
      else None)"
| "sb_exec s (Update f) = Some (s\<lparr>buf := UpdateData f (buf s)\<rparr>)"
| "sb_exec s DeleteAll = Some (s\<lparr>buf := DeleteAllData (buf s)\<rparr>)"
| "sb_exec s SendBegin =
     (case inflight s of Some _ \<Rightarrow> None
      | None \<Rightarrow>
          (case copyLogs (buf s) (maxSendSizeBytes (buf s)) of (k, p) \<Rightarrow>
             if p = [] then None else Some (s\<lparr>inflight := Some (k, p)\<rparr>)))"
| "sb_exec s SendFail = (case inflight s of None \<Rightarrow> None | Some _ \<Rightarrow> Some (s\<lparr>inflight := None\<rparr>))"
| "sb_exec s SendOk =
     (case inflight s of None \<Rightarrow> None
      | Some (k, p) \<Rightarrow>
          map_option (\<lambda>(n, b). s\<lparr>buf := b, inflight := None, delivered := delivered s @ p,
              unremoved := unremoved s + of_bool (n = 0)\<rparr>)
            (sendAndPurge_finish k (buf s)))"

fun sb_exec_run :: "sb_sys \<Rightarrow> sb_event list \<Rightarrow> sb_sys option" where
  "sb_exec_run s [] = Some s"
| "sb_exec_run s (ev # evs) = (case sb_exec s ev of None \<Rightarrow> None | Some s1 \<Rightarrow> sb_exec_run s1 evs)"

lemma sb_exec_step: "sb_exec s ev = Some s' \<Longrightarrow> sb_step s ev s'"
  by (cases ev) (auto intro: sb_step.intros split: if_splits option.splits prod.splits)

lemma sb_exec_run_from:
  "sb_run s0 pre s \<Longrightarrow> sb_exec_run s evs = Some s' \<Longrightarrow> sb_run s0 (pre @ evs) s'"
proof (induction evs arbitrary: pre s)
  case (Cons ev evs)
  then obtain s1 where "sb_exec s ev = Some s1" "sb_exec_run s1 evs = Some s'"
    by (auto split: option.splits)
  with Cons.IH[of "pre @ [ev]" s1] Cons.prems(1) show ?case
    by (auto intro: sb_run.more sb_exec_step)
qed simp

lemma sb_exec_run_sound: "sb_exec_run s evs = Some s' \<Longrightarrow> sb_run s evs s'"
  using sb_exec_run_from[OF sb_run.none] by fastforce

definition sb_start :: "int \<Rightarrow> int \<Rightarrow> sb_sys" where
  "sb_start maxStore maxSend =
     \<lparr>buf = SendBuffer_New [WithMaxStorageSizeBytes maxStore, WithMaxSendSizeBytes maxSend],
      inflight = None, accepted = [], fresh = [], delivered = [], purges = 0, unremoved = 0\<rparr>"

lemma buf_sb_start [simp]:
  "logs (buf (sb_start mx ms)) = []" "logsJustPurged (buf (sb_start mx ms)) = False"
  "sb_size (buf (sb_start mx ms)) = 0" "maxStorageSizeBytes (buf (sb_start mx ms)) = mx"
  "maxSendSizeBytes (buf (sb_start mx ms)) = ms" "inflight (sb_start mx ms) = None"
  "accepted (sb_start mx ms) = []" "fresh (sb_start mx ms) = []" "delivered (sb_start mx ms) = []"
  "purges (sb_start mx ms) = 0" "unremoved (sb_start mx ms) = 0"
  by (simp_all add: sb_start_def SendBuffer_New_def WithMaxStorageSizeBytes_def WithMaxSendSizeBytes_def)

lemma sb_step_inv: "sb_step s ev s' \<Longrightarrow> sb_inv (buf s) \<Longrightarrow> sb_inv (buf s')"
  by (induction rule: sb_step.induct) (auto intro: inv_intros)

lemma sb_run_inv: "sb_run s evs s' \<Longrightarrow> sb_inv (buf s) \<Longrightarrow> sb_inv (buf s')"
  by (induction rule: sb_run.induct) (auto intro: sb_step_inv)

text \<open>
  What a run of writes and sends keeps true.  The bytes appended since the last purge are those removed after
  they were delivered, which are the end of what was delivered, followed by those still buffered.  While the
  purge flag is not set, the payload on the network is the front of the buffer.
\<close>

definition writes_and_sends :: "sb_event \<Rightarrow> bool" where
  "writes_and_sends ev = (case ev of Update _ \<Rightarrow> False | DeleteAll \<Rightarrow> False | _ \<Rightarrow> True)"

definition split_stream :: "sb_sys \<Rightarrow> bytes \<Rightarrow> bytes \<Rightarrow> bool" where
  "split_stream s old sent \<longleftrightarrow> delivered s = old @ sent \<and> fresh s = sent @ concat (logs (buf s)) \<and>
     (logsJustPurged (buf s) \<longrightarrow> sent = []) \<and> (purges s = 0 \<longrightarrow> old = [] \<and> fresh s = accepted s)"

definition stream_inv :: "sb_sys \<Rightarrow> bool" where
  "stream_inv s \<longleftrightarrow> 0 \<le> maxSendSizeBytes (buf s) \<and> (\<exists>old sent. split_stream s old sent) \<and>
     unremoved s + (if logsJustPurged (buf s) then 1 else 0) \<le> purges s \<and>
     (\<forall>k p. inflight s = Some (k, p) \<longrightarrow> 0 < k \<and>
        (logsJustPurged (buf s) \<or> k \<le> length (logs (buf s)) \<and> p = concat (take k (logs (buf s)))))"

lemma Write_append:
  "\<not> oversize inp \<Longrightarrow> \<not> overflows sb inp \<Longrightarrow> SendBuffer_Write sb inp = Some (n, b) \<Longrightarrow>
   b = sb\<lparr>logs := logs sb @ [inp], sb_size := sb_size sb + int (length inp)\<rparr>"
  by (auto simp: SendBuffer_Write_def oversize_def overflows_def split: if_splits)

lemma Write_oversize: "oversize inp \<Longrightarrow> SendBuffer_Write sb inp = Some (n, b) \<Longrightarrow> b = sb"
  by (auto simp: SendBuffer_Write_def oversize_def split: if_splits)

lemma Write_purge:
  "\<not> oversize inp \<Longrightarrow> overflows sb inp \<Longrightarrow> SendBuffer_Write sb inp = Some (n, b) \<Longrightarrow>
   logs b = [] \<and> logsJustPurged b \<and> maxSendSizeBytes b = maxSendSizeBytes sb \<and> maxStorageSizeBytes b = maxStorageSizeBytes sb"
  by (auto simp: SendBuffer_Write_def oversize_def overflows_def deleteLogs_def split: if_splits)

lemma finish_purged:
  "logsJustPurged sb \<Longrightarrow> sendAndPurge_finish k sb = Some (0, sb\<lparr>logsJustPurged := False\<rparr>)"
  by (simp add: sendAndPurge_finish_def)

lemma finish_removes:
  "\<not> logsJustPurged sb \<Longrightarrow> k \<le> length (logs sb) \<Longrightarrow> sendAndPurge_finish k sb =
     Some (k, sb\<lparr>logs := drop k (logs sb), sb_size := sb_size sb - bytes_in (take k (logs sb))\<rparr>)"
  by (simp add: sendAndPurge_finish_def deleteLogs_alt)

lemma SendOk_stream:
  assumes "stream_inv s" and "inflight s = Some (k, p)" and "sendAndPurge_finish k (buf s) = Some (n, b)"
  shows "stream_inv (s\<lparr>buf := b, inflight := None, delivered := delivered s @ p,
    unremoved := unremoved s + of_bool (n = 0)\<rparr>)"
proof -
  obtain old sent where sp: "split_stream s old sent" using assms(1) by (auto simp: stream_inv_def)
  show ?thesis
  proof (cases "logsJustPurged (buf s)")
    case True
    with sp assms have "split_stream (s\<lparr>buf := b, inflight := None, delivered := delivered s @ p,
      unremoved := unremoved s + of_bool (n = 0)\<rparr>) (delivered s @ p) []"
      by (auto simp: split_stream_def finish_purged stream_inv_def)
    with True assms show ?thesis by (auto simp: stream_inv_def finish_purged)
  next
    case False
    with assms have k: "0 < k" "k \<le> length (logs (buf s))" and p: "p = concat (take k (logs (buf s)))"
      by (auto simp: stream_inv_def)
    with False assms(3) have b: "n = k"
      "b = (buf s)\<lparr>logs := drop k (logs (buf s)), sb_size := sb_size (buf s) - bytes_in (take k (logs (buf s)))\<rparr>"
      by (auto simp: finish_removes)
    have "concat (logs (buf s)) = p @ concat (drop k (logs (buf s)))"
      unfolding p by (metis append_take_drop_id concat_append)
    with sp b False have "split_stream (s\<lparr>buf := b, inflight := None, delivered := delivered s @ p,
      unremoved := unremoved s + of_bool (n = 0)\<rparr>) old (sent @ p)"
      by (auto simp: split_stream_def)
    with False k b assms(1) show ?thesis by (auto simp: stream_inv_def)
  qed
qed

lemma step_stream:
  assumes "sb_step s ev s'" and "writes_and_sends ev" and "stream_inv s"
  shows "stream_inv s'"
  using assms
proof (induction rule: sb_step.induct)
  case (append inp s n b)
  from Write_append[OF append(1-3)] append(5) show ?case by (fastforce simp: stream_inv_def split_stream_def)
next
  case (dropped inp s n b)
  from Write_oversize[OF dropped(1,2)] dropped(4) show ?case by (simp add: stream_inv_def split_stream_def)
next
  case (purge inp s n b)
  from Write_purge[OF purge(1-3)] purge(5) show ?case by (auto simp: stream_inv_def split_stream_def)
next
  case (send_begin s k p)
  obtain m where m: "copyLogs (buf s) (maxSendSizeBytes (buf s)) = (m, concat (take m (logs (buf s))))"
    "fits (maxSendSizeBytes (buf s)) (logs (buf s)) m"
    using copyLogs_fits send_begin(5) unfolding stream_inv_def by metis
  with send_begin(2,3) have "k = m" "0 < m" "p = concat (take m (logs (buf s)))" by (auto intro: gr0I)
  with send_begin(5) m(2) show ?case by (auto simp: stream_inv_def split_stream_def fits_def)
next
  case (send_ok s k p n b)
  then show ?case by (intro SendOk_stream)
qed (auto simp: writes_and_sends_def stream_inv_def split_stream_def)

lemma run_stream:
  "sb_run s evs s' \<Longrightarrow> \<forall>ev \<in> set evs. writes_and_sends ev \<Longrightarrow> stream_inv s \<Longrightarrow> stream_inv s'"
  by (induction rule: sb_run.induct) (auto intro: step_stream)

lemma stream_inv_start: "0 \<le> maxSend \<Longrightarrow> stream_inv (sb_start maxStore maxSend)"
  by (simp add: stream_inv_def split_stream_def)

text \<open>The first step of a run, and that a payload on the network holds at least one log.\<close>

lemma sb_run_cons:
  "sb_run s evs s' \<Longrightarrow> evs = ev # rest \<Longrightarrow> \<exists>s0. sb_step s ev s0 \<and> sb_run s0 rest s'"
proof (induction arbitrary: rest rule: sb_run.induct)
  case (more s evs s1 ev' s2)
  show ?case
  proof (cases evs)
    case Nil
    with more.hyps more.prems show ?thesis by (auto elim: sb_run.cases intro: sb_run.none)
  next
    case (Cons a evs')
    with more show ?thesis by (auto intro: sb_run.more)
  qed
qed simp

lemma sb_run_first:
  assumes "sb_run s (ev # evs) s'"
  obtains s0 where "sb_step s ev s0" and "sb_run s0 evs s'"
  using sb_run_cons[OF assms refl] by blast

lemma copyLogs_loop_0: "copyLogs_loop m ls sz n w = (k, p) \<Longrightarrow> n \<le> k \<and> (k = n \<longrightarrow> p = w)"
  by (induction m ls sz n w rule: copyLogs_loop.induct) (auto split: if_splits)

lemma run_inflight_pos:
  assumes "sb_run (sb_start maxStore maxSend) evs s" and "inflight s = Some (k, p)"
  shows "0 < k"
proof -
  have "sb_run s0 evs s \<Longrightarrow> inflight s0 = None \<Longrightarrow> \<forall>k p. inflight s = Some (k, p) \<longrightarrow> 0 < k" for s0
  proof (induction rule: sb_run.induct)
    case (more s evs s1 ev s2)
    then show ?case
      by (auto elim!: sb_step_cases simp: copyLogs_def dest!: copyLogs_loop_0 intro: gr0I)
  qed simp
  with assms show ?thesis by simp
qed

subsection \<open>Sending when nothing runs in between\<close>

lemma concat_take_Nil:
  assumes "[] \<notin> set ls" and "n \<le> length ls"
  shows "concat (take n ls) = [] \<longleftrightarrow> n = 0"
  using assms by (cases n; cases ls) auto

lemma sendAndPurge_prefix:
  assumes "0 \<le> maxSendSizeBytes sb" and "sb_inv sb"
  obtains n where "fits (maxSendSizeBytes sb) (logs sb) n"
    and "sendAndPurge locked send sb =
      (if locked \<or> n = 0 then Some ((0, None), sb)
       else case send (concat (take n (logs sb))) of
         Some e \<Rightarrow> Some ((0, Some e), sb)
       | None \<Rightarrow>
           if logsJustPurged sb then Some ((0, None), sb\<lparr>logsJustPurged := False\<rparr>)
           else Some ((n, None),
             sb\<lparr>logs := drop n (logs sb), sb_size := sb_size sb - bytes_in (take n (logs sb))\<rparr>))"
proof -
  obtain n where n: "copyLogs sb (maxSendSizeBytes sb) = (n, concat (take n (logs sb)))"
    "fits (maxSendSizeBytes sb) (logs sb) n" by (rule copyLogs_fits[OF assms(1)])
  have le: "n \<le> length (logs sb)" using n(2) by (simp add: fits_def)
  have "concat (take n (logs sb)) = [] \<longleftrightarrow> n = 0"
    using concat_take_Nil[OF _ le] assms(2) by (simp add: sb_inv_def)
  with n(1) le show ?thesis
    by (intro that[OF n(2)])
      (simp add: sendAndPurge_def finish_purged finish_removes
        del: concat_eq_Nil_conv split: option.split)
qed

lemma fits_pos: "fits m ls n \<Longrightarrow> ls \<noteq> [] \<Longrightarrow> int (length (hd ls)) \<le> m \<Longrightarrow> 0 < n"
  by (cases ls; cases n) (auto simp: fits_def)

text \<open>
  Draining.  \<open>drain_stops\<close> says why a drain may end without an error and leave logs behind: a send found the
  mutex taken or the purge flag set, or the next log is too large to be sent.
\<close>

definition drain_stops :: "(nat \<Rightarrow> bool) \<Rightarrow> SendBuffer \<Rightarrow> SendBuffer \<Rightarrow> bool" where
  "drain_stops locked sb sb' \<longleftrightarrow> (\<exists>i. int i < maxDrainSends sb \<and> locked i) \<or> logsJustPurged sb \<or>
     int (length (hd (logs sb'))) > maxSendSizeBytes sb"

lemma Drain_loop_returns:
  assumes "sb_inv sb" and "0 \<le> maxSendSizeBytes sb"
  shows "\<exists>err sb'. Drain_loop locked send ctxErr i (int (length (logs sb))) sb = Some (err, sb') \<and> sb_inv sb' \<and>
    suffix (logs sb') (logs sb) \<and> (err = None \<longrightarrow> logs sb' = [] \<or> drain_stops locked sb sb')"
  using assms
proof (induction "length (logs sb)" arbitrary: sb i rule: less_induct)
  case less
  show ?case
  proof (cases "int i < maxDrainSends sb \<and> logs sb \<noteq> []")
    case False
    with less.prems show ?thesis by (subst Drain_loop.simps) auto
  next
    case go: True
    obtain n where n: "fits (maxSendSizeBytes sb) (logs sb) n" and snd: "sendAndPurge (locked i) (send i) sb =
        (if locked i \<or> n = 0 then Some ((0, None), sb)
         else case send i (concat (take n (logs sb))) of
           Some e \<Rightarrow> Some ((0, Some e), sb)
         | None \<Rightarrow>
             if logsJustPurged sb then Some ((0, None), sb\<lparr>logsJustPurged := False\<rparr>)
             else Some ((n, None), sb\<lparr>logs := drop n (logs sb), sb_size := sb_size sb - bytes_in (take n (logs sb))\<rparr>))"
      by (rule sendAndPurge_prefix[OF less.prems(2,1)])
    let ?sb = "sb\<lparr>logs := drop n (logs sb), sb_size := sb_size sb - bytes_in (take n (logs sb))\<rparr>"
    have le: "n \<le> length (logs sb)" using n by (simp add: fits_def)
    consider (none) "locked i \<or> n = 0"
      | (err) e where "\<not> locked i" "n \<noteq> 0" "send i (concat (take n (logs sb))) = Some e"
      | (flag) "\<not> locked i" "n \<noteq> 0" "send i (concat (take n (logs sb))) = None" "logsJustPurged sb"
      | (sent) "\<not> locked i" "n \<noteq> 0" "send i (concat (take n (logs sb))) = None" "\<not> logsJustPurged sb"
      by (cases "send i (concat (take n (logs sb)))") auto
    then show ?thesis
    proof cases
      case none
      then have "drain_stops locked sb sb"
        using go fits_pos[OF n] by (fastforce simp: drain_stops_def)
      with none go snd less.prems show ?thesis by (subst Drain_loop.simps) auto
    next
      case err
      with go snd less.prems show ?thesis by (subst Drain_loop.simps) auto
    next
      case flag
      have "sb_inv (sb\<lparr>logsJustPurged := False\<rparr>)" using less.prems(1) by (simp add: sb_inv_def)
      with flag go snd show ?thesis by (subst Drain_loop.simps) (auto simp: drain_stops_def)
    next
      case sent
      have inv: "sb_inv ?sb" using sb_inv_deleteLogs[OF less.prems(1), of n ?sb] le by (simp add: deleteLogs_alt)
      have suf: "suffix (logs ?sb) (logs sb)" by (simp add: suffix_drop)
      have "length (logs ?sb) < length (logs sb)" using sent go by simp
      from less.hyps[OF this inv, of "Suc i"] less.prems(2) obtain err sb' where
        r: "Drain_loop locked send ctxErr (Suc i) (int (length (logs ?sb))) ?sb = Some (err, sb')" "sb_inv sb'"
          "suffix (logs sb') (logs ?sb)" "err = None \<longrightarrow> logs sb' = [] \<or> drain_stops locked ?sb sb'" by auto
      have "suffix (logs sb') (logs sb)" using r(3) suf by (rule suffix_order.trans)
      moreover have "drain_stops locked ?sb sb' = drain_stops locked sb sb'" by (simp add: drain_stops_def)
      moreover have "Drain_loop locked send ctxErr i (int (length (logs sb))) sb =
          (if n = length (logs sb) then Some (None, ?sb)
           else case ctxErr i of Some e \<Rightarrow> Some (Some e, ?sb)
              | None \<Rightarrow> Drain_loop locked send ctxErr (Suc i) (int (length (logs ?sb))) ?sb)"
        using sent le go snd by (subst Drain_loop.simps) (auto simp: of_nat_diff split: option.split)
      ultimately show ?thesis using r inv suf by (auto split: option.split)
    qed
  qed
qed

lemma Drain_loop_ok:
  assumes "sb_inv sb" and "0 \<le> maxSendSizeBytes sb" and "\<not> logsJustPurged sb"
    and "\<forall>l \<in> set (logs sb). int (length l) \<le> maxSendSizeBytes sb"
    and "\<And>i. \<not> locked i" and "\<And>i p. send i p = None" and "\<And>i. ctxErr i = None"
    and "0 < maxDrainSends sb - int i" and "int (length (logs sb)) \<le> maxDrainSends sb - int i"
  shows "\<exists>sb'. Drain_loop locked send ctxErr i (int (length (logs sb))) sb = Some (None, sb') \<and> logs sb' = []"
  using assms(1-4,8,9)
proof (induction "length (logs sb)" arbitrary: sb i rule: less_induct)
  case less
  show ?case
  proof (cases "logs sb = []")
    case True
    with less.prems show ?thesis by (subst Drain_loop.simps) simp
  next
    case False
    obtain n where n: "fits (maxSendSizeBytes sb) (logs sb) n"
      and snd: "n \<noteq> 0 \<longrightarrow> sendAndPurge (locked i) (send i) sb = Some ((n, None),
        sb\<lparr>logs := drop n (logs sb), sb_size := sb_size sb - bytes_in (take n (logs sb))\<rparr>)"
      by (rule sendAndPurge_prefix[OF less.prems(2,1), of "locked i" "send i"]) (use assms(5,6) less.prems(3) in simp)
    let ?sb = "sb\<lparr>logs := drop n (logs sb), sb_size := sb_size sb - bytes_in (take n (logs sb))\<rparr>"
    have pos: "0 < n" using fits_pos[OF n False] less.prems(4) False by simp
    have le: "n \<le> length (logs sb)" using n by (simp add: fits_def)
    have inv: "sb_inv ?sb" using sb_inv_deleteLogs[OF less.prems(1), of n ?sb] le by (simp add: deleteLogs_alt)
    have unfold: "Drain_loop locked send ctxErr i (int (length (logs sb))) sb =
        (if n = length (logs sb) then Some (None, ?sb)
         else Drain_loop locked send ctxErr (Suc i) (int (length (logs ?sb))) ?sb)"
      using pos le less.prems(5) False snd assms(7)
      by (subst Drain_loop.simps) (auto simp: of_nat_diff)
    show ?thesis
    proof (cases "n = length (logs sb)")
      case more: False
      have "length (logs ?sb) < length (logs sb)" using pos False by simp
      from less.hyps[OF this inv, of "Suc i"] less.prems(2-6) pos le more unfold show ?thesis
        by (auto dest: in_set_dropD)
    qed (use unfold in simp)
  qed
qed

subsection \<open>Properties\<close>

text \<open>C18: whatever sequence of writes, purges, updates, deletions and sends runs, in any interleaving,
  the recorded size is the number of bytes buffered, stays within the configured storage, and no
  empty log is buffered.\<close>

theorem sendbuffer_size_invariant:
  assumes "sb_run (sb_start maxStore maxSend) evs s" and "0 \<le> maxStore"
  shows "sb_size (buf s) = bytes_in (logs (buf s)) \<and>
    bytes_in (logs (buf s)) \<le> maxStorageSizeBytes (buf s) \<and> [] \<notin> set (logs (buf s))"
proof -
  have "sb_inv (buf (sb_start maxStore maxSend))" using assms(2) by (simp add: sb_inv_def)
  with assms(1) have "sb_inv (buf s)" by (rule sb_run_inv)
  then show ?thesis by (simp add: sb_inv_def)
qed

text \<open>A run used as witness: two logs are written, the first send is answered after the second
  write.\<close>

lemmas sb_eval = sb_start_def SendBuffer_New_def WithMaxStorageSizeBytes_def WithMaxSendSizeBytes_def
  oversize_def overflows_def SendBuffer_Write_def maxWriteBytes_def copyLogs_def
  sendAndPurge_finish_def deleteLogs_def DeleteAllData_def

lemma sb_run_example:
  "\<exists>s. sb_run (sb_start 100 10) [Append [1], SendBegin, Append [2], SendOk] s \<and>
     delivered s = [1] \<and> logs (buf s) = [[2]]"
proof -
  obtain s where "sb_exec_run (sb_start 100 10) [Append [1], SendBegin, Append [2], SendOk] = Some s"
    "delivered s = [1]" "logs (buf s) = [[2]]"
    by (simp add: sb_eval)
  then show ?thesis using sb_exec_run_sound by blast
qed

theorem sendbuffer_size_invariant_witness:
  "\<exists>s. sb_run (sb_start 100 10) [Append [1], SendBegin, Append [2], SendOk] s \<and>
     sb_size (buf s) = bytes_in (logs (buf s)) \<and> bytes_in (logs (buf s)) \<le> maxStorageSizeBytes (buf s)"
proof -
  obtain s where s: "sb_run (sb_start 100 10) [Append [1], SendBegin, Append [2], SendOk] s"
    using sb_run_example by blast
  with sendbuffer_size_invariant[OF s] show ?thesis by auto
qed

text \<open>C1: in every run of writes and sends, writes that overflow the storage and purge it included, with sends
  failing or succeeding while writes go on: the bytes appended since the last purge are, in order, those
  delivered last and removed, followed by those still buffered, so none of them is lost, skipped or
  removed unsent.  Without a purge everything appended is delivered exactly once and in order or still
  buffered.  The sends after which a delivered payload stays buffered are at most as many as the purges, and
  the end of a send never panics.  (Rewrites by \<open>UpdateData\<close> and \<open>DeleteAllData\<close> are not part of these runs.)\<close>

theorem sendbuffer_in_order_exactly_once:
  assumes "sb_run (sb_start maxStore maxSend) evs s" and "0 \<le> maxSend" and "\<forall>ev \<in> set evs. writes_and_sends ev"
  shows "(\<exists>old sent. delivered s = old @ sent \<and> fresh s = sent @ concat (logs (buf s)) \<and>
      (purges s = 0 \<longrightarrow> old = [] \<and> fresh s = accepted s)) \<and>
    unremoved s \<le> purges s \<and> (\<forall>k p. inflight s = Some (k, p) \<longrightarrow> sendAndPurge_finish k (buf s) \<noteq> None)"
proof -
  have inv: "stream_inv s" using run_stream[OF assms(1,3) stream_inv_start[OF assms(2)]] .
  then have "sendAndPurge_finish k (buf s) \<noteq> None" if "inflight s = Some (k, p)" for k p
    using that finish_purged finish_removes by (cases "logsJustPurged (buf s)") (auto simp: stream_inv_def)
  with inv show ?thesis unfolding stream_inv_def split_stream_def by fastforce
qed

text \<open>The storage overflows while the first payload is on the network; what is written next is kept until it is sent.\<close>

theorem sendbuffer_in_order_exactly_once_witness:
  "\<exists>s. sb_run (sb_start 4 10) [Append [1, 2, 3], SendBegin, Purge [4, 5], Append [6], SendOk, SendBegin, SendOk, Append [7]] s \<and>
     delivered s = [1, 2, 3, 6] \<and> logs (buf s) = [[7]] \<and>
     (\<exists>old sent. delivered s = old @ sent \<and> [6, 7] = sent @ concat (logs (buf s)))"
proof -
  let ?evs = "[Append [1, 2, 3], SendBegin, Purge [4, 5], Append [6], SendOk, SendBegin, SendOk, Append [7]]"
  obtain s where s: "sb_exec_run (sb_start 4 10) ?evs = Some s" "delivered s = [1, 2, 3, 6]" "logs (buf s) = [[7]]"
    "fresh s = [6, 7]"
    by (simp add: sb_eval)
  have "\<forall>ev \<in> set ?evs. writes_and_sends ev" by (simp add: writes_and_sends_def)
  with sendbuffer_in_order_exactly_once[OF sb_exec_run_sound[OF s(1)]] s sb_exec_run_sound[OF s(1)] show ?thesis by auto
qed

text \<open>C19: a send ships the longest prefix of the buffered logs that fits the send size, as one payload
  in order; nothing is sent while another send holds the mutex or when no log fits, a refused payload changes
  nothing, and an accepted one removes exactly the logs it held, unless the purge flag is set: then the
  logs stay, nothing is reported as sent, and the flag is reset.\<close>

theorem sendAndPurge_longest_prefix:
  assumes "0 \<le> maxSendSizeBytes sb" and "sb_inv sb"
  shows "\<exists>n. fits (maxSendSizeBytes sb) (logs sb) n \<and> sendAndPurge locked send sb =
      (if locked \<or> n = 0 then Some ((0, None), sb)
       else case send (concat (take n (logs sb))) of
         Some e \<Rightarrow> Some ((0, Some e), sb)
       | None \<Rightarrow>
           if logsJustPurged sb then Some ((0, None), sb\<lparr>logsJustPurged := False\<rparr>)
           else Some ((n, None),
             sb\<lparr>logs := drop n (logs sb), sb_size := sb_size sb - bytes_in (take n (logs sb))\<rparr>))"
  by (rule sendAndPurge_prefix[OF assms, of locked send]) blast

theorem sendAndPurge_longest_prefix_witness:
  "\<exists>sb'. sendAndPurge False (\<lambda>p. None)
      ((SendBuffer_New [WithMaxSendSizeBytes 2])\<lparr>logs := [[1], [2], [3]], sb_size := 3\<rparr>) =
        Some ((2, None), sb') \<and> logs sb' = [[3]]"
proof -
  let ?sb = "(SendBuffer_New [WithMaxSendSizeBytes 2])\<lparr>logs := [[1], [2], [3]], sb_size := 3\<rparr>"
  have ms: "maxSendSizeBytes ?sb = 2" "\<not> logsJustPurged ?sb" by (simp_all add: SendBuffer_New_def WithMaxSendSizeBytes_def)
  have sb: "0 \<le> maxSendSizeBytes ?sb" "sb_inv ?sb"
    by (simp_all add: SendBuffer_New_def WithMaxSendSizeBytes_def sb_inv_def defaultMaxSizeBytes_def)
  from sendAndPurge_longest_prefix[OF sb, of False "\<lambda>p. None"] obtain n where
    n: "fits 2 [[1], [2], [3]] n" and eq: "sendAndPurge False (\<lambda>p. None) ?sb =
      (if n = 0 then Some ((0, None), ?sb) else Some ((n, None),
         ?sb\<lparr>logs := drop n [[1], [2], [3]], sb_size := 3 - bytes_in (take n [[1], [2], [3]])\<rparr>))"
    using ms(2) unfolding ms(1) by auto
  have "n = 2" using n by (auto simp: fits_def take_Cons split: nat.splits)
  with eq show ?thesis by simp
qed

text \<open>C20: \<open>UpdateData\<close>, which rewrites logs in place and then deletes the marked indexes one by one with
  a shift, is the single left-to-right pass that keeps a log whose update fails and otherwise keeps
  the updated log when it is non-empty, can be sent, and fits the storage at that point.\<close>

theorem UpdateData_is_one_pass:
  "UpdateData f sb =
    (let (ls, sz) = update_pass f (maxSendSizeBytes sb) (maxStorageSizeBytes sb) (sb_size sb) (logs sb)
     in sb\<lparr>logs := ls, sb_size := sz\<rparr>)"
  by (rule UpdateData_eq_pass)

text \<open>C21: draining always returns and never panics, whatever the sender and the context do; what is left is the
  end of what was buffered.  When it returns without an error and logs are left, then a send found the mutex taken
  or the purge flag was set or the next log is larger than a send may be; and it empties the
  buffer without an error when none of these is the case, the sender accepts, the context stays open, and
  there are at most as many logs as sends allowed.\<close>

theorem Drain_empties_or_reports:
  assumes "sb_inv sb" and "0 \<le> maxSendSizeBytes sb"
  shows "\<exists>err sb'. SendBuffer_Drain locked send ctxErr sb = Some (err, sb') \<and> sb_inv sb' \<and>
    suffix (logs sb') (logs sb) \<and>
    (err = None \<longrightarrow> logs sb' = [] \<or> (\<exists>i. int i < maxDrainSends sb \<and> locked i) \<or> logsJustPurged sb \<or>
       int (length (hd (logs sb'))) > maxSendSizeBytes sb) \<and>
    ((\<forall>i. \<not> locked i) \<and> \<not> logsJustPurged sb \<and> (\<forall>l \<in> set (logs sb). int (length l) \<le> maxSendSizeBytes sb) \<and>
     (\<forall>i p. send i p = None) \<and> (\<forall>i. ctxErr i = None) \<and> 0 < maxDrainSends sb \<and> int (length (logs sb)) \<le> maxDrainSends sb
       \<longrightarrow> err = None \<and> logs sb' = [])"
proof -
  obtain err sb' where r: "SendBuffer_Drain locked send ctxErr sb = Some (err, sb')" "sb_inv sb'"
    "suffix (logs sb') (logs sb)" "err = None \<longrightarrow> logs sb' = [] \<or> drain_stops locked sb sb'"
    using Drain_loop_returns[OF assms] unfolding SendBuffer_Drain_def by blast
  moreover have "err = None \<and> logs sb' = []"
    if "\<forall>i. \<not> locked i" "\<not> logsJustPurged sb" "\<forall>l \<in> set (logs sb). int (length l) \<le> maxSendSizeBytes sb"
      "\<forall>i p. send i p = None" "\<forall>i. ctxErr i = None" "0 < maxDrainSends sb" "int (length (logs sb)) \<le> maxDrainSends sb"
    using Drain_loop_ok[OF assms that(2,3), of locked send ctxErr 0] that r(1) by (auto simp: SendBuffer_Drain_def)
  ultimately show ?thesis unfolding drain_stops_def by (intro exI[of _ err] exI[of _ sb']) blast
qed

theorem Drain_empties_or_reports_witness:
  "\<exists>err sb'. SendBuffer_Drain (\<lambda>_. False) (\<lambda>_ _. None) (\<lambda>_. None)
      ((SendBuffer_New [WithMaxSendSizeBytes 1])\<lparr>logs := [[1], [2]], sb_size := 2\<rparr>) = Some (err, sb') \<and>
    err = None \<and> logs sb' = []"
proof -
  let ?sb = "(SendBuffer_New [WithMaxSendSizeBytes 1])\<lparr>logs := [[1], [2]], sb_size := 2\<rparr>"
  have sb: "sb_inv ?sb" "0 \<le> maxSendSizeBytes ?sb" "\<not> logsJustPurged ?sb"
    "\<forall>l \<in> set (logs ?sb). int (length l) \<le> maxSendSizeBytes ?sb" "0 < maxDrainSends ?sb"
    "int (length (logs ?sb)) \<le> maxDrainSends ?sb"
    by (simp_all add: SendBuffer_New_def WithMaxSendSizeBytes_def sb_inv_def defaultMaxSizeBytes_def
        defaultMaxDrainSends_def)
  from Drain_empties_or_reports[OF sb(1,2), of "\<lambda>_. False" "\<lambda>_ _. None" "\<lambda>_. None"] sb(3-6) show ?thesis by auto
qed

subsection \<open>Where the purge bookkeeping goes wrong\<close>

lemma SendBegin_any:
  assumes "inflight s = None" and "0 \<le> maxSendSizeBytes (buf s)" and "logs (buf s) = l # ls" and "l \<noteq> []"
    and "int (length l) \<le> maxSendSizeBytes (buf s)"
  obtains k p where "0 < k" "k \<le> length (logs (buf s))" "p = concat (take k (logs (buf s)))" "p \<noteq> []"
    "copyLogs (buf s) (maxSendSizeBytes (buf s)) = (k, p)"
proof -
  obtain k where k: "copyLogs (buf s) (maxSendSizeBytes (buf s)) = (k, concat (take k (logs (buf s))))"
    "fits (maxSendSizeBytes (buf s)) (logs (buf s)) k" by (rule copyLogs_fits[OF assms(2)])
  have "0 < k" using fits_pos[OF k(2)] assms(3,5) by simp
  then have "concat (take k (logs (buf s))) \<noteq> []" using assms(3,4) by (cases k) auto
  with \<open>0 < k\<close> k show ?thesis by (intro that[of k]) (simp_all add: fits_def)
qed

text \<open>What appending logs to a buffer does to the run.\<close>

lemma appends:
  assumes "sb_run s evs s'" and "evs = map Append ls"
  shows "logs (buf s') = logs (buf s) @ ls \<and> logsJustPurged (buf s') = logsJustPurged (buf s) \<and> inflight s' = inflight s \<and>
    delivered s' = delivered s \<and> maxSendSizeBytes (buf s') = maxSendSizeBytes (buf s) \<and> [] \<notin> set ls"
  using assms
proof (induction arbitrary: ls rule: sb_run.induct)
  case (more s evs s1 ev s2)
  then obtain ls1 l where ls: "ls = ls1 @ [l]" "evs = map Append ls1" "ev = Append l"
    by (auto simp: append_eq_map_conv)
  from more.hyps(2)[unfolded ls(3)] obtain n b where st: "\<not> oversize l" "\<not> overflows (buf s1) l"
    "SendBuffer_Write (buf s1) l = Some (n, b)" "s2 = s1\<lparr>buf := b, accepted := accepted s1 @ l, fresh := fresh s1 @ l\<rparr>"
    by (auto elim: sb_step_cases)
  with more.IH[OF ls(2)] ls(1) Write_append[OF st(1-3)] show ?case by (auto simp: oversize_def)
qed simp

text \<open>C22: \<open>Write\<close> sets \<open>logsJustPurged\<close> whenever it purges, also when no send is on the network.  In every state
  with no send on the network, when a write purges and logs are written after it, of which the first can be
  sent, the next two sends that succeed deliver the same payload: the first one does not remove it.\<close>

theorem purge_without_send_delivers_twice:
  assumes "inflight s = None" and "0 \<le> maxSendSizeBytes (buf s)" and "sb_run s (Purge inp # map Append (l # ls)) s1"
    and "int (length l) \<le> maxSendSizeBytes (buf s)"
  shows "\<exists>p s2. p \<noteq> [] \<and> prefix p (concat (l # ls)) \<and> sb_run s1 [SendBegin, SendOk, SendBegin, SendOk] s2 \<and>
    delivered s2 = delivered s @ p @ p"
proof -
  obtain s0 where s0: "sb_step s (Purge inp) s0" "sb_run s0 (map Append (l # ls)) s1"
    using assms(3) by (rule sb_run_first)
  obtain b where b: "buf s0 = b" "logs b = []" "logsJustPurged b" "maxSendSizeBytes b = maxSendSizeBytes (buf s)"
    "inflight s0 = inflight s" "delivered s0 = delivered s"
    using s0(1) by (auto elim!: sb_step_cases dest!: Write_purge)
  note ap = appends[OF s0(2) refl]
  have l: "logs (buf s1) = l # ls" "l \<noteq> []" "inflight s1 = None" "logsJustPurged (buf s1)" "delivered s1 = delivered s"
    "maxSendSizeBytes (buf s1) = maxSendSizeBytes (buf s)"
    using ap b assms(1) by auto
  obtain k p where k: "0 < k" "k \<le> length (logs (buf s1))" "p = concat (take k (logs (buf s1)))" "p \<noteq> []"
    "copyLogs (buf s1) (maxSendSizeBytes (buf s1)) = (k, p)"
    by (rule SendBegin_any[OF l(3) _ l(1,2)]) (use l(6) assms(2,4) in simp_all)
  have k2: "copyLogs (buf s1\<lparr>logsJustPurged := False\<rparr>) (maxSendSizeBytes (buf s1)) = (k, p)"
    using k(5) by (simp add: copyLogs_def)
  obtain s2 where "sb_exec_run s1 [SendBegin, SendOk, SendBegin, SendOk] = Some s2" "delivered s2 = delivered s @ p @ p"
    using k k2 l by (simp add: finish_purged finish_removes)
  moreover have "prefix p (concat (l # ls))"
    unfolding k(3) l(1) by (metis append_take_drop_id concat_append prefixI)
  ultimately show ?thesis using k(4) sb_exec_run_sound by blast
qed

theorem purge_without_send_delivers_twice_witness:
  "\<exists>p s1 s2. p \<noteq> [] \<and> prefix p [7] \<and> sb_run (sb_start 4 10) [Append [1, 2, 3], Purge [4, 5, 6], Append [7]] s1 \<and>
     sb_run s1 [SendBegin, SendOk, SendBegin, SendOk] s2 \<and> delivered s2 = p @ p"
proof -
  obtain s where s: "sb_exec_run (sb_start 4 10) [Append [1, 2, 3]] = Some s" "inflight s = None"
    "maxSendSizeBytes (buf s) = 10" "delivered s = []" by (simp add: sb_eval)
  moreover obtain s1 where s1: "sb_exec_run s (Purge [4, 5, 6] # map Append [[7]]) = Some s1"
    using s(1) by (auto simp: sb_eval)
  moreover have "sb_run (sb_start 4 10) ([Append [1, 2, 3]] @ Purge [4, 5, 6] # map Append [[7]]) s1"
    by (rule sb_exec_run_from[OF sb_exec_run_sound[OF s(1)] s1])
  ultimately show ?thesis
    using purge_without_send_delivers_twice[OF s(2) _ sb_exec_run_sound[OF s1]] by auto
qed

text \<open>C23: \<open>DeleteAllData\<close> empties the logs without setting \<open>logsJustPurged\<close>.  When it runs while a payload of some
  number of logs is on the network and the flag is not set, the end of that send panics if fewer logs than
  that were written since, and otherwise removes that many of the new logs, which were never sent.\<close>

theorem delete_all_during_send_panics:
  assumes "sb_run (sb_start maxStore maxSend) evs s" and "inflight s = Some (k, p)" and "\<not> logsJustPurged (buf s)"
    and "sb_run s (DeleteAll # map Append ls) s'"
  shows "0 < k \<and> inflight s' = Some (k, p) \<and> delivered s' = delivered s \<and> logs (buf s') = ls \<and>
    (if length ls < k then sendAndPurge_finish k (buf s') = None
     else \<exists>b. sendAndPurge_finish k (buf s') = Some (k, b) \<and> logs b = drop k ls)"
proof -
  obtain s0 where s0: "sb_step s DeleteAll s0" "sb_run s0 (map Append ls) s'"
    using assms(4) by (rule sb_run_first)
  have "s0 = s\<lparr>buf := DeleteAllData (buf s)\<rparr>" using s0(1) by (auto elim: sb_step_cases)
  with appends[OF s0(2) refl] assms(2,3) have s': "inflight s' = Some (k, p)" "delivered s' = delivered s"
    "logs (buf s') = ls" "\<not> logsJustPurged (buf s')"
    by (auto simp: DeleteAllData_def)
  moreover have "0 < k" using assms(1,2) by (rule run_inflight_pos)
  moreover have "length ls < k \<Longrightarrow> sendAndPurge_finish k (buf s') = None"
    using s' by (simp add: sendAndPurge_finish_def deleteLogs_def)
  ultimately show ?thesis by (simp add: finish_removes)
qed

theorem delete_all_during_send_panics_witness:
  "\<exists>s'. sb_run (sb_start 100 10) [Append [1], Append [2], SendBegin, DeleteAll, Append [3]] s' \<and>
     inflight s' = Some (2, [1, 2]) \<and> sendAndPurge_finish 2 (buf s') = None"
proof -
  let ?pre = "[Append [1], Append [2], SendBegin]"
  obtain s where s: "sb_exec_run (sb_start 100 10) ?pre = Some s" "inflight s = Some (2, [1, 2])" "\<not> logsJustPurged (buf s)"
    by (simp add: sb_eval)
  moreover obtain s' where s': "sb_exec_run s (DeleteAll # map Append [[3]]) = Some s'"
    using s(1) by (auto simp: sb_eval)
  moreover have "sb_run (sb_start 100 10) (?pre @ DeleteAll # map Append [[3]]) s'"
    by (rule sb_exec_run_from[OF sb_exec_run_sound[OF s(1)] s'])
  ultimately show ?thesis
    using delete_all_during_send_panics[OF sb_exec_run_sound[OF s(1)] s(2,3) sb_exec_run_sound[OF s']] by auto
qed

end
