(* ===== verification/Go_Strings.thy ===== *)
theory Go_Strings
  imports Launcher_Prelude
begin

text \<open>
  The functions of Go's \<open>strings\<close>, \<open>strconv\<close> and \<open>time\<close> packages that the components call, on byte
  strings: prefixes and suffixes, decimal printing and parsing with the 64-bit range checks, and
  \<open>time.ParseDuration\<close>.  Case mapping and white space are the ASCII ones.
\<close>

subsection \<open>\<open>strings\<close>\<close>

definition HasPrefix :: "string \<Rightarrow> string \<Rightarrow> bool" where
  "HasPrefix s p = (take (length p) s = p)"

definition HasSuffix :: "string \<Rightarrow> string \<Rightarrow> bool" where
  "HasSuffix s p = (length p \<le> length s \<and> drop (length s - length p) s = p)"

definition TrimPrefix :: "string \<Rightarrow> string \<Rightarrow> string" where
  "TrimPrefix s p = (if HasPrefix s p then drop (length p) s else s)"

definition TrimSuffix :: "string \<Rightarrow> string \<Rightarrow> string" where
  "TrimSuffix s p = (if HasSuffix s p then take (length s - length p) s else s)"

fun Contains :: "string \<Rightarrow> string \<Rightarrow> bool" where
  "Contains [] p = (p = [])"
| "Contains (c # s) p = (HasPrefix (c # s) p \<or> Contains s p)"

text \<open>\<open>strings.Cut(s, sep)\<close> for a non-empty separator.\<close>

fun Cut :: "string \<Rightarrow> string \<Rightarrow> (string \<times> string) option" where
  "Cut [] sep = None"
| "Cut (c # s) sep =
     (if HasPrefix (c # s) sep then Some ([], drop (length sep) (c # s))
      else map_option (apfst ((#) c)) (Cut s sep))"

text \<open>\<open>strings.SplitN(s, sep, 2)\<close> for a non-empty separator.\<close>

definition SplitN2 :: "string \<Rightarrow> string \<Rightarrow> string list" where
  "SplitN2 s sep = (case Cut s sep of None \<Rightarrow> [s] | Some (a, b) \<Rightarrow> [a, b])"

definition lower_char :: "char \<Rightarrow> char" where
  "lower_char c = (let n = (of_char c :: nat) in if 65 \<le> n \<and> n \<le> 90 then char_of (n + 32) else c)"

definition ToLower :: "string \<Rightarrow> string" where
  "ToLower s = map lower_char s"

definition is_space :: "char \<Rightarrow> bool" where
  "is_space c = ((of_char c :: nat) \<in> {9, 10, 11, 12, 13, 32})"

definition TrimSpace :: "string \<Rightarrow> string" where
  "TrimSpace s = rev (dropWhile is_space (rev (dropWhile is_space s)))"

text \<open>\<open>strings.ReplaceAll(s, old, new)\<close> for a non-empty \<open>old\<close>.\<close>

function ReplaceAll :: "string \<Rightarrow> string \<Rightarrow> string \<Rightarrow> string" where
  "ReplaceAll s old new =
     (if s = [] \<or> old = [] then s
      else if HasPrefix s old then new @ ReplaceAll (drop (length old) s) old new
      else hd s # ReplaceAll (tl s) old new)"
  by pat_completeness auto
termination
  by (relation "measure (\<lambda>(s, _, _). length s)") auto

declare ReplaceAll.simps [simp del]

lemma HasPrefix_append [simp]: "HasPrefix (p @ s) p"
  by (simp add: HasPrefix_def)

lemma HasPrefix_iff: "HasPrefix s p \<longleftrightarrow> (\<exists>r. s = p @ r)"
proof
  assume "HasPrefix s p"
  then have "s = p @ drop (length p) s"
    using append_take_drop_id[of "length p" s] by (simp add: HasPrefix_def)
  then show "\<exists>r. s = p @ r" ..
qed auto

lemma HasPrefix_Nil [simp]: "HasPrefix s []"
  by (simp add: HasPrefix_def)

lemma HasSuffix_append [simp]: "HasSuffix (s @ p) p"
  by (simp add: HasSuffix_def)

lemma HasSuffix_iff: "HasSuffix s p \<longleftrightarrow> (\<exists>r. s = r @ p)"
proof
  assume "HasSuffix s p"
  then have "s = take (length s - length p) s @ p"
    using append_take_drop_id[of "length s - length p" s] by (simp add: HasSuffix_def)
  then show "\<exists>r. s = r @ p" ..
qed auto

lemma HasSuffix_Nil [simp]: "HasSuffix s []"
  by (simp add: HasSuffix_def)

lemma TrimPrefix_append [simp]: "TrimPrefix (p @ s) p = s"
  by (simp add: TrimPrefix_def)

lemma TrimSuffix_append [simp]: "TrimSuffix (s @ p) p = s"
  by (simp add: TrimSuffix_def)

lemma Contains_iff: "Contains s p \<longleftrightarrow> (\<exists>a b. s = a @ p @ b)"
proof (induction s)
  case (Cons c s)
  show ?case
  proof
    assume "Contains (c # s) p"
    then show "\<exists>a b. c # s = a @ p @ b"
    proof (cases "HasPrefix (c # s) p")
      case True
      then obtain b where "c # s = [] @ p @ b" by (auto simp: HasPrefix_iff)
      then show ?thesis by blast
    next
      case False
      with \<open>Contains (c # s) p\<close> Cons obtain a b where "s = a @ p @ b" by auto
      then have "c # s = (c # a) @ p @ b" by simp
      then show ?thesis by blast
    qed
  next
    assume "\<exists>a b. c # s = a @ p @ b"
    then obtain a b where ab: "c # s = a @ p @ b" by blast
    then show "Contains (c # s) p"
    proof (cases a)
      case Nil
      with ab have "HasPrefix (c # s) p" by (auto simp: HasPrefix_iff)
      then show ?thesis by simp
    next
      case (Cons x a')
      with ab have "s = a' @ p @ b" by simp
      with Cons.IH show ?thesis by auto
    qed
  qed
qed auto

lemma Cut_Some: "Cut s sep = Some (a, b) \<Longrightarrow> s = a @ sep @ b"
proof (induction s arbitrary: a)
  case (Cons c s)
  show ?case
  proof (cases "HasPrefix (c # s) sep")
    case True
    with Cons.prems show ?thesis by (auto simp: HasPrefix_iff)
  next
    case False
    with Cons show ?thesis by auto
  qed
qed simp

subsection \<open>Decimal integers\<close>

definition is_digit :: "char \<Rightarrow> bool" where
  "is_digit c = (48 \<le> (of_char c :: nat) \<and> (of_char c :: nat) \<le> 57)"

definition digit_val :: "char \<Rightarrow> nat" where
  "digit_val c = of_char c - 48"

definition digit_char :: "nat \<Rightarrow> char" where
  "digit_char n = char_of (48 + n)"

fun nat_digits :: "nat \<Rightarrow> string" where
  "nat_digits n = (if n < 10 then [digit_char n] else nat_digits (n div 10) @ [digit_char (n mod 10)])"

declare nat_digits.simps [simp del]

text \<open>\<open>strconv.FormatInt(i, 10)\<close> and \<open>strconv.Itoa\<close>.\<close>

definition FormatInt :: "int \<Rightarrow> string" where
  "FormatInt i = (if i < 0 then CHR ''-'' # nat_digits (nat (- i)) else nat_digits (nat i))"

definition digits_val :: "string \<Rightarrow> nat" where
  "digits_val s = foldl (\<lambda>n c. 10 * n + digit_val c) 0 s"

text \<open>\<open>strconv.ParseUint(s, 10, 64)\<close> before its range check.\<close>

definition parse_digits :: "string \<Rightarrow> nat option" where
  "parse_digits s = (if s \<noteq> [] \<and> list_all is_digit s then Some (digits_val s) else None)"

text \<open>\<open>strconv.ParseInt(s, 10, 64)\<close>, and \<open>strconv.Atoi\<close> where \<open>int\<close> has 64 bits; errors are \<open>None\<close>.\<close>

definition ParseInt :: "string \<Rightarrow> int option" where
  "ParseInt s =
     (case s of
        [] \<Rightarrow> None
      | c # r \<Rightarrow>
          (let neg = (c = CHR ''-''); digits = (if c = CHR ''+'' \<or> c = CHR ''-'' then r else s)
           in case parse_digits digits of
                None \<Rightarrow> None
              | Some un \<Rightarrow>
                  if \<not> neg \<and> un \<ge> 2 ^ 63 then None
                  else if neg \<and> un > 2 ^ 63 then None
                  else Some (if neg then - int un else int un)))"

abbreviation in_int64 :: "int \<Rightarrow> bool" where
  "in_int64 i \<equiv> - (2 ^ 63) \<le> i \<and> i < 2 ^ 63"

lemma digit_char_props:
  assumes "n < 10"
  shows "is_digit (digit_char n)" and "digit_val (digit_char n) = n"
  using assms by (auto simp: is_digit_def digit_char_def digit_val_def)

lemma nat_digits_all: "list_all is_digit (nat_digits n) \<and> nat_digits n \<noteq> [] \<and> digits_val (nat_digits n) = n"
proof (induction n rule: nat_digits.induct)
  case (1 n)
  show ?case
  proof (cases "n < 10")
    case True
    then show ?thesis by (subst (1 2 3) nat_digits.simps) (simp add: digit_char_props digits_val_def)
  next
    case False
    with 1 have "digits_val (nat_digits (n div 10)) = n div 10" "list_all is_digit (nat_digits (n div 10))"
      by auto
    with False show ?thesis
      by (subst (1 2 3) nat_digits.simps) (simp add: digit_char_props digits_val_def)
  qed
qed

lemma nat_digits_hd_digit: "is_digit (hd (nat_digits n))"
  using nat_digits_all[of n] by (cases "nat_digits n") auto

lemma parse_nat_digits [simp]: "parse_digits (nat_digits n) = Some n"
  using nat_digits_all[of n] by (simp add: parse_digits_def)

lemma digit_not_sign: "is_digit c \<Longrightarrow> c \<noteq> CHR ''+'' \<and> c \<noteq> CHR ''-''"
  by (auto simp: is_digit_def)

lemma ParseInt_FormatInt: "in_int64 i \<Longrightarrow> ParseInt (FormatInt i) = Some i"
proof -
  assume r: "in_int64 i"
  show ?thesis
  proof (cases "i < 0")
    case True
    with r show ?thesis by (simp add: FormatInt_def ParseInt_def)
  next
    case False
    obtain c s where cs: "nat_digits (nat i) = c # s"
      using nat_digits_all[of "nat i"] by (cases "nat_digits (nat i)") auto
    with nat_digits_hd_digit[of "nat i"] have "c \<noteq> CHR ''+''" "c \<noteq> CHR ''-''"
      using digit_not_sign by auto
    with False r parse_nat_digits[of "nat i"] show ?thesis
      by (simp add: FormatInt_def ParseInt_def cs)
  qed
qed

subsection \<open>\<open>time.ParseDuration\<close>\<close>

text \<open>
  Durations are nanoseconds.  The digits of the fraction are scaled in floating point,
  \<open>uint64(float64(f) * (float64(unit) / scale))\<close>; that expression is the parameter \<open>fracNanos\<close>.
\<close>

fun leadingInt :: "string \<Rightarrow> nat \<Rightarrow> (nat \<times> string) option" where
  "leadingInt [] x = Some (x, [])"
| "leadingInt (c # s) x =
     (if \<not> is_digit c then Some (x, c # s)
      else if x > 2 ^ 63 div 10 then None
      else let x' = x * 10 + digit_val c in if x' > 2 ^ 63 then None else leadingInt s x')"

fun leadingFraction :: "string \<Rightarrow> nat \<Rightarrow> nat \<Rightarrow> bool \<Rightarrow> nat \<times> nat \<times> string" where
  "leadingFraction [] x scale overflow = (x, scale, [])"
| "leadingFraction (c # s) x scale overflow =
     (if \<not> is_digit c then (x, scale, c # s)
      else if overflow \<or> x > (2 ^ 63 - 1) div 10 then leadingFraction s x scale True
      else let y = x * 10 + digit_val c in
        if y > 2 ^ 63 then leadingFraction s x scale True
        else leadingFraction s y (scale * 10) False)"

definition unitMap :: "string \<Rightarrow> nat option" where
  "unitMap = map_of
     [(''ns'', 1), (''us'', 10 ^ 3), ([CHR 0xC2, CHR 0xB5, CHR ''s''], 10 ^ 3),
      ([CHR 0xCE, CHR 0xBC, CHR ''s''], 10 ^ 3), (''ms'', 10 ^ 6), (''s'', 10 ^ 9),
      (''m'', 60 * 10 ^ 9), (''h'', 3600 * 10 ^ 9)]"

abbreviation dot_or_digit :: "char \<Rightarrow> bool" where
  "dot_or_digit c \<equiv> c = CHR ''.'' \<or> is_digit c"

lemma leadingInt_length: "leadingInt s x = Some (v, r) \<Longrightarrow> length r \<le> length s"
  by (induction s x rule: leadingInt.induct) (auto simp: Let_def split: if_splits)

lemma leadingFraction_length: "leadingFraction s x sc ov = (f, sc', r) \<Longrightarrow> length r \<le> length s"
  by (induction s x sc ov rule: leadingFraction.induct) (auto simp: Let_def split: if_splits)

text \<open>The optional fraction: its digits, their scale, what follows, and whether there were digits.\<close>

fun fraction_part :: "string \<Rightarrow> nat \<times> nat \<times> string \<times> bool" where
  "fraction_part (c # s) =
     (if c = CHR ''.''
      then (case leadingFraction s 0 1 False of (f, scale, r) \<Rightarrow> (f, scale, r, length s \<noteq> length r))
      else (0, 1, c # s, False))"
| "fraction_part [] = (0, 1, [], False)"

text \<open>One group \<open>number unit\<close>: its value in nanoseconds and what follows it.\<close>

definition duration_group :: "(nat \<Rightarrow> nat \<Rightarrow> nat \<Rightarrow> nat) \<Rightarrow> string \<Rightarrow> (nat \<times> string) option" where
  "duration_group fracNanos s =
     (if s = [] \<or> \<not> dot_or_digit (hd s) then None
      else case leadingInt s 0 of
        None \<Rightarrow> None
      | Some (v, s1) \<Rightarrow>
          (case fraction_part s1 of (f, scale, s2, post) \<Rightarrow>
             let u = takeWhile (\<lambda>c. \<not> dot_or_digit c) s2
             in if length s = length s1 \<and> \<not> post then None
                else if u = [] then None
                else case unitMap u of
                  None \<Rightarrow> None
                | Some unit \<Rightarrow>
                    if v > 2 ^ 63 div unit then None
                    else let w = v * unit + (if f > 0 then fracNanos f unit scale else 0)
                      in if w > 2 ^ 63 then None
                         else Some (w, dropWhile (\<lambda>c. \<not> dot_or_digit c) s2)))"

lemma fraction_part_length: "fraction_part s = (f, sc, r, post) \<Longrightarrow> length r \<le> length s"
  by (cases s) (auto dest: leadingFraction_length split: if_splits prod.splits)

lemma dropWhile_shorter: "takeWhile P s \<noteq> [] \<Longrightarrow> length (dropWhile P s) < length s"
  by (cases s) (auto simp: le_imp_less_Suc length_dropWhile_le split: if_splits)

lemma duration_group_SomeE:
  assumes "duration_group fr s = Some (w, r)"
  obtains v s1 f sc s2 post where "leadingInt s 0 = Some (v, s1)" and "fraction_part s1 = (f, sc, s2, post)"
    and "takeWhile (\<lambda>c. \<not> dot_or_digit c) s2 \<noteq> []" and "r = dropWhile (\<lambda>c. \<not> dot_or_digit c) s2"
proof -
  from assms obtain v s1 where 1: "leadingInt s 0 = Some (v, s1)"
    by (auto simp: duration_group_def split: if_splits option.splits)
  obtain f sc s2 post where 2: "fraction_part s1 = (f, sc, s2, post)" by (cases "fraction_part s1")
  from assms 1 2 show ?thesis
    by (intro that[OF 1 2]) (auto simp: duration_group_def Let_def split: if_splits option.splits)
qed

lemma duration_group_shorter:
  assumes "duration_group fr s = Some (w, r)"
  shows "length r < length s"
  using assms
proof (rule duration_group_SomeE)
  fix v s1 f sc s2 post
  assume a: "leadingInt s 0 = Some (v, s1)" "fraction_part s1 = (f, sc, s2, post)"
    "takeWhile (\<lambda>c. \<not> dot_or_digit c) s2 \<noteq> []" "r = dropWhile (\<lambda>c. \<not> dot_or_digit c) s2"
  have "length r < length s2" unfolding a(4) by (rule dropWhile_shorter[OF a(3)])
  also have "\<dots> \<le> length s1" by (rule fraction_part_length[OF a(2)])
  also have "\<dots> \<le> length s" by (rule leadingInt_length[OF a(1)])
  finally show ?thesis .
qed

function duration_loop :: "(nat \<Rightarrow> nat \<Rightarrow> nat \<Rightarrow> nat) \<Rightarrow> string \<Rightarrow> nat \<Rightarrow> nat option" where
  "duration_loop fr s d =
     (if s = [] then Some d
      else case duration_group fr s of
        None \<Rightarrow> None
      | Some (v, r) \<Rightarrow>
          (let d' = (d + v) mod 2 ^ 64 in if d' > 2 ^ 63 then None else duration_loop fr r d'))"
  by pat_completeness auto
termination
  by (relation "measure (\<lambda>(fr, s, d). length s)") (auto dest: duration_group_shorter)

declare duration_loop.simps [simp del]

definition ParseDuration :: "(nat \<Rightarrow> nat \<Rightarrow> nat \<Rightarrow> nat) \<Rightarrow> string \<Rightarrow> int option" where
  "ParseDuration fr s =
     (let neg = (s \<noteq> [] \<and> hd s = CHR ''-'');
          r = (if s \<noteq> [] \<and> (hd s = CHR ''-'' \<or> hd s = CHR ''+'') then tl s else s)
      in if r = ''0'' then Some 0
         else if r = [] then None
         else case duration_loop fr r 0 of
           None \<Rightarrow> None
         | Some d \<Rightarrow>
             if neg then Some (- int d)
             else if d > 2 ^ 63 - 1 then None else Some (int d))"

text \<open>A number without a unit is not a duration, unless it is zero.\<close>

lemma leadingInt_digits:
  "list_all is_digit s \<Longrightarrow> leadingInt s x = Some (v, r) \<Longrightarrow> r = []"
  by (induction s x rule: leadingInt.induct) (auto simp: Let_def split: if_splits)

lemma duration_group_digits: "list_all is_digit s \<Longrightarrow> duration_group fr s = None"
proof (rule ccontr)
  assume d: "list_all is_digit s" and "duration_group fr s \<noteq> None"
  then obtain w r where "duration_group fr s = Some (w, r)" by auto
  then show False
    by (rule duration_group_SomeE) (use d leadingInt_digits in fastforce)
qed

lemma ParseDuration_FormatInt:
  assumes "i \<noteq> 0"
  shows "ParseDuration fr (FormatInt i) = None"
proof -
  have loop: "duration_loop fr (nat_digits n) 0 = None" for n
    using nat_digits_all[of n] duration_group_digits[of "nat_digits n" fr]
    by (subst duration_loop.simps) simp
  have nz: "nat_digits n \<noteq> ''0''" if "n \<noteq> 0" for n
    using nat_digits_all[of n] that by (auto simp: digits_val_def digit_val_def)
  show ?thesis
  proof (cases "i < 0")
    case True
    then show ?thesis using nz[of "nat (- i)"] nat_digits_all[of "nat (- i)"]
      by (simp add: FormatInt_def ParseDuration_def loop)
  next
    case False
    then have "hd (nat_digits (nat i)) \<noteq> CHR ''-''" "hd (nat_digits (nat i)) \<noteq> CHR ''+''"
      using digit_not_sign[OF nat_digits_hd_digit[of "nat i"]] by auto
    then show ?thesis using nz[of "nat i"] nat_digits_all[of "nat i"] False assms
      by (simp add: FormatInt_def ParseDuration_def loop)
  qed
qed

end
