(* ===== verification/FlagValues.thy ===== *)
theory FlagValues
  imports Go_Strings Complex_Main
begin

text \<open>
  The typed flag values of the flag controller (\<open>ee/agent/flags/flag_value_*.go\<close>) and the flag
  keys (\<open>ee/agent/flags/keys/keys.go\<close>).

  A flag value is a default, optional bounds and an optional override; \<open>get\<close> picks the override
  over the control server's value over the default and clamps numbers to the bounds.

  Go's \<open>any\<close> is the datatype \<open>anyval\<close> of the types that are ever stored in an override.  A
  \<open>float64\<close> is a rational, an infinity or not-a-number; its decimal conversions
  (\<open>strconv.ParseFloat\<close>, \<open>strconv.FormatFloat\<close>) and the rounding of a fractional duration are the
  parameters \<open>float_conv\<close>.
\<close>

subsection \<open>Values\<close>

datatype float64 = NaN | NegInf | Fin rat | PosInf

fun float_less :: "float64 \<Rightarrow> float64 \<Rightarrow> bool" where
  "float_less NaN _ = False"
| "float_less _ NaN = False"
| "float_less NegInf y = (y \<noteq> NegInf)"
| "float_less (Fin a) NegInf = False"
| "float_less (Fin a) (Fin b) = (a < b)"
| "float_less (Fin a) PosInf = True"
| "float_less PosInf _ = False"

definition MaxFloat64 :: rat where
  "MaxFloat64 = of_int ((2 ^ 53 - 1) * 2 ^ 971)"

datatype anyval = ADuration int | AInt int | ABool bool | AFloat float64 | AString string

record float_conv =
  fracNanos :: "nat \<Rightarrow> nat \<Rightarrow> nat \<Rightarrow> nat"
  ParseFloat :: "string \<Rightarrow> float64 option"
  FormatFloat :: "float64 \<Rightarrow> string"

definition Second :: int where "Second = 1000000000"
definition Minute :: int where "Minute = 60 * Second"
definition Hour :: int where "Hour = 60 * Minute"

lemmas duration_defs = Second_def Minute_def Hour_def

subsection \<open>Keys\<close>

text \<open>The keys the code names; \<open>FlagKey_of\<close> is the string constant of each.\<close>

type_synonym FlagKey = string

datatype FlagName =
  KolideServerURL | KolideHosted | LoggingInterval | OsquerydPath | OsqueryHealthcheckStartupDelay
  | RootDirectory | RootPEM | DesktopEnabled | DesktopUpdateInterval | DesktopMenuRefreshInterval
  | DesktopGoMaxProcs | LauncherGoMaxProcs | DebugServerData | ForceControlSubsystems | ControlServerURL
  | ControlRequestInterval | AllowOverlyBroadDt4aAcceleration | DisableControlTLS | InsecureControlTLS | InsecureTLS
  | InsecureTransportTLS | IAmBreakingEELicense | Debug | DebugLogFile | OsqueryVerbose
  | DistributedForwardingInterval | WatchdogEnabled | WatchdogDelaySec | WatchdogMemoryLimitMB | WatchdogUtilizationLimitPercent
  | Autoupdate | TufServerURL | MirrorServerURL | AutoupdateInterval | UpdateChannel
  | AutoupdateInitialDelay | AutoupdateDownloadSplay | UpdateDirectory | PinnedLauncherVersion | PinnedOsquerydVersion
  | ExportTraces | TraceSamplingRate | TraceBatchTimeout | LogIngestServerURL | LogShippingLevel
  | TraceIngestServerURL | DisableTraceIngestTLS | InModernStandby | LocalDevelopmentPath | LauncherWatchdogDisabled
  | SystrayRestartEnabled | CurrentRunningOsqueryVersion | TableGenerateTimeout | UseCachedDataForScheduledQueries | CachedQueryResultsTTL
  | ResetOnHardwareChangeEnabled | PerformanceMonitoringEnabled | DuplicateLogWindow | OsqueryPublisherURL | OsqueryPublisherPercentEnabled

fun FlagKey_of :: "FlagName \<Rightarrow> FlagKey" where
  "FlagKey_of KolideServerURL = ''hostname''"
| "FlagKey_of KolideHosted = ''kolide_hosted''"
| "FlagKey_of LoggingInterval = ''logging_interval''"
| "FlagKey_of OsquerydPath = ''osqueryd_path''"
| "FlagKey_of OsqueryHealthcheckStartupDelay = ''osquery_healthcheck_startup_delay''"
| "FlagKey_of RootDirectory = ''root_directory''"
| "FlagKey_of RootPEM = ''root_pem''"
| "FlagKey_of DesktopEnabled = ''desktop_enabled_v1''"
| "FlagKey_of DesktopUpdateInterval = ''desktop_update_interval''"
| "FlagKey_of DesktopMenuRefreshInterval = ''desktop_menu_refresh_interval''"
| "FlagKey_of DesktopGoMaxProcs = ''desktop_go_max_procs''"
| "FlagKey_of LauncherGoMaxProcs = ''launcher_go_max_procs''"
| "FlagKey_of DebugServerData = ''debug_server_data''"
| "FlagKey_of ForceControlSubsystems = ''force_control_subsystems''"
| "FlagKey_of ControlServerURL = ''control_server_url''"
| "FlagKey_of ControlRequestInterval = ''control_request_interval''"
| "FlagKey_of AllowOverlyBroadDt4aAcceleration = ''allow_overly_broad_dt4a_acceleration''"
| "FlagKey_of DisableControlTLS = ''disable_control_tls''"
| "FlagKey_of InsecureControlTLS = ''insecure_control_tls''"
| "FlagKey_of InsecureTLS = ''insecure_tls''"
| "FlagKey_of InsecureTransportTLS = ''insecure_transport''"
| "FlagKey_of IAmBreakingEELicense = ''i-am-breaking-ee-license''"
| "FlagKey_of Debug = ''debug''"
| "FlagKey_of DebugLogFile = ''debug_log_file''"
| "FlagKey_of OsqueryVerbose = ''osquery_verbose''"
| "FlagKey_of DistributedForwardingInterval = ''osquery_distributed_forwarding_interval''"
| "FlagKey_of WatchdogEnabled = ''watchdog_enabled''"
| "FlagKey_of WatchdogDelaySec = ''watchdog_delay_sec''"
| "FlagKey_of WatchdogMemoryLimitMB = ''watchdog_memory_limit_mb''"
| "FlagKey_of WatchdogUtilizationLimitPercent = ''watchdog_utilization_limit_percent''"
| "FlagKey_of Autoupdate = ''autoupdate''"
| "FlagKey_of TufServerURL = ''tuf_url''"
| "FlagKey_of MirrorServerURL = ''mirror_url''"
| "FlagKey_of AutoupdateInterval = ''autoupdate_interval''"
| "FlagKey_of UpdateChannel = ''update_channel''"
| "FlagKey_of AutoupdateInitialDelay = ''autoupdater_initial_delay''"
| "FlagKey_of AutoupdateDownloadSplay = ''autoupdate_download_splay''"
| "FlagKey_of UpdateDirectory = ''update_directory''"
| "FlagKey_of PinnedLauncherVersion = ''pinned_launcher_version''"
| "FlagKey_of PinnedOsquerydVersion = ''pinned_osqueryd_version''"
| "FlagKey_of ExportTraces = ''export_traces''"
| "FlagKey_of TraceSamplingRate = ''trace_sampling_rate''"
| "FlagKey_of TraceBatchTimeout = ''trace_batch_timeout''"
| "FlagKey_of LogIngestServerURL = ''log_ingest_url''"
| "FlagKey_of LogShippingLevel = ''log_shipping_level''"
| "FlagKey_of TraceIngestServerURL = ''trace_ingest_url''"
| "FlagKey_of DisableTraceIngestTLS = ''disable_trace_ingest_tls''"
| "FlagKey_of InModernStandby = ''in_modern_standby''"
| "FlagKey_of LocalDevelopmentPath = ''localdev_path''"
| "FlagKey_of LauncherWatchdogDisabled = ''prevent_launcher_watchdog_installation''"
| "FlagKey_of SystrayRestartEnabled = ''systray_restart_enabled''"
| "FlagKey_of CurrentRunningOsqueryVersion = ''osquery_version''"
| "FlagKey_of TableGenerateTimeout = ''table_generate_timeout''"
| "FlagKey_of UseCachedDataForScheduledQueries = ''use_cached_data_for_scheduled_queries''"
| "FlagKey_of CachedQueryResultsTTL = ''cached_query_results_ttl''"
| "FlagKey_of ResetOnHardwareChangeEnabled = ''reset_on_hardware_change_enabled''"
| "FlagKey_of PerformanceMonitoringEnabled = ''performance_monitoring_enabled''"
| "FlagKey_of DuplicateLogWindow = ''duplicate_log_window''"
| "FlagKey_of OsqueryPublisherURL = ''osquery_publisher_url''"
| "FlagKey_of OsqueryPublisherPercentEnabled = ''osquery_publisher_percent_enabled''"

definition ToFlagKeys :: "string list \<Rightarrow> FlagKey list" where
  "ToFlagKeys s = map (\<lambda>v. v) s"

definition keys_Intersection :: "FlagKey list \<Rightarrow> FlagKey list \<Rightarrow> FlagKey list" where
  "keys_Intersection a b =
     (let m = fold (\<lambda>element m. AList.update element True m) a []
      in filter (\<lambda>element. map_of m element = Some True) b)"

definition keys_Contains :: "FlagKey list \<Rightarrow> FlagKey \<Rightarrow> bool" where
  "keys_Contains flagKeys key = list_ex (\<lambda>k. k = key) flagKeys"

subsection \<open>Overrides\<close>

text \<open>
  An override holds a value and the timer that will expire it.  A timer made by
  \<open>time.AfterFunc\<close> is its deadline.
\<close>

record Override =
  ov_key :: FlagKey
  ov_value :: "anyval option"
  ov_timer :: "int option"

fun Override_Value :: "Override option \<Rightarrow> anyval option" where
  "Override_Value None = None"
| "Override_Value (Some ov) = ov_value ov"

text \<open>
  \<open>Start\<close> on a non-nil override at time \<open>now\<close>.  \<open>Stop\<close> returns false on a timer that has fired;
  the channel of an \<open>AfterFunc\<close> timer is nil, so the receive that follows never returns: None.
\<close>

definition Override_Start :: "int \<Rightarrow> FlagKey \<Rightarrow> anyval \<Rightarrow> int \<Rightarrow> Override \<Rightarrow> Override option" where
  "Override_Start now key val duration ov =
     (let go = ov\<lparr>ov_key := key, ov_value := Some val, ov_timer := Some (now + duration)\<rparr>
      in case ov_timer ov of
           None \<Rightarrow> Some go
         | Some deadline \<Rightarrow> if now < deadline then Some go else None)"

subsection \<open>Booleans\<close>

record boolFlagValue =
  bool_defaultVal :: bool
  bool_override :: "Override option"

type_synonym boolOption = "boolFlagValue \<Rightarrow> boolFlagValue"

definition WithDefaultBool :: "bool \<Rightarrow> boolOption" where
  "WithDefaultBool d b = b\<lparr>bool_defaultVal := d\<rparr>"

definition WithBoolOverride :: "Override option \<Rightarrow> boolOption" where
  "WithBoolOverride ov b = b\<lparr>bool_override := ov\<rparr>"

definition NewBoolFlagValue :: "boolOption list \<Rightarrow> boolFlagValue" where
  "NewBoolFlagValue opts = fold (\<lambda>opt b. opt b) opts \<lparr>bool_defaultVal = False, bool_override = None\<rparr>"

definition boolToBytes :: "bool \<Rightarrow> string" where
  "boolToBytes enabled = (if enabled then ''enabled'' else '''')"

definition bytesToBool :: "string \<Rightarrow> bool" where
  "bytesToBool v = (v = ''enabled'')"

definition BoolToString :: "bool \<Rightarrow> string" where
  "BoolToString enabled = boolToBytes enabled"

definition StringToBool :: "string \<Rightarrow> bool" where
  "StringToBool v = bytesToBool v"

definition boolFlagValue_get :: "boolFlagValue \<Rightarrow> string option \<Rightarrow> bool" where
  "boolFlagValue_get b controlServerValue =
     (let boolValue = (case controlServerValue of None \<Rightarrow> bool_defaultVal b | Some v \<Rightarrow> bytesToBool v)
      in case Override_Value (bool_override b) of
           Some (ABool v) \<Rightarrow> v
         | _ \<Rightarrow> boolValue)"

subsection \<open>Strings\<close>

record stringFlagValue =
  string_defaultVal :: string
  string_sanitizer :: "(string \<Rightarrow> string) option"
  string_override :: "Override option"

type_synonym stringFlagValueOption = "stringFlagValue \<Rightarrow> stringFlagValue"

definition WithOverrideString :: "Override option \<Rightarrow> stringFlagValueOption" where
  "WithOverrideString ov s = s\<lparr>string_override := ov\<rparr>"

definition WithDefaultString :: "string \<Rightarrow> stringFlagValueOption" where
  "WithDefaultString d s = s\<lparr>string_defaultVal := d\<rparr>"

definition WithSanitizer :: "(string \<Rightarrow> string) \<Rightarrow> stringFlagValueOption" where
  "WithSanitizer f s = s\<lparr>string_sanitizer := Some f\<rparr>"

definition NewStringFlagValue :: "stringFlagValueOption list \<Rightarrow> stringFlagValue" where
  "NewStringFlagValue opts = fold (\<lambda>opt s. opt s) opts
     \<lparr>string_defaultVal = '''', string_sanitizer = None, string_override = None\<rparr>"

definition stringFlagValue_get :: "stringFlagValue \<Rightarrow> string option \<Rightarrow> string" where
  "stringFlagValue_get s controlServerValue =
     (let stringValue =
            (case controlServerValue of None \<Rightarrow> string_defaultVal s | Some v \<Rightarrow> v);
          stringValue =
            (case Override_Value (string_override s) of Some (AString v) \<Rightarrow> v | _ \<Rightarrow> stringValue)
      in case string_sanitizer s of None \<Rightarrow> stringValue | Some f \<Rightarrow> f stringValue)"

subsection \<open>Durations\<close>

record durationFlagValue =
  dur_override :: "Override option"
  dur_defaultVal :: int
  dur_min :: int
  dur_max :: int

type_synonym durationOption = "durationFlagValue \<Rightarrow> durationFlagValue"

definition WithOverride :: "Override option \<Rightarrow> durationOption" where
  "WithOverride ov d = d\<lparr>dur_override := ov\<rparr>"

definition WithDefault :: "int \<Rightarrow> durationOption" where
  "WithDefault v d = d\<lparr>dur_defaultVal := v\<rparr>"

definition WithMin :: "int \<Rightarrow> durationOption" where
  "WithMin v d = d\<lparr>dur_min := v\<rparr>"

definition WithMax :: "int \<Rightarrow> durationOption" where
  "WithMax v d = d\<lparr>dur_max := v\<rparr>"

definition NewDurationFlagValue :: "durationOption list \<Rightarrow> durationFlagValue" where
  "NewDurationFlagValue opts = fold (\<lambda>opt d. opt d) opts
     \<lparr>dur_override = None, dur_defaultVal = 0, dur_min = - (2 ^ 63), dur_max = 2 ^ 63 - 1\<rparr>"

definition clampValue :: "int \<Rightarrow> int \<Rightarrow> int \<Rightarrow> int" where
  "clampValue val minimum maximum =
     (if val < minimum then minimum else if val > maximum then maximum else val)"

definition parseControlServerValue :: "float_conv \<Rightarrow> durationFlagValue \<Rightarrow> string \<Rightarrow> int" where
  "parseControlServerValue fl d valueStr =
     (case ParseDuration (fracNanos fl) valueStr of
        Some parsedDuration \<Rightarrow> parsedDuration
      | None \<Rightarrow>
          (case ParseInt valueStr of
             Some parsedInt \<Rightarrow> parsedInt
           | None \<Rightarrow> dur_defaultVal d))"

definition durationFlagValue_get :: "float_conv \<Rightarrow> durationFlagValue \<Rightarrow> string option \<Rightarrow> int" where
  "durationFlagValue_get fl d controlServerValue =
     (let int64Value =
            (case controlServerValue of
               None \<Rightarrow> dur_defaultVal d
             | Some v \<Rightarrow> parseControlServerValue fl d v);
          int64Value =
            (case Override_Value (dur_override d) of Some (ADuration v) \<Rightarrow> v | _ \<Rightarrow> int64Value)
      in clampValue int64Value (dur_min d) (dur_max d))"

definition durationToBytes :: "int \<Rightarrow> string" where
  "durationToBytes duration = FormatInt duration"

subsection \<open>Integers\<close>

record intFlagValue =
  int_override :: "Override option"
  int_defaultVal :: int
  int_min :: int
  int_max :: int

type_synonym intOption = "intFlagValue \<Rightarrow> intFlagValue"

definition WithIntValueOverride :: "Override option \<Rightarrow> intOption" where
  "WithIntValueOverride ov f = f\<lparr>int_override := ov\<rparr>"

definition WithIntValueDefault :: "int \<Rightarrow> intOption" where
  "WithIntValueDefault v i = i\<lparr>int_defaultVal := v\<rparr>"

definition WithIntValueMin :: "int \<Rightarrow> intOption" where
  "WithIntValueMin v i = i\<lparr>int_min := v\<rparr>"

definition WithIntValueMax :: "int \<Rightarrow> intOption" where
  "WithIntValueMax v i = i\<lparr>int_max := v\<rparr>"

definition NewIntFlagValue :: "intOption list \<Rightarrow> intFlagValue" where
  "NewIntFlagValue opts = fold (\<lambda>opt i. opt i) opts
     \<lparr>int_override = None, int_defaultVal = 0, int_min = -1 * (2 ^ 63 - 1), int_max = 2 ^ 63 - 1\<rparr>"

definition clampIntValue :: "int \<Rightarrow> int \<Rightarrow> int \<Rightarrow> int" where
  "clampIntValue val minimum maximum =
     (if val < minimum then minimum else if val > maximum then maximum else val)"

definition intFlagValue_get :: "intFlagValue \<Rightarrow> string option \<Rightarrow> int" where
  "intFlagValue_get i controlServerValue =
     (let intValue =
            (case controlServerValue of
               None \<Rightarrow> int_defaultVal i
             | Some v \<Rightarrow>
                 (case ParseInt v of Some parsedInt \<Rightarrow> parsedInt | None \<Rightarrow> int_defaultVal i));
          intValue =
            (case Override_Value (int_override i) of Some (AInt v) \<Rightarrow> v | _ \<Rightarrow> intValue)
      in clampIntValue intValue (int_min i) (int_max i))"

definition intToBytes :: "int \<Rightarrow> string" where
  "intToBytes i = FormatInt i"

subsection \<open>Floating point numbers\<close>

record float64FlagValue =
  float_override :: "Override option"
  float_defaultVal :: float64
  float_min :: float64
  float_max :: float64

type_synonym float64Option = "float64FlagValue \<Rightarrow> float64FlagValue"

definition WithFloat64ValueOverride :: "Override option \<Rightarrow> float64Option" where
  "WithFloat64ValueOverride ov f = f\<lparr>float_override := ov\<rparr>"

definition WithFloat64ValueDefault :: "float64 \<Rightarrow> float64Option" where
  "WithFloat64ValueDefault v f = f\<lparr>float_defaultVal := v\<rparr>"

definition WithFloat64ValueMin :: "float64 \<Rightarrow> float64Option" where
  "WithFloat64ValueMin v f = f\<lparr>float_min := v\<rparr>"

definition WithFloat64ValueMax :: "float64 \<Rightarrow> float64Option" where
  "WithFloat64ValueMax v f = f\<lparr>float_max := v\<rparr>"

definition NewFloat64FlagValue :: "float64Option list \<Rightarrow> float64FlagValue" where
  "NewFloat64FlagValue opts = fold (\<lambda>opt f. opt f) opts
     \<lparr>float_override = None, float_defaultVal = Fin 0,
      float_min = Fin (- MaxFloat64), float_max = Fin MaxFloat64\<rparr>"

definition clampFloat64Value :: "float64 \<Rightarrow> float64 \<Rightarrow> float64 \<Rightarrow> float64" where
  "clampFloat64Value val minimum maximum =
     (if float_less val minimum then minimum
      else if float_less maximum val then maximum else val)"

definition float64FlagValue_get :: "float_conv \<Rightarrow> float64FlagValue \<Rightarrow> string option \<Rightarrow> float64" where
  "float64FlagValue_get fl f controlServerValue =
     (let float64Value =
            (case controlServerValue of
               None \<Rightarrow> float_defaultVal f
             | Some v \<Rightarrow>
                 (case ParseFloat fl v of Some parsedFloat \<Rightarrow> parsedFloat | None \<Rightarrow> float_defaultVal f));
          float64Value =
            (case Override_Value (float_override f) of Some (AFloat v) \<Rightarrow> v | _ \<Rightarrow> float64Value)
      in clampFloat64Value float64Value (float_min f) (float_max f))"

definition float64ToBytes :: "float_conv \<Rightarrow> float64 \<Rightarrow> string" where
  "float64ToBytes fl f = FormatFloat fl f"

subsection \<open>Facts the controller's proofs use\<close>

lemmas flag_option_defs =
  WithDefaultBool_def WithBoolOverride_def NewBoolFlagValue_def
  WithOverrideString_def WithDefaultString_def WithSanitizer_def NewStringFlagValue_def
  WithOverride_def WithDefault_def WithMin_def WithMax_def NewDurationFlagValue_def
  WithIntValueOverride_def WithIntValueDefault_def WithIntValueMin_def WithIntValueMax_def
  NewIntFlagValue_def WithFloat64ValueOverride_def WithFloat64ValueDefault_def
  WithFloat64ValueMin_def WithFloat64ValueMax_def NewFloat64FlagValue_def

lemma clampValue_bounds: "lo \<le> hi \<Longrightarrow> lo \<le> clampValue v lo hi \<and> clampValue v lo hi \<le> hi"
  by (simp add: clampValue_def)

lemma clampValue_id [simp]: "lo \<le> v \<Longrightarrow> v \<le> hi \<Longrightarrow> clampValue v lo hi = v"
  by (simp add: clampValue_def)

lemma clampIntValue_bounds:
  "lo \<le> hi \<Longrightarrow> lo \<le> clampIntValue v lo hi \<and> clampIntValue v lo hi \<le> hi"
  by (simp add: clampIntValue_def)

lemma clampFloat64Value_bounds:
  assumes "v \<noteq> NaN" and "lo \<le> hi"
  shows "\<exists>q. clampFloat64Value v (Fin lo) (Fin hi) = Fin q \<and> lo \<le> q \<and> q \<le> hi"
  using assms by (cases v) (auto simp: clampFloat64Value_def)

lemma clampFloat64Value_NaN [simp]: "clampFloat64Value NaN lo hi = NaN"
  by (cases hi) (simp_all add: clampFloat64Value_def)

lemma bytesToBool_boolToBytes [simp]: "bytesToBool (boolToBytes b) = b"
  by (simp add: bytesToBool_def boolToBytes_def)

lemma set_fold_update_True:
  "map_of (fold (\<lambda>x m. AList.update x True m) xs m) k
   = (if k \<in> set xs then Some True else map_of m k)"
  by (induction xs arbitrary: m) (auto simp: update_conv')

lemma keys_Intersection_filter: "keys_Intersection a b = filter (\<lambda>k. k \<in> set a) b"
  by (simp add: keys_Intersection_def set_fold_update_True)

lemma keys_Contains_iff: "keys_Contains ks k \<longleftrightarrow> k \<in> set ks"
  by (auto simp: keys_Contains_def list_ex_iff)

lemma ToFlagKeys_id [simp]: "ToFlagKeys ks = ks"
  by (simp add: ToFlagKeys_def)

text \<open>What is stored for a duration reads back as that duration, whatever the default.\<close>

lemma parseControlServerValue_durationToBytes [simp]:
  assumes "in_int64 i"
  shows "parseControlServerValue fl d (durationToBytes i) = i"
proof (cases "i = 0")
  case True
  have "ParseDuration (fracNanos fl) ''0'' = Some 0" by (simp add: ParseDuration_def)
  moreover have "nat_digits 0 = ''0''" by code_simp
  ultimately show ?thesis using True
    by (simp add: parseControlServerValue_def durationToBytes_def FormatInt_def)
next
  case False
  with assms show ?thesis
    by (simp add: parseControlServerValue_def durationToBytes_def ParseDuration_FormatInt
        ParseInt_FormatInt)
qed

end
