(* ===== verification/Tuf_Version.thy ===== *)
theory Tuf_Version
  imports Go_Strings
begin

text \<open>
  Version strings of the autoupdater (\<open>ee/tuf/version.go\<close>).

  The semantic version package (\<open>github.com/Masterminds/semver\<close>) is a parameter: the record
  \<open>semver\<close> of the functions the code calls.
\<close>

record 'v semver =
  NewVersion :: "string \<Rightarrow> 'v option"
  MustParse :: "string \<Rightarrow> 'v"
  LessThan :: "'v \<Rightarrow> 'v \<Rightarrow> bool"
  GreaterThan :: "'v \<Rightarrow> 'v \<Rightarrow> bool"
  VersionEqual :: "'v \<Rightarrow> 'v \<Rightarrow> bool"

datatype autoupdatableBinary = binaryLauncher | binaryOsqueryd

fun binary_string :: "autoupdatableBinary \<Rightarrow> string" where
  "binary_string binaryLauncher = ''launcher''"
| "binary_string binaryOsqueryd = ''osqueryd''"

definition tufVersionMinimum :: "'v semver \<Rightarrow> 'v" where
  "tufVersionMinimum sv = MustParse sv ''1.4.1''"

definition pinnedLauncherVersionMinimum :: "'v semver \<Rightarrow> 'v" where
  "pinnedLauncherVersionMinimum sv = MustParse sv ''1.6.1''"

definition SanitizePinnedVersion :: "'v semver \<Rightarrow> autoupdatableBinary \<Rightarrow> string \<Rightarrow> string" where
  "SanitizePinnedVersion sv binary rawVersion =
     (case NewVersion sv rawVersion of
        None \<Rightarrow> ''''
      | Some parsedVersion \<Rightarrow>
          if binary \<noteq> binaryLauncher then rawVersion
          else if LessThan sv parsedVersion (pinnedLauncherVersionMinimum sv) then ''''
          else rawVersion)"

definition launcherVersionSupportsTuf :: "'v semver \<Rightarrow> string \<Rightarrow> error + bool" where
  "launcherVersionSupportsTuf sv rawVersion =
     (case NewVersion sv rawVersion of
        None \<Rightarrow> Inl (ErrNew (''could not parse launcher version '' @ rawVersion))
      | Some versionParsed \<Rightarrow>
          Inr (GreaterThan sv versionParsed (tufVersionMinimum sv) \<or>
               VersionEqual sv versionParsed (tufVersionMinimum sv)))"

definition versionFromTarget :: "autoupdatableBinary \<Rightarrow> string \<Rightarrow> string" where
  "versionFromTarget binary targetFilename =
     TrimSuffix (TrimPrefix targetFilename (binary_string binary @ ''-'')) ''.tar.gz''"

lemma versionFromTarget_target [simp]:
  "versionFromTarget b (binary_string b @ ''-'' @ v @ ''.tar.gz'') = v"
  unfolding versionFromTarget_def
  using TrimPrefix_append[of "binary_string b @ ''-''" "v @ ''.tar.gz''"] by simp

text \<open>A pinned version that is kept is one that parses, and for launcher not below the minimum.\<close>

lemma SanitizePinnedVersion_nonempty:
  assumes "SanitizePinnedVersion sv b raw \<noteq> ''''"
  shows "SanitizePinnedVersion sv b raw = raw \<and> NewVersion sv raw \<noteq> None \<and>
    (b = binaryLauncher \<longrightarrow>
       \<not> LessThan sv (the (NewVersion sv raw)) (pinnedLauncherVersionMinimum sv))"
  using assms by (auto simp: SanitizePinnedVersion_def split: option.splits if_splits)

end
