(* ===== verification/Filepath.thy ===== *)
theory Filepath
  imports Go_Strings
begin

text \<open>
  The part of Go's \<open>path/filepath\<close> the launcher uses, for slash-separated systems, and the default
  paths of \<open>pkg/launcher/paths.go\<close>.

  A path is cleaned component by component: empty components and \<open>.\<close> are dropped, \<open>..\<close> removes the
  component before it, is dropped at the root and is kept at the front of a relative path.
\<close>

subsection \<open>Cleaning and joining\<close>

fun split_sep :: "char \<Rightarrow> string \<Rightarrow> string list" where
  "split_sep c [] = [[]]"
| "split_sep c (x # xs) =
     (if x = c then [] # split_sep c xs
      else (case split_sep c xs of [] \<Rightarrow> [[x]] | w # ws \<Rightarrow> (x # w) # ws))"

fun join_sep :: "string \<Rightarrow> string list \<Rightarrow> string" where
  "join_sep sep [] = []"
| "join_sep sep [w] = w"
| "join_sep sep (w # v # ws) = w @ sep @ join_sep sep (v # ws)"

text \<open>\<open>st\<close> is the cleaned part, last component first.\<close>

fun clean_comps :: "bool \<Rightarrow> string list \<Rightarrow> string list \<Rightarrow> string list" where
  "clean_comps rooted st [] = rev st"
| "clean_comps rooted st (c # cs) =
     (if c = '''' \<or> c = ''.'' then clean_comps rooted st cs
      else if c = ''..'' then
        (case st of
           [] \<Rightarrow> clean_comps rooted (if rooted then [] else [''..'']) cs
         | t # ts \<Rightarrow> if t = ''..'' then clean_comps rooted (''..'' # st) cs
                     else clean_comps rooted ts cs)
      else clean_comps rooted (c # st) cs)"

definition IsAbs :: "string \<Rightarrow> bool" where
  "IsAbs p = HasPrefix p ''/''"

definition comps :: "string \<Rightarrow> string list" where
  "comps p = clean_comps (IsAbs p) [] (split_sep (CHR ''/'') p)"

definition Clean :: "string \<Rightarrow> string" where
  "Clean p =
     (if IsAbs p then ''/'' @ join_sep ''/'' (comps p)
      else if comps p = [] then ''.'' else join_sep ''/'' (comps p))"

fun Join :: "string list \<Rightarrow> string" where
  "Join [] = ''''"
| "Join (e # es) = (if e = '''' then Join es else Clean (join_sep ''/'' (e # es)))"

definition strip_slashes :: "string \<Rightarrow> string" where
  "strip_slashes p = rev (dropWhile (\<lambda>c. c = CHR ''/'') (rev p))"

definition Base :: "string \<Rightarrow> string" where
  "Base p =
     (if p = '''' then ''.''
      else if strip_slashes p = '''' then ''/''
      else last (split_sep (CHR ''/'') (strip_slashes p)))"

definition Dir :: "string \<Rightarrow> string" where
  "Dir p = Clean (rev (dropWhile (\<lambda>c. c \<noteq> CHR ''/'') (rev p)))"

subsection \<open>Default paths\<close>

datatype defaultPath =
  RootDirectory | EtcDirectory | WindowsConfigDirectory | BinDirectory | ConfigFile | SecretFile

definition win_path :: "string list \<Rightarrow> string" where
  "win_path ws = join_sep [CHR 0x5C] ws"

text \<open>
  \<open>windows\<close> is the operating system, \<open>rootExists\<close> whether \<open>os.Stat\<close> finds the default root
  directory.  On Windows the joined directory is a clean constant, so joining appends a separator
  and the name.
\<close>

function DefaultPath :: "bool \<Rightarrow> bool \<Rightarrow> defaultPath \<Rightarrow> string" where
  "DefaultPath True _ RootDirectory = win_path [''C:'', ''ProgramData'', ''Kolide'', ''Launcher-kolide-k2'', ''data'']"
| "DefaultPath True _ EtcDirectory = win_path [''C:'', ''Program Files'', ''Kolide'', ''Launcher-kolide-k2'', ''conf'']"
| "DefaultPath True _ WindowsConfigDirectory = win_path [''C:'', ''Program Files'', ''Kolide'', ''Launcher-kolide-k2'', ''conf'']"
| "DefaultPath True _ BinDirectory = win_path [''C:'', ''Program Files'', ''Kolide'', ''Launcher-kolide-k2'', ''bin'']"
| "DefaultPath True rootExists ConfigFile = win_path [DefaultPath True rootExists WindowsConfigDirectory, ''launcher.flags'']"
| "DefaultPath True rootExists SecretFile = win_path [DefaultPath True rootExists WindowsConfigDirectory, ''secret'']"
| "DefaultPath False rootExists RootDirectory =
     (if \<not> rootExists then ''/var/kolide-k2/k2device-preprod.kolide.com''
      else ''/var/kolide-k2/k2device.kolide.com'')"
| "DefaultPath False _ EtcDirectory = ''/etc/kolide-k2/''"
| "DefaultPath False _ BinDirectory = ''/usr/local/kolide-k2/''"
| "DefaultPath False rootExists ConfigFile = Join [DefaultPath False rootExists EtcDirectory, ''launcher.flags'']"
| "DefaultPath False rootExists SecretFile = Join [DefaultPath False rootExists EtcDirectory, ''secret'']"
| "DefaultPath False _ WindowsConfigDirectory = ''''"
  by pat_completeness auto
termination
  by (relation "measure (\<lambda>(_, _, p). if p = ConfigFile \<or> p = SecretFile then 1 else 0)") auto

text \<open>\<open>SetDefaultPaths\<close>: the default root, etc and bin directories and config file.\<close>

definition SetDefaultPaths :: "bool \<Rightarrow> bool \<Rightarrow> string \<times> string \<times> string \<times> string" where
  "SetDefaultPaths windows rootExists =
     (DefaultPath windows rootExists RootDirectory, DefaultPath windows rootExists EtcDirectory,
      DefaultPath windows rootExists BinDirectory, DefaultPath windows rootExists ConfigFile)"

subsection \<open>Overriding the root directory\<close>

definition DefaultLauncherIdentifier :: string where
  "DefaultLauncherIdentifier = ''kolide-k2''"

definition IsKolideHostedServerURL :: "string \<Rightarrow> bool" where
  "IsKolideHostedServerURL serverURL \<longleftrightarrow>
     serverURL \<in> {''k2device.kolide.com'', ''k2device-preprod.kolide.com'', ''k2device.kolide.eu'',
                  ''kolide-k2-device.eu.svc.1infra.net''}"

definition likelyWindowsRootDirPaths :: "string list" where
  "likelyWindowsRootDirPaths =
     [win_path [''C:'', ''ProgramData'', ''Kolide'', ''Launcher-kolide-nababe-k2'', ''data''],
      win_path [''C:'', ''Program Files'', ''Kolide'', ''Launcher-kolide-nababe-k2'', ''data''],
      win_path [''C:'', ''ProgramData'', ''Kolide'', ''Launcher-kolide-k2'', ''data''],
      win_path [''C:'', ''Program Files'', ''Kolide'', ''Launcher-kolide-k2'', ''data'']]"

text \<open>What \<open>os.Stat\<close> says of a file: missing, another error, or its size.\<close>

datatype file_stat = FileMissing | FileError error | FileSize nat

fun nonEmptyFileExists :: "file_stat \<Rightarrow> error + bool" where
  "nonEmptyFileExists FileMissing = Inr False"
| "nonEmptyFileExists (FileError err) = Inl err"
| "nonEmptyFileExists (FileSize n) = Inr (n > 0)"

fun likely_root :: "(string \<Rightarrow> file_stat) \<Rightarrow> string \<Rightarrow> string \<Rightarrow> string list \<Rightarrow> string" where
  "likely_root launcher_db optsRootDirectory packageIdentifier [] = optsRootDirectory"
| "likely_root launcher_db optsRootDirectory packageIdentifier (path # paths) =
     (if path = optsRootDirectory \<or> \<not> Contains path packageIdentifier
      then likely_root launcher_db optsRootDirectory packageIdentifier paths
      else if nonEmptyFileExists (launcher_db path) = Inr True then path
      else likely_root launcher_db optsRootDirectory packageIdentifier paths)"

text \<open>\<open>launcher_db d\<close> is the state of the file \<open>launcher.db\<close> in the directory \<open>d\<close>.\<close>

definition DetermineRootDirectoryOverride ::
  "bool \<Rightarrow> (string \<Rightarrow> file_stat) \<Rightarrow> string \<Rightarrow> string \<Rightarrow> string \<Rightarrow> string" where
  "DetermineRootDirectoryOverride windows launcher_db optsRootDirectory kolideServerURL packageIdentifier =
     (if \<not> windows \<or> \<not> IsKolideHostedServerURL kolideServerURL then optsRootDirectory
      else let ident = (if TrimSpace packageIdentifier = '''' then DefaultLauncherIdentifier else packageIdentifier)
           in case nonEmptyFileExists (launcher_db optsRootDirectory) of
                Inl err \<Rightarrow> optsRootDirectory
              | Inr True \<Rightarrow> optsRootDirectory
              | Inr False \<Rightarrow> likely_root launcher_db optsRootDirectory ident likelyWindowsRootDirPaths)"

definition GetOriginalLauncherExecutablePath ::
  "bool \<Rightarrow> (string \<Rightarrow> file_stat) \<Rightarrow> string \<Rightarrow> error + string" where
  "GetOriginalLauncherExecutablePath windows stat identifier1 =
     (let ident = (if TrimSpace identifier1 = '''' then DefaultLauncherIdentifier else identifier1);
          launcherBin = (if windows
            then win_path [''C:'', ''Program Files'', ''Kolide'', ''Launcher-'' @ ident, ''bin'', ''launcher.exe'']
            else Join [''/usr/local/'' @ ident @ ''/bin'', ''launcher''])
      in case nonEmptyFileExists (stat launcherBin) of
           Inl err \<Rightarrow> Inl err
         | Inr exists \<Rightarrow> if \<not> exists then Inr '''' else Inr launcherBin)"

text \<open>
  \<open>ConfigFilePath\<close>: \<open>None\<close> is the panic when \<open>--config\<close> is the last argument.  \<open>strings.Split\<close> on
  \<open>=\<close> gives two parts when there is exactly one such character.
\<close>

definition trim_quotes :: "string \<Rightarrow> string" where
  "trim_quotes s =
     (let q = (\<lambda>c. c = CHR 0x22 \<or> c = CHR 0x27) in rev (dropWhile q (rev (dropWhile q s))))"

fun ConfigFilePath :: "string \<Rightarrow> string list \<Rightarrow> string option" where
  "ConfigFilePath goos [] =
     Some (if goos = ''darwin'' \<or> goos = ''linux'' then ''/etc/kolide-k2/launcher.flags''
           else if goos = ''windows''
           then win_path [''C:'', ''Program Files'', ''Kolide'', ''Launcher-kolide-k2'', ''conf'', ''launcher.flags'']
           else '''')"
| "ConfigFilePath goos (arg # args) =
     (if arg = ''--config'' \<or> arg = ''-config''
      then (case args of [] \<Rightarrow> None | a # _ \<Rightarrow> Some (trim_quotes a))
      else if Contains arg ''config='' \<and> length (split_sep (CHR ''='') arg) = 2
      then Some (split_sep (CHR ''='') arg ! 1)
      else ConfigFilePath goos args)"

subsection \<open>Laws of paths\<close>

text \<open>A name is one proper component of a path.\<close>

definition is_name :: "string \<Rightarrow> bool" where
  "is_name c \<longleftrightarrow> c \<noteq> '''' \<and> c \<noteq> ''.'' \<and> c \<noteq> ''..'' \<and> CHR ''/'' \<notin> set c"

lemma split_sep_ne [simp]: "split_sep c s \<noteq> []"
  by (cases s) (auto split: list.splits)

lemma split_sep_no [simp]: "c \<notin> set s \<Longrightarrow> split_sep c s = [s]"
  by (induction s) auto

lemma split_sep_append: "c \<notin> set s \<Longrightarrow> split_sep c (s @ c # t) = s # split_sep c t"
  by (induction s) auto

lemma split_join:
  "cs \<noteq> [] \<Longrightarrow> \<forall>s \<in> set cs. c \<notin> set s \<Longrightarrow> split_sep c (join_sep [c] cs) = cs"
  by (induction "[c]" cs rule: join_sep.induct) (auto simp: split_sep_append)

lemma split_sep_comp: "s \<in> set (split_sep c t) \<Longrightarrow> c \<notin> set s"
  by (induction c t arbitrary: s rule: split_sep.induct) (auto split: list.splits if_splits)

lemma split_sep_append': "split_sep c (s @ c # t) = split_sep c s @ split_sep c t"
  by (induction s) (auto split: list.splits)

lemma join_sep_append:
  "as \<noteq> [] \<Longrightarrow> bs \<noteq> [] \<Longrightarrow> join_sep sep (as @ bs) = join_sep sep as @ sep @ join_sep sep bs"
  by (induction sep as rule: join_sep.induct) (auto simp: neq_Nil_conv)

lemma join_sep_Cons: "cs \<noteq> [] \<Longrightarrow> join_sep sep (c # cs) = c @ sep @ join_sep sep cs"
  by (cases cs) auto

lemma clean_comps_names: "list_all is_name cs \<Longrightarrow> clean_comps r st cs = rev st @ cs"
  by (induction cs arbitrary: st) (auto simp: is_name_def)

text \<open>Cleaning works from left to right: the cleaned first part is the stack of the second.\<close>

lemma clean_comps_append: "clean_comps r st (as @ bs) = clean_comps r (rev (clean_comps r st as)) bs"
  by (induction r st as rule: clean_comps.induct) (auto split: list.splits)

text \<open>A cleaned path is names, after \<open>..\<close>s when it is relative; here with the last component first.\<close>

fun stack_ok :: "bool \<Rightarrow> string list \<Rightarrow> bool" where
  "stack_ok r [] \<longleftrightarrow> True"
| "stack_ok r (t # ts) \<longleftrightarrow> (if t = ''..'' then \<not> r \<and> set ts \<subseteq> {''..''} else is_name t \<and> stack_ok r ts)"

lemma stack_ok_dots: "\<not> r \<Longrightarrow> set ts \<subseteq> {''..''} \<Longrightarrow> stack_ok r ts"
  by (induction ts) auto

lemma clean_comps_ok:
  "stack_ok r st \<Longrightarrow> \<forall>c \<in> set cs. CHR ''/'' \<notin> set c \<Longrightarrow> stack_ok r (rev (clean_comps r st cs))"
  by (induction r st cs rule: clean_comps.induct)
    (auto simp: is_name_def stack_ok_dots split: list.splits if_splits)

lemma comps_ok: "stack_ok (IsAbs p) (rev (comps p))"
  unfolding comps_def by (rule clean_comps_ok) (auto dest: split_sep_comp)

lemma stack_ok_abs: "stack_ok True st \<Longrightarrow> list_all is_name st"
  by (induction st) (auto split: if_splits)

lemma comps_abs: "IsAbs p \<Longrightarrow> list_all is_name (comps p)"
  using stack_ok_abs[of "rev (comps p)"] comps_ok[of p] by (simp add: list_all_iff)

lemma clean_comps_stack: "stack_ok r st \<Longrightarrow> clean_comps r [] (rev st) = rev st"
proof (induction st)
  case (Cons t ts)
  have "stack_ok r ts" using Cons.prems by (auto simp: stack_ok_dots split: if_splits)
  with Cons.IH have "clean_comps r [] (rev (t # ts)) = clean_comps r ts [t]"
    by (simp add: clean_comps_append)
  with Cons.prems show ?case by (cases ts) (auto simp: is_name_def split: if_splits)
qed simp

lemma comps_clean [simp]: "clean_comps (IsAbs p) [] (comps p) = comps p"
  using clean_comps_stack[OF comps_ok[of p]] by simp

lemma comps_no_slash: "c \<in> set (comps p) \<Longrightarrow> c \<noteq> '''' \<and> c \<noteq> ''.'' \<and> CHR ''/'' \<notin> set c"
proof -
  have "stack_ok r st \<Longrightarrow> c \<in> set st \<Longrightarrow> c \<noteq> '''' \<and> c \<noteq> ''.'' \<and> CHR ''/'' \<notin> set c" for r st
    by (induction st) (auto simp: is_name_def split: if_splits)
  from this[OF comps_ok[of p]] show "c \<in> set (comps p) \<Longrightarrow> c \<noteq> '''' \<and> c \<noteq> ''.'' \<and> CHR ''/'' \<notin> set c" by simp
qed

lemma IsAbs_Cons [simp]: "IsAbs (x # p) \<longleftrightarrow> x = CHR ''/''"
  by (auto simp: IsAbs_def HasPrefix_iff)

lemma IsAbs_Nil [simp]: "\<not> IsAbs []"
  by (simp add: IsAbs_def HasPrefix_iff)

lemma IsAbs_join:
  assumes "c \<noteq> ''''" "CHR ''/'' \<notin> set c"
  shows "\<not> IsAbs (join_sep ''/'' (c # cs))"
proof -
  obtain x xs where "c = x # xs" "x \<noteq> CHR ''/''" using assms by (cases c) auto
  then show ?thesis by (cases cs) simp_all
qed

lemma IsAbs_Clean [simp]: "IsAbs (Clean p) = IsAbs p"
proof (cases "IsAbs p \<or> comps p = []")
  case True
  then show ?thesis by (auto simp: Clean_def)
next
  case False
  then obtain c cs where "comps p = c # cs" by (cases "comps p") auto
  then show ?thesis using False comps_no_slash[of c p] IsAbs_join[of c cs] by (simp add: Clean_def)
qed

lemma comps_join:
  "cs \<noteq> [] \<Longrightarrow> \<forall>c \<in> set cs. CHR ''/'' \<notin> set c \<Longrightarrow> comps (''/'' @ join_sep ''/'' cs) = clean_comps True [] cs"
  using split_join[of cs "CHR ''/''"] by (simp add: comps_def)

lemma comps_Clean [simp]: "comps (Clean p) = comps p"
proof (cases "comps p = []")
  case True
  then show ?thesis by (auto simp: Clean_def comps_def[of "''/''"] comps_def[of "''.''"])
next
  case ne: False
  have ns: "\<forall>c \<in> set (comps p). CHR ''/'' \<notin> set c" using comps_no_slash by blast
  show ?thesis
  proof (cases "IsAbs p")
    case True
    then have "comps (Clean p) = clean_comps True [] (comps p)" using comps_join[OF ne ns] by (simp add: Clean_def)
    also have "\<dots> = comps p" using comps_clean[of p] True by simp
    finally show ?thesis .
  next
    case False
    then have "Clean p = join_sep ''/'' (comps p)" using ne by (simp add: Clean_def)
    then have "comps (Clean p) = clean_comps False [] (comps p)"
      using split_join[OF ne ns] IsAbs_Clean[of p] False by (simp add: comps_def[of "join_sep _ _"])
    also have "\<dots> = comps p" using comps_clean[of p] False by simp
    finally show ?thesis .
  qed
qed

lemma Clean_Clean [simp]: "Clean (Clean p) = Clean p"
  by (simp only: Clean_def[of "Clean p"] IsAbs_Clean comps_Clean) (simp only: Clean_def)

lemma Clean_abs: "IsAbs p \<Longrightarrow> Clean p = ''/'' @ join_sep ''/'' (comps p)"
  by (simp add: Clean_def)

text \<open>Joining two paths cleans the components of the second after those of the first.\<close>

lemma IsAbs_append: "d \<noteq> '''' \<Longrightarrow> IsAbs (d @ e) = IsAbs d"
  by (cases d) simp_all

lemma comps_Join2:
  "d \<noteq> '''' \<Longrightarrow> comps (d @ ''/'' @ e) = clean_comps (IsAbs d) (rev (comps d)) (split_sep (CHR ''/'') e)"
  by (simp add: comps_def IsAbs_append split_sep_append' clean_comps_append)

lemma Join_name:
  assumes "IsAbs d" "is_name n"
  shows "Join [d, n] = Clean (d @ ''/'' @ n)" "comps (Join [d, n]) = comps d @ [n]" "IsAbs (Join [d, n])"
proof -
  have d: "d \<noteq> ''''" using assms(1) by auto
  then show J: "Join [d, n] = Clean (d @ ''/'' @ n)" by simp
  show "comps (Join [d, n]) = comps d @ [n]"
    using assms d comps_Join2[OF d, of n] by (simp add: J is_name_def)
  show "IsAbs (Join [d, n])" using assms(1) d by (simp add: J IsAbs_append del: Join.simps)
qed

lemma Join_name_below:
  assumes "IsAbs d" "is_name n" "comps d \<noteq> []"
  shows "Join [d, n] = Clean d @ ''/'' @ n"
proof -
  have "Join [d, n] = Clean (Join [d, n])" using Join_name(1)[OF assms(1,2)] by simp
  also have "\<dots> = ''/'' @ join_sep ''/'' (comps d @ [n])"
    using Join_name(2,3)[OF assms(1,2)] by (simp add: Clean_abs)
  also have "\<dots> = Clean d @ ''/'' @ n" using assms by (simp add: join_sep_append Clean_abs)
  finally show ?thesis .
qed

end
