(* ===== verification/FlagController.thy ===== *)
theory FlagController
  imports FlagValues KVStore Tuf_Version Filepath
begin

text \<open>
  The flag controller (\<open>ee/agent/flags/flag_controller.go\<close>): command line options, the values the
  control server stores in the agent flags store, temporary overrides, and the observers that are
  told which flags changed.

  The controller is written against the store interface (\<open>KVStore.KVStore\<close>, argument \<open>S\<close>); the laws
  of the interface give the set/get lemmas inside the locale \<open>kv_store\<close>, and the properties are
  their instances for the in-memory store.  The order in which observers are called is the order of
  a Go map range, a seed.  An operation returns the calls of \<open>FlagsChanged\<close> it makes.
\<close>

subsection \<open>State\<close>

text \<open>The command line options (\<open>pkg/launcher/options.go\<close>).\<close>

record Options =
  opt_KolideServerURL :: string
  opt_KolideHosted :: bool
  opt_EnrollSecret :: string
  opt_EnrollSecretPath :: string
  opt_RootDirectory :: string
  opt_OsquerydPath :: string
  opt_OsqueryHealthcheckStartupDelay :: int
  opt_CertPins :: "string list"
  opt_RootPEM :: string
  opt_LoggingInterval :: int
  opt_EnableInitialRunner :: bool
  opt_LogMaxBytesPerBatch :: int
  opt_Control :: bool
  opt_ControlServerURL :: string
  opt_ControlRequestInterval :: int
  opt_Autoupdate :: bool
  opt_TufServerURL :: string
  opt_MirrorServerURL :: string
  opt_AutoupdateInterval :: int
  opt_UpdateChannel :: string
  opt_AutoupdateInitialDelay :: int
  opt_UpdateDirectory :: string
  opt_AutoupdateDownloadSplay :: int
  opt_Debug :: bool
  opt_DebugLogFile :: string
  opt_OsqueryVerbose :: bool
  opt_WatchdogEnabled :: bool
  opt_WatchdogDelaySec :: int
  opt_WatchdogMemoryLimitMB :: int
  opt_WatchdogUtilizationLimitPercent :: int
  opt_OsqueryFlags :: "string list"
  opt_DisableControlTLS :: bool
  opt_InsecureControlTLS :: bool
  opt_InsecureTLS :: bool
  opt_InsecureTransport :: bool
  opt_IAmBreakingEELicense :: bool
  opt_DelayStart :: int
  opt_ExportTraces :: bool
  opt_TraceSamplingRate :: float64
  opt_LogIngestServerURL :: string
  opt_TraceIngestServerURL :: string
  opt_DisableTraceIngestTLS :: bool
  opt_ConfigFilePath :: string
  opt_LocalDevelopmentPath :: string
  opt_Identifier :: string
  opt_OsqueryPublisherURL :: string
  opt_OsqueryPublisherPercentEnabled :: int

definition zero_Options :: Options where
  "zero_Options = \<lparr>
     opt_KolideServerURL = '''',
     opt_KolideHosted = False,
     opt_EnrollSecret = '''',
     opt_EnrollSecretPath = '''',
     opt_RootDirectory = '''',
     opt_OsquerydPath = '''',
     opt_OsqueryHealthcheckStartupDelay = 0,
     opt_CertPins = [],
     opt_RootPEM = '''',
     opt_LoggingInterval = 0,
     opt_EnableInitialRunner = False,
     opt_LogMaxBytesPerBatch = 0,
     opt_Control = False,
     opt_ControlServerURL = '''',
     opt_ControlRequestInterval = 0,
     opt_Autoupdate = False,
     opt_TufServerURL = '''',
     opt_MirrorServerURL = '''',
     opt_AutoupdateInterval = 0,
     opt_UpdateChannel = '''',
     opt_AutoupdateInitialDelay = 0,
     opt_UpdateDirectory = '''',
     opt_AutoupdateDownloadSplay = 0,
     opt_Debug = False,
     opt_DebugLogFile = '''',
     opt_OsqueryVerbose = False,
     opt_WatchdogEnabled = False,
     opt_WatchdogDelaySec = 0,
     opt_WatchdogMemoryLimitMB = 0,
     opt_WatchdogUtilizationLimitPercent = 0,
     opt_OsqueryFlags = [],
     opt_DisableControlTLS = False,
     opt_InsecureControlTLS = False,
     opt_InsecureTLS = False,
     opt_InsecureTransport = False,
     opt_IAmBreakingEELicense = False,
     opt_DelayStart = 0,
     opt_ExportTraces = False,
     opt_TraceSamplingRate = Fin 0,
     opt_LogIngestServerURL = '''',
     opt_TraceIngestServerURL = '''',
     opt_DisableTraceIngestTLS = False,
     opt_ConfigFilePath = '''',
     opt_LocalDevelopmentPath = '''',
     opt_Identifier = '''',
     opt_OsqueryPublisherURL = '''',
     opt_OsqueryPublisherPercentEnabled = 0\<rparr>"

type_synonym 'o notification = "'o \<times> FlagKey list"

record ('s, 'o) FlagController =
  cmdLineOpts :: Options
  agentFlagsStore :: "'s option"
  overrides :: "(FlagKey \<times> Override) list"
  observers :: "('o \<times> FlagKey list) list"

definition NewFlagController ::
  "'s option \<Rightarrow> (('s, 'o) FlagController \<Rightarrow> ('s, 'o) FlagController) list \<Rightarrow>
   ('s, 'o) FlagController" where
  "NewFlagController store opts = fold (\<lambda>opt fc. opt fc) opts
     \<lparr>cmdLineOpts = zero_Options, agentFlagsStore = store, overrides = [], observers = []\<rparr>"

definition WithCmdLineOpts :: "Options \<Rightarrow> ('s, 'o) FlagController \<Rightarrow> ('s, 'o) FlagController" where
  "WithCmdLineOpts opts fc = fc\<lparr>cmdLineOpts := opts\<rparr>"

definition getControlServerValue ::
  "('s, string, 'a) KVStore \<Rightarrow> ('s, 'o) FlagController \<Rightarrow> FlagName \<Rightarrow> string option" where
  "getControlServerValue S fc key =
     (case agentFlagsStore fc of
        None \<Rightarrow> None
      | Some store \<Rightarrow>
          (case kv_Get S store (FlagKey_of key) of Inl err \<Rightarrow> None | Inr val \<Rightarrow> val))"

definition notifyObservers ::
  "nat list \<Rightarrow> ('s, 'o) FlagController \<Rightarrow> FlagKey list \<Rightarrow> 'o notification list" where
  "notifyObservers seed fc flagKeys =
     filter (\<lambda>(observer, changedKeys). length changedKeys > 0)
       (map (\<lambda>(observer, observedKeys). (observer, keys_Intersection observedKeys flagKeys))
         (go_range seed (observers fc)))"

type_synonym ('s, 'o) set_result = "error option \<times> ('s, 'o) FlagController \<times> 'o notification list"

definition setControlServerValue ::
  "('s, string, 'a) KVStore \<Rightarrow> nat list \<Rightarrow> FlagName \<Rightarrow> string \<Rightarrow> ('s, 'o) FlagController \<Rightarrow>
   ('s, 'o) set_result" where
  "setControlServerValue S seed key val fc =
     (case agentFlagsStore fc of
        None \<Rightarrow> (Some (ErrNew ''agentFlagsStore is nil''), fc, [])
      | Some store \<Rightarrow>
          (case kv_Set S store (FlagKey_of key) val of
             Inl err \<Rightarrow> (Some err, fc, [])
           | Inr store' \<Rightarrow>
               let fc' = fc\<lparr>agentFlagsStore := Some store'\<rparr>
               in (None, fc', notifyObservers seed fc' [FlagKey_of key])))"

text \<open>
  \<open>Update\<close> does not check the store: a call on a nil one panics (None).  The changed keys are the
  keys of the map in range order, then the deleted ones; on an error the store's list is nil.
\<close>

definition FlagController_Update ::
  "('s, string, 'a) KVStore \<Rightarrow> nat list \<Rightarrow> nat list \<Rightarrow> (string \<times> string) list \<Rightarrow>
   ('s, 'o) FlagController \<Rightarrow>
   (string list \<times> error option \<times> ('s, 'o) FlagController \<times> 'o notification list) option" where
  "FlagController_Update S kseed seed kvPairs fc =
     (case agentFlagsStore fc of
        None \<Rightarrow> None
      | Some store \<Rightarrow>
          (let (store', res) = kv_Update S store kvPairs;
               fc' = fc\<lparr>agentFlagsStore := Some store'\<rparr>;
               deletedKeys = (case res of Inl _ \<Rightarrow> [] | Inr ds \<Rightarrow> ds);
               updatedKeys = map fst (go_range kseed kvPairs);
               changedKeys = updatedKeys @ deletedKeys
           in Some (changedKeys, (case res of Inl e \<Rightarrow> Some e | Inr _ \<Rightarrow> None), fc',
                    notifyObservers seed fc' (ToFlagKeys changedKeys))))"

definition RegisterChangeObserver ::
  "'o \<Rightarrow> FlagKey list \<Rightarrow> ('s, 'o) FlagController \<Rightarrow> ('s, 'o) FlagController" where
  "RegisterChangeObserver observer flagKeys fc =
     (let old = (case map_of (observers fc) observer of None \<Rightarrow> [] | Some ks \<Rightarrow> ks)
      in fc\<lparr>observers := AList.update observer (old @ flagKeys) (observers fc)\<rparr>)"

definition DeregisterChangeObserver ::
  "'o \<Rightarrow> ('s, 'o) FlagController \<Rightarrow> ('s, 'o) FlagController" where
  "DeregisterChangeObserver observer fc =
     (if map_of (observers fc) observer = None then fc
      else fc\<lparr>observers := AList.delete observer (observers fc)\<rparr>)"

text \<open>
  The callback of an override's timer, and starting an override at time \<open>now\<close>.  None: the restart
  of an override whose timer has fired blocks, holding the override mutex.
\<close>

definition overrideExpired ::
  "nat list \<Rightarrow> FlagKey \<Rightarrow> ('s, 'o) FlagController \<Rightarrow> ('s, 'o) FlagController \<times> 'o notification list" where
  "overrideExpired seed key fc =
     (let fc' = fc\<lparr>overrides := AList.delete key (overrides fc)\<rparr>
      in (fc', notifyObservers seed fc' [key]))"

definition overrideFlag ::
  "nat list \<Rightarrow> int \<Rightarrow> FlagName \<Rightarrow> int \<Rightarrow> anyval \<Rightarrow> ('s, 'o) FlagController \<Rightarrow>
   (('s, 'o) FlagController \<times> 'o notification list) option" where
  "overrideFlag seed now name duration val fc =
     (let key = FlagKey_of name;
          override = (case map_of (overrides fc) key of
              None \<Rightarrow> \<lparr>ov_key = '''', ov_value = None, ov_timer = None\<rparr>
            | Some ov \<Rightarrow>
                if Override_Value (Some ov) = None
                then \<lparr>ov_key = '''', ov_value = None, ov_timer = None\<rparr> else ov)
      in case Override_Start now key val duration override of
           None \<Rightarrow> None
         | Some started \<Rightarrow>
             let fc' = fc\<lparr>overrides := AList.update key started (overrides fc)\<rparr>
             in Some (fc', notifyObservers seed fc' [key]))"

subsection \<open>Setters\<close>

type_synonym ('s, 'a, 'o, 'x) setter =
  "('s, string, 'a) KVStore \<Rightarrow> nat list \<Rightarrow> 'x \<Rightarrow> ('s, 'o) FlagController \<Rightarrow> ('s, 'o) set_result"

definition fc_SetKolideServerURL :: "('s, 'a, 'o, string) setter" where
  "fc_SetKolideServerURL S seed x fc = setControlServerValue S seed KolideServerURL x fc"

definition fc_SetKolideHosted :: "('s, 'a, 'o, bool) setter" where
  "fc_SetKolideHosted S seed x fc = setControlServerValue S seed KolideHosted (boolToBytes x) fc"

definition fc_SetLoggingInterval :: "('s, 'a, 'o, int) setter" where
  "fc_SetLoggingInterval S seed x fc = setControlServerValue S seed LoggingInterval (durationToBytes x) fc"

definition fc_SetDesktopEnabled :: "('s, 'a, 'o, bool) setter" where
  "fc_SetDesktopEnabled S seed x fc = setControlServerValue S seed DesktopEnabled (boolToBytes x) fc"

definition fc_SetDesktopUpdateInterval :: "('s, 'a, 'o, int) setter" where
  "fc_SetDesktopUpdateInterval S seed x fc = setControlServerValue S seed DesktopUpdateInterval (durationToBytes x) fc"

definition fc_SetDesktopMenuRefreshInterval :: "('s, 'a, 'o, int) setter" where
  "fc_SetDesktopMenuRefreshInterval S seed x fc = setControlServerValue S seed DesktopMenuRefreshInterval (durationToBytes x) fc"

definition fc_SetDesktopGoMaxProcs :: "('s, 'a, 'o, int) setter" where
  "fc_SetDesktopGoMaxProcs S seed x fc = setControlServerValue S seed DesktopGoMaxProcs (intToBytes x) fc"

definition fc_SetLauncherGoMaxProcs :: "('s, 'a, 'o, int) setter" where
  "fc_SetLauncherGoMaxProcs S seed x fc = setControlServerValue S seed LauncherGoMaxProcs (intToBytes x) fc"

definition fc_SetDebugServerData :: "('s, 'a, 'o, bool) setter" where
  "fc_SetDebugServerData S seed x fc = setControlServerValue S seed DebugServerData (boolToBytes x) fc"

definition fc_SetForceControlSubsystems :: "('s, 'a, 'o, bool) setter" where
  "fc_SetForceControlSubsystems S seed x fc = setControlServerValue S seed ForceControlSubsystems (boolToBytes x) fc"

definition fc_SetControlServerURL :: "('s, 'a, 'o, string) setter" where
  "fc_SetControlServerURL S seed x fc = setControlServerValue S seed ControlServerURL x fc"

definition fc_SetControlRequestInterval :: "('s, 'a, 'o, int) setter" where
  "fc_SetControlRequestInterval S seed x fc = setControlServerValue S seed ControlRequestInterval (durationToBytes x) fc"

definition fc_SetAllowOverlyBroadDt4aAcceleration :: "('s, 'a, 'o, bool) setter" where
  "fc_SetAllowOverlyBroadDt4aAcceleration S seed x fc = setControlServerValue S seed AllowOverlyBroadDt4aAcceleration (boolToBytes x) fc"

definition fc_SetDisableControlTLS :: "('s, 'a, 'o, bool) setter" where
  "fc_SetDisableControlTLS S seed x fc = setControlServerValue S seed DisableControlTLS (boolToBytes x) fc"

definition fc_SetInsecureControlTLS :: "('s, 'a, 'o, bool) setter" where
  "fc_SetInsecureControlTLS S seed x fc = setControlServerValue S seed InsecureControlTLS (boolToBytes x) fc"

definition fc_SetInsecureTLS :: "('s, 'a, 'o, bool) setter" where
  "fc_SetInsecureTLS S seed x fc = setControlServerValue S seed InsecureTLS (boolToBytes x) fc"

definition fc_SetInsecureTransportTLS :: "('s, 'a, 'o, bool) setter" where
  "fc_SetInsecureTransportTLS S seed x fc = setControlServerValue S seed InsecureTransportTLS (boolToBytes x) fc"

definition fc_SetDebug :: "('s, 'a, 'o, bool) setter" where
  "fc_SetDebug S seed x fc = setControlServerValue S seed Debug (boolToBytes x) fc"

definition fc_SetOsqueryVerbose :: "('s, 'a, 'o, bool) setter" where
  "fc_SetOsqueryVerbose S seed x fc = setControlServerValue S seed OsqueryVerbose (boolToBytes x) fc"

definition fc_SetDistributedForwardingInterval :: "('s, 'a, 'o, int) setter" where
  "fc_SetDistributedForwardingInterval S seed x fc = setControlServerValue S seed DistributedForwardingInterval (durationToBytes x) fc"

definition fc_SetWatchdogEnabled :: "('s, 'a, 'o, bool) setter" where
  "fc_SetWatchdogEnabled S seed x fc = setControlServerValue S seed WatchdogEnabled (boolToBytes x) fc"

definition fc_SetWatchdogDelaySec :: "('s, 'a, 'o, int) setter" where
  "fc_SetWatchdogDelaySec S seed x fc = setControlServerValue S seed WatchdogDelaySec (intToBytes x) fc"

definition fc_SetWatchdogMemoryLimitMB :: "('s, 'a, 'o, int) setter" where
  "fc_SetWatchdogMemoryLimitMB S seed x fc = setControlServerValue S seed WatchdogMemoryLimitMB (intToBytes x) fc"

definition fc_SetWatchdogUtilizationLimitPercent :: "('s, 'a, 'o, int) setter" where
  "fc_SetWatchdogUtilizationLimitPercent S seed x fc = setControlServerValue S seed WatchdogUtilizationLimitPercent (intToBytes x) fc"

definition fc_SetCurrentRunningOsqueryVersion :: "('s, 'a, 'o, string) setter" where
  "fc_SetCurrentRunningOsqueryVersion S seed x fc = setControlServerValue S seed CurrentRunningOsqueryVersion x fc"

definition fc_SetAutoupdate :: "('s, 'a, 'o, bool) setter" where
  "fc_SetAutoupdate S seed x fc = setControlServerValue S seed Autoupdate (boolToBytes x) fc"

definition fc_SetTufServerURL :: "('s, 'a, 'o, string) setter" where
  "fc_SetTufServerURL S seed x fc = setControlServerValue S seed TufServerURL x fc"

definition fc_SetMirrorServerURL :: "('s, 'a, 'o, string) setter" where
  "fc_SetMirrorServerURL S seed x fc = setControlServerValue S seed MirrorServerURL x fc"

definition fc_SetAutoupdateInterval :: "('s, 'a, 'o, int) setter" where
  "fc_SetAutoupdateInterval S seed x fc = setControlServerValue S seed AutoupdateInterval (durationToBytes x) fc"

definition fc_SetUpdateChannel :: "('s, 'a, 'o, string) setter" where
  "fc_SetUpdateChannel S seed x fc = setControlServerValue S seed UpdateChannel x fc"

definition fc_SetAutoupdateInitialDelay :: "('s, 'a, 'o, int) setter" where
  "fc_SetAutoupdateInitialDelay S seed x fc = setControlServerValue S seed AutoupdateInitialDelay (durationToBytes x) fc"

definition fc_SetUpdateDirectory :: "('s, 'a, 'o, string) setter" where
  "fc_SetUpdateDirectory S seed x fc = setControlServerValue S seed UpdateDirectory x fc"

definition fc_SetPinnedLauncherVersion :: "('s, 'a, 'o, string) setter" where
  "fc_SetPinnedLauncherVersion S seed x fc = setControlServerValue S seed PinnedLauncherVersion x fc"

definition fc_SetPinnedOsquerydVersion :: "('s, 'a, 'o, string) setter" where
  "fc_SetPinnedOsquerydVersion S seed x fc = setControlServerValue S seed PinnedOsquerydVersion x fc"

definition fc_SetExportTraces :: "('s, 'a, 'o, bool) setter" where
  "fc_SetExportTraces S seed x fc = setControlServerValue S seed ExportTraces (boolToBytes x) fc"

definition fc_SetLauncherWatchdogDisabled :: "('s, 'a, 'o, bool) setter" where
  "fc_SetLauncherWatchdogDisabled S seed x fc = setControlServerValue S seed LauncherWatchdogDisabled (boolToBytes x) fc"

definition fc_SetSystrayRestartEnabled :: "('s, 'a, 'o, bool) setter" where
  "fc_SetSystrayRestartEnabled S seed x fc = setControlServerValue S seed SystrayRestartEnabled (boolToBytes x) fc"

definition fc_SetTraceSamplingRate :: "float_conv \<Rightarrow> ('s, 'a, 'o, float64) setter" where
  "fc_SetTraceSamplingRate fl S seed x fc = setControlServerValue S seed TraceSamplingRate (float64ToBytes fl x) fc"

definition fc_SetTraceBatchTimeout :: "('s, 'a, 'o, int) setter" where
  "fc_SetTraceBatchTimeout S seed x fc = setControlServerValue S seed TraceBatchTimeout (durationToBytes x) fc"

definition fc_SetLogIngestServerURL :: "('s, 'a, 'o, string) setter" where
  "fc_SetLogIngestServerURL S seed x fc = setControlServerValue S seed LogIngestServerURL x fc"

definition fc_SetLogShippingLevel :: "('s, 'a, 'o, string) setter" where
  "fc_SetLogShippingLevel S seed x fc = setControlServerValue S seed LogShippingLevel x fc"

definition fc_SetTraceIngestServerURL :: "('s, 'a, 'o, string) setter" where
  "fc_SetTraceIngestServerURL S seed x fc = setControlServerValue S seed TraceIngestServerURL x fc"

definition fc_SetDisableTraceIngestTLS :: "('s, 'a, 'o, bool) setter" where
  "fc_SetDisableTraceIngestTLS S seed x fc = setControlServerValue S seed DisableTraceIngestTLS (boolToBytes x) fc"

definition fc_SetInModernStandby :: "('s, 'a, 'o, bool) setter" where
  "fc_SetInModernStandby S seed x fc = setControlServerValue S seed InModernStandby (boolToBytes x) fc"

definition fc_SetOsqueryHealthcheckStartupDelay :: "('s, 'a, 'o, int) setter" where
  "fc_SetOsqueryHealthcheckStartupDelay S seed x fc = setControlServerValue S seed OsqueryHealthcheckStartupDelay (durationToBytes x) fc"

definition fc_SetTableGenerateTimeout :: "('s, 'a, 'o, int) setter" where
  "fc_SetTableGenerateTimeout S seed x fc = setControlServerValue S seed TableGenerateTimeout (durationToBytes x) fc"

definition fc_SetUseCachedDataForScheduledQueries :: "('s, 'a, 'o, bool) setter" where
  "fc_SetUseCachedDataForScheduledQueries S seed x fc = setControlServerValue S seed UseCachedDataForScheduledQueries (boolToBytes x) fc"

definition fc_SetCachedQueryResultsTTL :: "('s, 'a, 'o, int) setter" where
  "fc_SetCachedQueryResultsTTL S seed x fc = setControlServerValue S seed CachedQueryResultsTTL (durationToBytes x) fc"

definition fc_SetResetOnHardwareChangeEnabled :: "('s, 'a, 'o, bool) setter" where
  "fc_SetResetOnHardwareChangeEnabled S seed x fc = setControlServerValue S seed ResetOnHardwareChangeEnabled (boolToBytes x) fc"

definition fc_SetAutoupdateDownloadSplay :: "('s, 'a, 'o, int) setter" where
  "fc_SetAutoupdateDownloadSplay S seed x fc = setControlServerValue S seed AutoupdateDownloadSplay (durationToBytes x) fc"

definition fc_SetPerformanceMonitoringEnabled :: "('s, 'a, 'o, bool) setter" where
  "fc_SetPerformanceMonitoringEnabled S seed x fc = setControlServerValue S seed PerformanceMonitoringEnabled (boolToBytes x) fc"

definition fc_SetDuplicateLogWindow :: "('s, 'a, 'o, int) setter" where
  "fc_SetDuplicateLogWindow S seed x fc = setControlServerValue S seed DuplicateLogWindow (durationToBytes x) fc"

definition fc_SetOsqueryPublisherURL :: "('s, 'a, 'o, string) setter" where
  "fc_SetOsqueryPublisherURL S seed x fc = setControlServerValue S seed OsqueryPublisherURL x fc"

definition fc_SetOsqueryPublisherPercentEnabled :: "('s, 'a, 'o, int) setter" where
  "fc_SetOsqueryPublisherPercentEnabled S seed x fc = setControlServerValue S seed OsqueryPublisherPercentEnabled (intToBytes x) fc"

subsection \<open>Overrides\<close>

definition fc_SetControlRequestIntervalOverride :: "nat list \<Rightarrow> int \<Rightarrow> int \<Rightarrow> int \<Rightarrow> ('s, 'o) FlagController \<Rightarrow>
    (('s, 'o) FlagController \<times> ('o \<times> FlagKey list) list) option" where
  "fc_SetControlRequestIntervalOverride seed now val duration fc = overrideFlag seed now ControlRequestInterval duration (ADuration val) fc"

definition fc_SetDistributedForwardingIntervalOverride :: "nat list \<Rightarrow> int \<Rightarrow> int \<Rightarrow> int \<Rightarrow> ('s, 'o) FlagController \<Rightarrow>
    (('s, 'o) FlagController \<times> ('o \<times> FlagKey list) list) option" where
  "fc_SetDistributedForwardingIntervalOverride seed now val duration fc = overrideFlag seed now DistributedForwardingInterval duration (ADuration val) fc"

definition fc_SetAutoupdateIntervalOverride :: "nat list \<Rightarrow> int \<Rightarrow> int \<Rightarrow> int \<Rightarrow> ('s, 'o) FlagController \<Rightarrow>
    (('s, 'o) FlagController \<times> ('o \<times> FlagKey list) list) option" where
  "fc_SetAutoupdateIntervalOverride seed now val duration fc = overrideFlag seed now AutoupdateInterval duration (ADuration val) fc"

definition fc_SetAutoupdateInitialDelayOverride :: "nat list \<Rightarrow> int \<Rightarrow> int \<Rightarrow> int \<Rightarrow> ('s, 'o) FlagController \<Rightarrow>
    (('s, 'o) FlagController \<times> ('o \<times> FlagKey list) list) option" where
  "fc_SetAutoupdateInitialDelayOverride seed now val duration fc = overrideFlag seed now AutoupdateInitialDelay duration (ADuration val) fc"

definition fc_SetExportTracesOverride :: "nat list \<Rightarrow> int \<Rightarrow> bool \<Rightarrow> int \<Rightarrow> ('s, 'o) FlagController \<Rightarrow>
    (('s, 'o) FlagController \<times> ('o \<times> FlagKey list) list) option" where
  "fc_SetExportTracesOverride seed now val duration fc = overrideFlag seed now ExportTraces duration (ABool val) fc"

definition fc_SetTraceSamplingRateOverride :: "nat list \<Rightarrow> int \<Rightarrow> float64 \<Rightarrow> int \<Rightarrow> ('s, 'o) FlagController \<Rightarrow>
    (('s, 'o) FlagController \<times> ('o \<times> FlagKey list) list) option" where
  "fc_SetTraceSamplingRateOverride seed now val duration fc = overrideFlag seed now TraceSamplingRate duration (AFloat val) fc"

definition fc_SetLogShippingLevelOverride :: "nat list \<Rightarrow> int \<Rightarrow> string \<Rightarrow> int \<Rightarrow> ('s, 'o) FlagController \<Rightarrow>
    (('s, 'o) FlagController \<times> ('o \<times> FlagKey list) list) option" where
  "fc_SetLogShippingLevelOverride seed now val duration fc = overrideFlag seed now LogShippingLevel duration (AString val) fc"

subsection \<open>Getters\<close>

definition fc_KolideServerURL :: "('s, string, 'a) KVStore \<Rightarrow> ('s, 'o) FlagController \<Rightarrow> string" where
  "fc_KolideServerURL S fc =
     stringFlagValue_get (NewStringFlagValue
       [WithDefaultString (opt_KolideServerURL (cmdLineOpts fc))])
       (getControlServerValue S fc KolideServerURL)"

definition fc_KolideHosted :: "('s, string, 'a) KVStore \<Rightarrow> ('s, 'o) FlagController \<Rightarrow> bool" where
  "fc_KolideHosted S fc =
     boolFlagValue_get (NewBoolFlagValue
       [WithDefaultBool (opt_KolideHosted (cmdLineOpts fc))])
       (getControlServerValue S fc KolideHosted)"

definition fc_EnrollSecret :: "('s, 'o) FlagController \<Rightarrow> string" where
  "fc_EnrollSecret fc =
     stringFlagValue_get (NewStringFlagValue
       [WithDefaultString (opt_EnrollSecret (cmdLineOpts fc))])
       None"

definition fc_RootDirectory :: "('s, 'o) FlagController \<Rightarrow> string" where
  "fc_RootDirectory fc =
     stringFlagValue_get (NewStringFlagValue
       [WithDefaultString (opt_RootDirectory (cmdLineOpts fc))])
       None"

definition fc_OsquerydPath :: "('s, 'o) FlagController \<Rightarrow> string" where
  "fc_OsquerydPath fc =
     stringFlagValue_get (NewStringFlagValue
       [WithDefaultString (opt_OsquerydPath (cmdLineOpts fc))])
       None"

definition fc_RootPEM :: "('s, 'o) FlagController \<Rightarrow> string" where
  "fc_RootPEM fc =
     stringFlagValue_get (NewStringFlagValue
       [WithDefaultString (opt_RootPEM (cmdLineOpts fc))])
       None"

definition fc_LoggingInterval :: "float_conv \<Rightarrow> ('s, string, 'a) KVStore \<Rightarrow> ('s, 'o) FlagController \<Rightarrow> int" where
  "fc_LoggingInterval fl S fc =
     durationFlagValue_get fl (NewDurationFlagValue
       [WithDefault (opt_LoggingInterval (cmdLineOpts fc)), WithMin (5 * Second), WithMax (10 * Minute)])
       (getControlServerValue S fc LoggingInterval)"

definition fc_EnableInitialRunner :: "('s, 'o) FlagController \<Rightarrow> bool" where
  "fc_EnableInitialRunner fc =
     boolFlagValue_get (NewBoolFlagValue
       [WithDefaultBool (opt_EnableInitialRunner (cmdLineOpts fc))])
       None"

definition fc_DesktopEnabled :: "('s, string, 'a) KVStore \<Rightarrow> ('s, 'o) FlagController \<Rightarrow> bool" where
  "fc_DesktopEnabled S fc =
     boolFlagValue_get (NewBoolFlagValue
       [WithDefaultBool False])
       (getControlServerValue S fc DesktopEnabled)"

definition fc_DesktopUpdateInterval :: "float_conv \<Rightarrow> ('s, string, 'a) KVStore \<Rightarrow> ('s, 'o) FlagController \<Rightarrow> int" where
  "fc_DesktopUpdateInterval fl S fc =
     durationFlagValue_get fl (NewDurationFlagValue
       [WithDefault (5 * Second), WithMin (5 * Second), WithMax (10 * Minute)])
       (getControlServerValue S fc DesktopUpdateInterval)"

definition fc_DesktopMenuRefreshInterval :: "float_conv \<Rightarrow> ('s, string, 'a) KVStore \<Rightarrow> ('s, 'o) FlagController \<Rightarrow> int" where
  "fc_DesktopMenuRefreshInterval fl S fc =
     durationFlagValue_get fl (NewDurationFlagValue
       [WithDefault (15 * Minute), WithMin (5 * Minute), WithMax (60 * Minute)])
       (getControlServerValue S fc DesktopMenuRefreshInterval)"

definition fc_DesktopGoMaxProcs :: "('s, string, 'a) KVStore \<Rightarrow> ('s, 'o) FlagController \<Rightarrow> int" where
  "fc_DesktopGoMaxProcs S fc =
     intFlagValue_get (NewIntFlagValue
       [WithIntValueDefault 2, WithIntValueMin 0, WithIntValueMax 16])
       (getControlServerValue S fc DesktopGoMaxProcs)"

definition fc_LauncherGoMaxProcs :: "('s, string, 'a) KVStore \<Rightarrow> ('s, 'o) FlagController \<Rightarrow> int" where
  "fc_LauncherGoMaxProcs S fc =
     intFlagValue_get (NewIntFlagValue
       [WithIntValueDefault 8, WithIntValueMin 0, WithIntValueMax 32])
       (getControlServerValue S fc LauncherGoMaxProcs)"

definition fc_DebugServerData :: "('s, string, 'a) KVStore \<Rightarrow> ('s, 'o) FlagController \<Rightarrow> bool" where
  "fc_DebugServerData S fc =
     boolFlagValue_get (NewBoolFlagValue
       [WithDefaultBool False])
       (getControlServerValue S fc DebugServerData)"

definition fc_ForceControlSubsystems :: "('s, string, 'a) KVStore \<Rightarrow> ('s, 'o) FlagController \<Rightarrow> bool" where
  "fc_ForceControlSubsystems S fc =
     boolFlagValue_get (NewBoolFlagValue
       [WithDefaultBool False])
       (getControlServerValue S fc ForceControlSubsystems)"

definition fc_ControlServerURL :: "('s, string, 'a) KVStore \<Rightarrow> ('s, 'o) FlagController \<Rightarrow> string" where
  "fc_ControlServerURL S fc =
     stringFlagValue_get (NewStringFlagValue
       [WithDefaultString (opt_ControlServerURL (cmdLineOpts fc))])
       (getControlServerValue S fc ControlServerURL)"

definition fc_ControlRequestInterval :: "float_conv \<Rightarrow> ('s, string, 'a) KVStore \<Rightarrow> ('s, 'o) FlagController \<Rightarrow> int" where
  "fc_ControlRequestInterval fl S fc =
     durationFlagValue_get fl (NewDurationFlagValue
       [WithOverride (map_of (overrides fc) (FlagKey_of ControlRequestInterval)), WithDefault (opt_ControlRequestInterval (cmdLineOpts fc)), WithMin (5 * Second), WithMax (10 * Minute)])
       (getControlServerValue S fc ControlRequestInterval)"

definition fc_AllowOverlyBroadDt4aAcceleration :: "('s, string, 'a) KVStore \<Rightarrow> ('s, 'o) FlagController \<Rightarrow> bool" where
  "fc_AllowOverlyBroadDt4aAcceleration S fc =
     boolFlagValue_get (NewBoolFlagValue
       [WithDefaultBool False])
       (getControlServerValue S fc AllowOverlyBroadDt4aAcceleration)"

definition fc_DisableControlTLS :: "('s, string, 'a) KVStore \<Rightarrow> ('s, 'o) FlagController \<Rightarrow> bool" where
  "fc_DisableControlTLS S fc =
     boolFlagValue_get (NewBoolFlagValue
       [WithDefaultBool (opt_DisableControlTLS (cmdLineOpts fc))])
       (getControlServerValue S fc DisableControlTLS)"

definition fc_InsecureControlTLS :: "('s, string, 'a) KVStore \<Rightarrow> ('s, 'o) FlagController \<Rightarrow> bool" where
  "fc_InsecureControlTLS S fc =
     boolFlagValue_get (NewBoolFlagValue
       [WithDefaultBool (opt_InsecureControlTLS (cmdLineOpts fc))])
       (getControlServerValue S fc InsecureControlTLS)"

definition fc_InsecureTLS :: "('s, string, 'a) KVStore \<Rightarrow> ('s, 'o) FlagController \<Rightarrow> bool" where
  "fc_InsecureTLS S fc =
     boolFlagValue_get (NewBoolFlagValue
       [WithDefaultBool (opt_InsecureTLS (cmdLineOpts fc))])
       (getControlServerValue S fc InsecureTLS)"

definition fc_InsecureTransportTLS :: "('s, string, 'a) KVStore \<Rightarrow> ('s, 'o) FlagController \<Rightarrow> bool" where
  "fc_InsecureTransportTLS S fc =
     boolFlagValue_get (NewBoolFlagValue
       [WithDefaultBool (opt_InsecureTransport (cmdLineOpts fc))])
       (getControlServerValue S fc InsecureTransportTLS)"

definition fc_IAmBreakingEELicense :: "('s, string, 'a) KVStore \<Rightarrow> ('s, 'o) FlagController \<Rightarrow> bool" where
  "fc_IAmBreakingEELicense S fc =
     boolFlagValue_get (NewBoolFlagValue
       [WithDefaultBool (opt_IAmBreakingEELicense (cmdLineOpts fc))])
       (getControlServerValue S fc IAmBreakingEELicense)"

definition fc_Debug :: "('s, string, 'a) KVStore \<Rightarrow> ('s, 'o) FlagController \<Rightarrow> bool" where
  "fc_Debug S fc =
     boolFlagValue_get (NewBoolFlagValue
       [WithDefaultBool (opt_Debug (cmdLineOpts fc))])
       (getControlServerValue S fc Debug)"

definition fc_DebugLogFile :: "('s, string, 'a) KVStore \<Rightarrow> ('s, 'o) FlagController \<Rightarrow> string" where
  "fc_DebugLogFile S fc =
     stringFlagValue_get (NewStringFlagValue
       [WithDefaultString (opt_DebugLogFile (cmdLineOpts fc))])
       (getControlServerValue S fc DebugLogFile)"

definition fc_OsqueryVerbose :: "('s, string, 'a) KVStore \<Rightarrow> ('s, 'o) FlagController \<Rightarrow> bool" where
  "fc_OsqueryVerbose S fc =
     boolFlagValue_get (NewBoolFlagValue
       [WithDefaultBool (opt_OsqueryVerbose (cmdLineOpts fc))])
       (getControlServerValue S fc OsqueryVerbose)"

definition fc_DistributedForwardingInterval :: "float_conv \<Rightarrow> ('s, string, 'a) KVStore \<Rightarrow> ('s, 'o) FlagController \<Rightarrow> int" where
  "fc_DistributedForwardingInterval fl S fc =
     durationFlagValue_get fl (NewDurationFlagValue
       [WithOverride (map_of (overrides fc) (FlagKey_of DistributedForwardingInterval)), WithDefault (1 * Minute), WithMin (5 * Second), WithMax (5 * Minute)])
       (getControlServerValue S fc DistributedForwardingInterval)"

definition fc_WatchdogEnabled :: "('s, string, 'a) KVStore \<Rightarrow> ('s, 'o) FlagController \<Rightarrow> bool" where
  "fc_WatchdogEnabled S fc =
     boolFlagValue_get (NewBoolFlagValue
       [WithDefaultBool (opt_WatchdogEnabled (cmdLineOpts fc))])
       (getControlServerValue S fc WatchdogEnabled)"

definition fc_WatchdogDelaySec :: "('s, string, 'a) KVStore \<Rightarrow> ('s, 'o) FlagController \<Rightarrow> int" where
  "fc_WatchdogDelaySec S fc =
     intFlagValue_get (NewIntFlagValue
       [WithIntValueDefault (opt_WatchdogDelaySec (cmdLineOpts fc)), WithIntValueMin 0, WithIntValueMax 600])
       (getControlServerValue S fc WatchdogDelaySec)"

definition fc_WatchdogMemoryLimitMB :: "('s, string, 'a) KVStore \<Rightarrow> ('s, 'o) FlagController \<Rightarrow> int" where
  "fc_WatchdogMemoryLimitMB S fc =
     intFlagValue_get (NewIntFlagValue
       [WithIntValueDefault (opt_WatchdogMemoryLimitMB (cmdLineOpts fc)), WithIntValueMin 100, WithIntValueMax 10000])
       (getControlServerValue S fc WatchdogMemoryLimitMB)"

definition fc_WatchdogUtilizationLimitPercent :: "('s, string, 'a) KVStore \<Rightarrow> ('s, 'o) FlagController \<Rightarrow> int" where
  "fc_WatchdogUtilizationLimitPercent S fc =
     intFlagValue_get (NewIntFlagValue
       [WithIntValueDefault (opt_WatchdogUtilizationLimitPercent (cmdLineOpts fc)), WithIntValueMin 5, WithIntValueMax 100])
       (getControlServerValue S fc WatchdogUtilizationLimitPercent)"

definition fc_CurrentRunningOsqueryVersion :: "('s, string, 'a) KVStore \<Rightarrow> ('s, 'o) FlagController \<Rightarrow> string" where
  "fc_CurrentRunningOsqueryVersion S fc =
     stringFlagValue_get (NewStringFlagValue
       [WithDefaultString ''''])
       (getControlServerValue S fc CurrentRunningOsqueryVersion)"

definition fc_Autoupdate :: "('s, string, 'a) KVStore \<Rightarrow> ('s, 'o) FlagController \<Rightarrow> bool" where
  "fc_Autoupdate S fc =
     boolFlagValue_get (NewBoolFlagValue
       [WithDefaultBool (opt_Autoupdate (cmdLineOpts fc))])
       (getControlServerValue S fc Autoupdate)"

definition fc_TufServerURL :: "('s, string, 'a) KVStore \<Rightarrow> ('s, 'o) FlagController \<Rightarrow> string" where
  "fc_TufServerURL S fc =
     stringFlagValue_get (NewStringFlagValue
       [WithDefaultString (opt_TufServerURL (cmdLineOpts fc))])
       (getControlServerValue S fc TufServerURL)"

definition fc_MirrorServerURL :: "('s, string, 'a) KVStore \<Rightarrow> ('s, 'o) FlagController \<Rightarrow> string" where
  "fc_MirrorServerURL S fc =
     stringFlagValue_get (NewStringFlagValue
       [WithDefaultString (opt_MirrorServerURL (cmdLineOpts fc))])
       (getControlServerValue S fc MirrorServerURL)"

definition fc_AutoupdateInterval :: "float_conv \<Rightarrow> ('s, string, 'a) KVStore \<Rightarrow> ('s, 'o) FlagController \<Rightarrow> int" where
  "fc_AutoupdateInterval fl S fc =
     durationFlagValue_get fl (NewDurationFlagValue
       [WithOverride (map_of (overrides fc) (FlagKey_of AutoupdateInterval)), WithDefault (opt_AutoupdateInterval (cmdLineOpts fc)), WithMin (1 * Minute), WithMax (24 * Hour)])
       (getControlServerValue S fc AutoupdateInterval)"

definition fc_AutoupdateInitialDelay :: "float_conv \<Rightarrow> ('s, string, 'a) KVStore \<Rightarrow> ('s, 'o) FlagController \<Rightarrow> int" where
  "fc_AutoupdateInitialDelay fl S fc =
     durationFlagValue_get fl (NewDurationFlagValue
       [WithOverride (map_of (overrides fc) (FlagKey_of AutoupdateInitialDelay)), WithDefault (opt_AutoupdateInitialDelay (cmdLineOpts fc)), WithMin (5 * Second), WithMax (12 * Hour)])
       (getControlServerValue S fc AutoupdateInitialDelay)"

definition fc_UpdateDirectory :: "('s, string, 'a) KVStore \<Rightarrow> ('s, 'o) FlagController \<Rightarrow> string" where
  "fc_UpdateDirectory S fc =
     stringFlagValue_get (NewStringFlagValue
       [WithDefaultString (opt_UpdateDirectory (cmdLineOpts fc))])
       (getControlServerValue S fc UpdateDirectory)"

definition fc_ExportTraces :: "('s, string, 'a) KVStore \<Rightarrow> ('s, 'o) FlagController \<Rightarrow> bool" where
  "fc_ExportTraces S fc =
     boolFlagValue_get (NewBoolFlagValue
       [WithBoolOverride (map_of (overrides fc) (FlagKey_of ExportTraces)), WithDefaultBool (opt_ExportTraces (cmdLineOpts fc))])
       (getControlServerValue S fc ExportTraces)"

definition fc_LauncherWatchdogDisabled :: "('s, string, 'a) KVStore \<Rightarrow> ('s, 'o) FlagController \<Rightarrow> bool" where
  "fc_LauncherWatchdogDisabled S fc =
     boolFlagValue_get (NewBoolFlagValue
       [WithDefaultBool False])
       (getControlServerValue S fc LauncherWatchdogDisabled)"

definition fc_SystrayRestartEnabled :: "('s, string, 'a) KVStore \<Rightarrow> ('s, 'o) FlagController \<Rightarrow> bool" where
  "fc_SystrayRestartEnabled S fc =
     boolFlagValue_get (NewBoolFlagValue
       [WithDefaultBool False])
       (getControlServerValue S fc SystrayRestartEnabled)"

definition fc_TraceSamplingRate :: "float_conv \<Rightarrow> ('s, string, 'a) KVStore \<Rightarrow> ('s, 'o) FlagController \<Rightarrow> float64" where
  "fc_TraceSamplingRate fl S fc =
     float64FlagValue_get fl (NewFloat64FlagValue
       [WithFloat64ValueOverride (map_of (overrides fc) (FlagKey_of TraceSamplingRate)), WithFloat64ValueDefault (opt_TraceSamplingRate (cmdLineOpts fc)), WithFloat64ValueMin (Fin 0), WithFloat64ValueMax (Fin 1)])
       (getControlServerValue S fc TraceSamplingRate)"

definition fc_TraceBatchTimeout :: "float_conv \<Rightarrow> ('s, string, 'a) KVStore \<Rightarrow> ('s, 'o) FlagController \<Rightarrow> int" where
  "fc_TraceBatchTimeout fl S fc =
     durationFlagValue_get fl (NewDurationFlagValue
       [WithDefault (1 * Minute), WithMin (5 * Second), WithMax (1 * Hour)])
       (getControlServerValue S fc TraceBatchTimeout)"

definition fc_LogIngestServerURL :: "('s, string, 'a) KVStore \<Rightarrow> ('s, 'o) FlagController \<Rightarrow> string" where
  "fc_LogIngestServerURL S fc =
     stringFlagValue_get (NewStringFlagValue
       [WithDefaultString (opt_LogIngestServerURL (cmdLineOpts fc))])
       (getControlServerValue S fc LogIngestServerURL)"

definition fc_TraceIngestServerURL :: "('s, string, 'a) KVStore \<Rightarrow> ('s, 'o) FlagController \<Rightarrow> string" where
  "fc_TraceIngestServerURL S fc =
     stringFlagValue_get (NewStringFlagValue
       [WithDefaultString (opt_TraceIngestServerURL (cmdLineOpts fc))])
       (getControlServerValue S fc TraceIngestServerURL)"

definition fc_DisableTraceIngestTLS :: "('s, string, 'a) KVStore \<Rightarrow> ('s, 'o) FlagController \<Rightarrow> bool" where
  "fc_DisableTraceIngestTLS S fc =
     boolFlagValue_get (NewBoolFlagValue
       [WithDefaultBool (opt_DisableTraceIngestTLS (cmdLineOpts fc))])
       (getControlServerValue S fc DisableTraceIngestTLS)"

definition fc_InModernStandby :: "('s, string, 'a) KVStore \<Rightarrow> ('s, 'o) FlagController \<Rightarrow> bool" where
  "fc_InModernStandby S fc =
     boolFlagValue_get (NewBoolFlagValue
       [WithDefaultBool False])
       (getControlServerValue S fc InModernStandby)"

definition fc_OsqueryHealthcheckStartupDelay :: "float_conv \<Rightarrow> ('s, string, 'a) KVStore \<Rightarrow> ('s, 'o) FlagController \<Rightarrow> int" where
  "fc_OsqueryHealthcheckStartupDelay fl S fc =
     durationFlagValue_get fl (NewDurationFlagValue
       [WithDefault (opt_OsqueryHealthcheckStartupDelay (cmdLineOpts fc)), WithMin (0 * Second), WithMax (1 * Hour)])
       (getControlServerValue S fc OsqueryHealthcheckStartupDelay)"

definition fc_LocalDevelopmentPath :: "('s, 'o) FlagController \<Rightarrow> string" where
  "fc_LocalDevelopmentPath fc =
     stringFlagValue_get (NewStringFlagValue
       [WithDefaultString (opt_LocalDevelopmentPath (cmdLineOpts fc))])
       None"

definition fc_TableGenerateTimeout :: "float_conv \<Rightarrow> ('s, string, 'a) KVStore \<Rightarrow> ('s, 'o) FlagController \<Rightarrow> int" where
  "fc_TableGenerateTimeout fl S fc =
     durationFlagValue_get fl (NewDurationFlagValue
       [WithDefault (4 * Minute), WithMin (30 * Second), WithMax (10 * Minute)])
       (getControlServerValue S fc TableGenerateTimeout)"

definition fc_UseCachedDataForScheduledQueries :: "('s, string, 'a) KVStore \<Rightarrow> ('s, 'o) FlagController \<Rightarrow> bool" where
  "fc_UseCachedDataForScheduledQueries S fc =
     boolFlagValue_get (NewBoolFlagValue
       [WithDefaultBool False])
       (getControlServerValue S fc UseCachedDataForScheduledQueries)"

definition fc_CachedQueryResultsTTL :: "float_conv \<Rightarrow> ('s, string, 'a) KVStore \<Rightarrow> ('s, 'o) FlagController \<Rightarrow> int" where
  "fc_CachedQueryResultsTTL fl S fc =
     durationFlagValue_get fl (NewDurationFlagValue
       [WithDefault (6 * Hour), WithMin (90 * Minute), WithMax (72 * Hour)])
       (getControlServerValue S fc CachedQueryResultsTTL)"

definition fc_ResetOnHardwareChangeEnabled :: "('s, string, 'a) KVStore \<Rightarrow> ('s, 'o) FlagController \<Rightarrow> bool" where
  "fc_ResetOnHardwareChangeEnabled S fc =
     boolFlagValue_get (NewBoolFlagValue
       [WithDefaultBool False])
       (getControlServerValue S fc ResetOnHardwareChangeEnabled)"

definition fc_AutoupdateDownloadSplay :: "float_conv \<Rightarrow> ('s, string, 'a) KVStore \<Rightarrow> ('s, 'o) FlagController \<Rightarrow> int" where
  "fc_AutoupdateDownloadSplay fl S fc =
     durationFlagValue_get fl (NewDurationFlagValue
       [WithDefault (opt_AutoupdateDownloadSplay (cmdLineOpts fc)), WithMin (0 * Second), WithMax (72 * Hour)])
       (getControlServerValue S fc AutoupdateDownloadSplay)"

definition fc_PerformanceMonitoringEnabled :: "('s, string, 'a) KVStore \<Rightarrow> ('s, 'o) FlagController \<Rightarrow> bool" where
  "fc_PerformanceMonitoringEnabled S fc =
     boolFlagValue_get (NewBoolFlagValue
       [WithDefaultBool False])
       (getControlServerValue S fc PerformanceMonitoringEnabled)"

definition fc_DuplicateLogWindow :: "float_conv \<Rightarrow> ('s, string, 'a) KVStore \<Rightarrow> ('s, 'o) FlagController \<Rightarrow> int" where
  "fc_DuplicateLogWindow fl S fc =
     durationFlagValue_get fl (NewDurationFlagValue
       [WithDefault (0 * Second), WithMin (0 * Second), WithMax (24 * Hour)])
       (getControlServerValue S fc DuplicateLogWindow)"

definition fc_OsqueryPublisherURL :: "('s, string, 'a) KVStore \<Rightarrow> ('s, 'o) FlagController \<Rightarrow> string" where
  "fc_OsqueryPublisherURL S fc =
     stringFlagValue_get (NewStringFlagValue
       [WithDefaultString (opt_OsqueryPublisherURL (cmdLineOpts fc))])
       (getControlServerValue S fc OsqueryPublisherURL)"

definition fc_OsqueryPublisherPercentEnabled :: "('s, string, 'a) KVStore \<Rightarrow> ('s, 'o) FlagController \<Rightarrow> int" where
  "fc_OsqueryPublisherPercentEnabled S fc =
     intFlagValue_get (NewIntFlagValue
       [WithIntValueDefault (opt_OsqueryPublisherPercentEnabled (cmdLineOpts fc)), WithIntValueMin 0, WithIntValueMax 100])
       (getControlServerValue S fc OsqueryPublisherPercentEnabled)"

text \<open>The getters that are not one flag value.\<close>

definition DefaultLauncherIdentifier :: string where
  "DefaultLauncherIdentifier = ''kolide-k2''"

definition fc_Identifier :: "('s, 'o) FlagController \<Rightarrow> string" where
  "fc_Identifier fc =
     (let identifier = stringFlagValue_get (NewStringFlagValue
            [WithDefaultString (opt_Identifier (cmdLineOpts fc))]) None
      in if TrimSpace identifier = '''' then DefaultLauncherIdentifier else identifier)"

definition fc_EnrollSecretPath :: "bool \<Rightarrow> bool \<Rightarrow> ('s, 'o) FlagController \<Rightarrow> string" where
  "fc_EnrollSecretPath windows rootExists fc =
     (let enrollSecretPath = stringFlagValue_get (NewStringFlagValue
            [WithDefaultString (opt_EnrollSecretPath (cmdLineOpts fc))]) None;
          defaultPath = DefaultPath windows rootExists SecretFile
      in if enrollSecretPath \<noteq> '''' then enrollSecretPath
         else if fc_Identifier fc \<noteq> DefaultLauncherIdentifier
         then ReplaceAll defaultPath DefaultLauncherIdentifier (fc_Identifier fc)
         else defaultPath)"

definition fc_CertPins :: "('s, 'o) FlagController \<Rightarrow> string list" where
  "fc_CertPins fc = opt_CertPins (cmdLineOpts fc)"

definition fc_LogMaxBytesPerBatch :: "('s, 'o) FlagController \<Rightarrow> int" where
  "fc_LogMaxBytesPerBatch fc = opt_LogMaxBytesPerBatch (cmdLineOpts fc)"

definition fc_OsqueryFlags :: "('s, 'o) FlagController \<Rightarrow> string list" where
  "fc_OsqueryFlags fc = opt_OsqueryFlags (cmdLineOpts fc)"

definition SanitizeUpdateChannel :: "string \<Rightarrow> string" where
  "SanitizeUpdateChannel val =
     (if val \<in> {''stable'', ''alpha'', ''beta'', ''nightly''} then val else ''stable'')"

definition fc_UpdateChannel :: "('s, string, 'a) KVStore \<Rightarrow> ('s, 'o) FlagController \<Rightarrow> string" where
  "fc_UpdateChannel S fc =
     stringFlagValue_get (NewStringFlagValue
       [WithSanitizer SanitizeUpdateChannel,
        WithDefaultString (opt_UpdateChannel (cmdLineOpts fc))])
       (getControlServerValue S fc UpdateChannel)"

definition fc_PinnedLauncherVersion ::
  "'v semver \<Rightarrow> ('s, string, 'a) KVStore \<Rightarrow> ('s, 'o) FlagController \<Rightarrow> string" where
  "fc_PinnedLauncherVersion sv S fc =
     stringFlagValue_get (NewStringFlagValue
       [WithOverrideString (map_of (overrides fc) (FlagKey_of PinnedLauncherVersion)),
        WithDefaultString '''', WithSanitizer (SanitizePinnedVersion sv binaryLauncher)])
       (getControlServerValue S fc PinnedLauncherVersion)"

definition fc_PinnedOsquerydVersion ::
  "'v semver \<Rightarrow> ('s, string, 'a) KVStore \<Rightarrow> ('s, 'o) FlagController \<Rightarrow> string" where
  "fc_PinnedOsquerydVersion sv S fc =
     stringFlagValue_get (NewStringFlagValue
       [WithOverrideString (map_of (overrides fc) (FlagKey_of PinnedOsquerydVersion)),
        WithDefaultString '''', WithSanitizer (SanitizePinnedVersion sv binaryOsqueryd)])
       (getControlServerValue S fc PinnedOsquerydVersion)"

definition sanitize_log_level :: "string \<Rightarrow> string" where
  "sanitize_log_level val =
     (let val = ToLower val
      in if val \<in> {''debug'', ''warn'', ''info'', ''error''} then val else ''info'')"

definition fc_LogShippingLevel :: "('s, string, 'a) KVStore \<Rightarrow> ('s, 'o) FlagController \<Rightarrow> string" where
  "fc_LogShippingLevel S fc =
     stringFlagValue_get (NewStringFlagValue
       [WithOverrideString (map_of (overrides fc) (FlagKey_of LogShippingLevel)),
        WithDefaultString ''info'', WithSanitizer sanitize_log_level])
       (getControlServerValue S fc LogShippingLevel)"

subsection \<open>Keys are distinct\<close>

lemma FlagKey_of_nonblank [simp]: "FlagKey_of k \<noteq> ''''"
  by (cases k) simp_all

definition all_FlagNames :: "FlagName list" where
  "all_FlagNames = [
      KolideServerURL, KolideHosted, LoggingInterval, OsquerydPath, OsqueryHealthcheckStartupDelay,
      FlagName.RootDirectory, RootPEM, DesktopEnabled, DesktopUpdateInterval, DesktopMenuRefreshInterval,
      DesktopGoMaxProcs, LauncherGoMaxProcs, DebugServerData, ForceControlSubsystems, ControlServerURL,
      ControlRequestInterval, AllowOverlyBroadDt4aAcceleration, DisableControlTLS, InsecureControlTLS, InsecureTLS,
      InsecureTransportTLS, IAmBreakingEELicense, Debug, DebugLogFile, OsqueryVerbose,
      DistributedForwardingInterval, WatchdogEnabled, WatchdogDelaySec, WatchdogMemoryLimitMB, WatchdogUtilizationLimitPercent,
      Autoupdate, TufServerURL, MirrorServerURL, AutoupdateInterval, UpdateChannel,
      AutoupdateInitialDelay, AutoupdateDownloadSplay, UpdateDirectory, PinnedLauncherVersion, PinnedOsquerydVersion,
      ExportTraces, TraceSamplingRate, TraceBatchTimeout, LogIngestServerURL, LogShippingLevel,
      TraceIngestServerURL, DisableTraceIngestTLS, InModernStandby, LocalDevelopmentPath, LauncherWatchdogDisabled,
      SystrayRestartEnabled, CurrentRunningOsqueryVersion, TableGenerateTimeout, UseCachedDataForScheduledQueries, CachedQueryResultsTTL,
      ResetOnHardwareChangeEnabled, PerformanceMonitoringEnabled, DuplicateLogWindow, OsqueryPublisherURL, OsqueryPublisherPercentEnabled]"

lemma in_all_FlagNames: "k \<in> set all_FlagNames"
  by (cases k) (simp_all add: all_FlagNames_def)

lemma distinct_FlagKeys: "distinct (map FlagKey_of all_FlagNames)"
  unfolding all_FlagNames_def by code_simp

lemma FlagKey_of_eq [simp]: "FlagKey_of j = FlagKey_of k \<longleftrightarrow> j = k"
  using distinct_FlagKeys in_all_FlagNames by (auto simp: distinct_map inj_on_def)

lemmas getter_defs =
  fc_KolideServerURL_def fc_KolideHosted_def fc_EnrollSecret_def fc_RootDirectory_def
  fc_OsquerydPath_def fc_RootPEM_def fc_LoggingInterval_def fc_EnableInitialRunner_def
  fc_DesktopEnabled_def fc_DesktopUpdateInterval_def fc_DesktopMenuRefreshInterval_def
  fc_DesktopGoMaxProcs_def fc_LauncherGoMaxProcs_def fc_DebugServerData_def
  fc_ForceControlSubsystems_def fc_ControlServerURL_def fc_ControlRequestInterval_def
  fc_AllowOverlyBroadDt4aAcceleration_def fc_DisableControlTLS_def fc_InsecureControlTLS_def
  fc_InsecureTLS_def fc_InsecureTransportTLS_def fc_IAmBreakingEELicense_def fc_Debug_def
  fc_DebugLogFile_def fc_OsqueryVerbose_def fc_DistributedForwardingInterval_def
  fc_WatchdogEnabled_def fc_WatchdogDelaySec_def fc_WatchdogMemoryLimitMB_def
  fc_WatchdogUtilizationLimitPercent_def fc_CurrentRunningOsqueryVersion_def fc_Autoupdate_def
  fc_TufServerURL_def fc_MirrorServerURL_def fc_AutoupdateInterval_def
  fc_AutoupdateInitialDelay_def fc_UpdateDirectory_def fc_ExportTraces_def
  fc_LauncherWatchdogDisabled_def fc_SystrayRestartEnabled_def fc_TraceSamplingRate_def
  fc_TraceBatchTimeout_def fc_LogIngestServerURL_def fc_TraceIngestServerURL_def
  fc_DisableTraceIngestTLS_def fc_InModernStandby_def fc_OsqueryHealthcheckStartupDelay_def
  fc_LocalDevelopmentPath_def fc_TableGenerateTimeout_def fc_UseCachedDataForScheduledQueries_def
  fc_CachedQueryResultsTTL_def fc_ResetOnHardwareChangeEnabled_def fc_AutoupdateDownloadSplay_def
  fc_PerformanceMonitoringEnabled_def fc_DuplicateLogWindow_def fc_OsqueryPublisherURL_def
  fc_OsqueryPublisherPercentEnabled_def

lemmas setter_defs =
  fc_SetKolideServerURL_def fc_SetKolideHosted_def fc_SetLoggingInterval_def
  fc_SetDesktopEnabled_def fc_SetDesktopUpdateInterval_def fc_SetDesktopMenuRefreshInterval_def
  fc_SetDesktopGoMaxProcs_def fc_SetLauncherGoMaxProcs_def fc_SetDebugServerData_def
  fc_SetForceControlSubsystems_def fc_SetControlServerURL_def fc_SetControlRequestInterval_def
  fc_SetAllowOverlyBroadDt4aAcceleration_def fc_SetDisableControlTLS_def
  fc_SetInsecureControlTLS_def fc_SetInsecureTLS_def fc_SetInsecureTransportTLS_def
  fc_SetDebug_def fc_SetOsqueryVerbose_def fc_SetDistributedForwardingInterval_def
  fc_SetWatchdogEnabled_def fc_SetWatchdogDelaySec_def fc_SetWatchdogMemoryLimitMB_def
  fc_SetWatchdogUtilizationLimitPercent_def fc_SetCurrentRunningOsqueryVersion_def
  fc_SetAutoupdate_def fc_SetTufServerURL_def fc_SetMirrorServerURL_def
  fc_SetAutoupdateInterval_def fc_SetUpdateChannel_def fc_SetAutoupdateInitialDelay_def
  fc_SetUpdateDirectory_def fc_SetPinnedLauncherVersion_def fc_SetPinnedOsquerydVersion_def
  fc_SetExportTraces_def fc_SetLauncherWatchdogDisabled_def fc_SetSystrayRestartEnabled_def
  fc_SetTraceSamplingRate_def fc_SetTraceBatchTimeout_def fc_SetLogIngestServerURL_def
  fc_SetLogShippingLevel_def fc_SetTraceIngestServerURL_def fc_SetDisableTraceIngestTLS_def
  fc_SetInModernStandby_def fc_SetOsqueryHealthcheckStartupDelay_def
  fc_SetTableGenerateTimeout_def fc_SetUseCachedDataForScheduledQueries_def
  fc_SetCachedQueryResultsTTL_def fc_SetResetOnHardwareChangeEnabled_def
  fc_SetAutoupdateDownloadSplay_def fc_SetPerformanceMonitoringEnabled_def
  fc_SetDuplicateLogWindow_def fc_SetOsqueryPublisherURL_def
  fc_SetOsqueryPublisherPercentEnabled_def

subsection \<open>Setting and reading\<close>

text \<open>The agent flags store holds strings; what its contract gives the controller.\<close>

locale flag_store = kv_store S lookup inv
  for S :: "('s, string, 'acc) KVStore"
    and lookup :: "'s \<Rightarrow> string \<Rightarrow> string option"
    and inv :: "'s \<Rightarrow> bool"
begin

lemma set_control_server_value:
  assumes "agentFlagsStore fc = Some s" and "inv s"
  shows "\<exists>s'. setControlServerValue S seed key v fc
      = (None, fc\<lparr>agentFlagsStore := Some s'\<rparr>,
         notifyObservers seed (fc\<lparr>agentFlagsStore := Some s'\<rparr>) [FlagKey_of key])
    \<and> inv s' \<and> lookup s' = (lookup s)(FlagKey_of key \<mapsto> v)"
proof -
  obtain s' where "kv_Set S s (FlagKey_of key) v = Inr s'" "inv s'"
    "lookup s' = (lookup s)(FlagKey_of key \<mapsto> v)"
    using set_ok[OF assms(2) FlagKey_of_nonblank, of key v] by blast
  then show ?thesis using assms(1) by (auto simp: setControlServerValue_def Let_def)
qed

lemma get_control_server_value:
  "agentFlagsStore fc = Some s \<Longrightarrow> inv s \<Longrightarrow> getControlServerValue S fc k = lookup s (FlagKey_of k)"
  using get_ok by (simp add: getControlServerValue_def)

lemma set_get:
  assumes "agentFlagsStore fc = Some s" and "inv s"
  shows "getControlServerValue S (fst (snd (setControlServerValue S seed key v fc))) k
     = (if k = key then Some v else getControlServerValue S fc k)"
proof -
  from set_control_server_value[OF assms, of seed key v] obtain s' where
    s': "setControlServerValue S seed key v fc
      = (None, fc\<lparr>agentFlagsStore := Some s'\<rparr>,
         notifyObservers seed (fc\<lparr>agentFlagsStore := Some s'\<rparr>) [FlagKey_of key])"
    "inv s'" "lookup s' = (lookup s)(FlagKey_of key \<mapsto> v)"
    by blast
  from get_control_server_value[of "fc\<lparr>agentFlagsStore := Some s'\<rparr>" s' k] s'
    get_control_server_value[OF assms, of k]
  show ?thesis by simp
qed

lemma set_keeps:
  assumes "agentFlagsStore fc = Some s" and "inv s"
  shows "overrides (fst (snd (setControlServerValue S seed key v fc))) = overrides fc
    \<and> cmdLineOpts (fst (snd (setControlServerValue S seed key v fc))) = cmdLineOpts fc
    \<and> observers (fst (snd (setControlServerValue S seed key v fc))) = observers fc"
  using set_control_server_value[OF assms, of seed key v] by auto

end

interpretation inmem_flags: flag_store "inmem_KVStore rseed" inmem_lookup inmem_inv for rseed
  by unfold_locales

subsection \<open>Observers\<close>

definition observers_wf :: "('s, 'o) FlagController \<Rightarrow> bool" where
  "observers_wf fc = distinct (map fst (observers fc))"

lemma observers_wf_ops [inv_intros]:
  "observers_wf (NewFlagController st [])"
  "observers_wf fc \<Longrightarrow> observers_wf (RegisterChangeObserver ob ks fc)"
  "observers_wf fc \<Longrightarrow> observers_wf (DeregisterChangeObserver ob fc)"
  by (auto simp: observers_wf_def NewFlagController_def RegisterChangeObserver_def
      DeregisterChangeObserver_def distinct_update distinct_delete Let_def)

lemma map_of_filter_pairs:
  "distinct (map fst ps) \<Longrightarrow>
   map_of (filter (\<lambda>(k, v). P v) (map (\<lambda>(k, v). (k, f v)) ps)) k
   = (case map_of ps k of None \<Rightarrow> None | Some v \<Rightarrow> if P (f v) then Some (f v) else None)"
proof (induction ps)
  case (Cons p ps)
  obtain j v where p: "p = (j, v)" by force
  with Cons.prems have "map_of ps j = None" by (simp add: map_of_eq_None_iff)
  with Cons p show ?case by auto
qed simp

lemma map_of_notifyObservers:
  assumes "observers_wf fc"
  shows "map_of (notifyObservers seed fc ks) ob =
    (case map_of (observers fc) ob of None \<Rightarrow> None
     | Some obs \<Rightarrow> if filter (\<lambda>k. k \<in> set obs) ks = [] then None
                   else Some (filter (\<lambda>k. k \<in> set obs) ks))"
  unfolding notifyObservers_def
  using assms
  by (subst map_of_filter_pairs) (auto simp: observers_wf_def keys_Intersection_filter
      split: option.splits)

lemma distinct_notifyObservers:
  assumes "observers_wf fc"
  shows "distinct (map fst (notifyObservers seed fc ks))"
proof -
  have "distinct (map fst (filter P (map (\<lambda>(k, v). (k, f v)) ps)))"
    if "distinct (map fst ps)" for P and f :: "FlagKey list \<Rightarrow> FlagKey list" and ps :: "('b \<times> FlagKey list) list"
    using that by (induction ps) (auto simp: image_iff)
  with assms show ?thesis by (simp add: notifyObservers_def observers_wf_def)
qed

subsection \<open>Flag values of the getters\<close>

lemmas flag_get_defs = getter_defs flag_option_defs Let_def durationFlagValue_get_def
  intFlagValue_get_def boolFlagValue_get_def stringFlagValue_get_def float64FlagValue_get_def

lemma trace_sampling_rate_bounds:
  "fc_TraceSamplingRate fl S fc = NaN \<or>
   (\<exists>q. fc_TraceSamplingRate fl S fc = Fin q \<and> 0 \<le> q \<and> q \<le> 1)"
proof -
  obtain v where v: "fc_TraceSamplingRate fl S fc = clampFloat64Value v (Fin 0) (Fin 1)"
    by (simp add: flag_get_defs)
  show ?thesis
    by (cases "v = NaN") (use v clampFloat64Value_bounds[of v 0 1] in auto)
qed

lemma sanitized_strings:
  "SanitizeUpdateChannel v \<in> {''stable'', ''alpha'', ''beta'', ''nightly''}"
  "sanitize_log_level v \<in> {''debug'', ''warn'', ''info'', ''error''}"
  by (simp_all add: SanitizeUpdateChannel_def sanitize_log_level_def Let_def)

text \<open>The controller a setter leaves.\<close>

definition after_set :: "('s, 'o) set_result \<Rightarrow> ('s, 'o) FlagController" where
  "after_set r = fst (snd r)"

lemmas inmem_set_get = inmem_flags.set_get[folded after_set_def]
lemmas inmem_set_keeps = inmem_flags.set_keeps[folded after_set_def]

text \<open>The value of the active override of a flag, if there is one.\<close>

definition override_of :: "('s, 'o) FlagController \<Rightarrow> FlagName \<Rightarrow> anyval option" where
  "override_of fc name = Override_Value (map_of (overrides fc) (FlagKey_of name))"

lemmas string_flag_defs =
  fc_UpdateChannel_def fc_LogShippingLevel_def fc_PinnedLauncherVersion_def fc_PinnedOsquerydVersion_def

subsection \<open>Properties\<close>

text \<open>C12: every numeric flag that has bounds is within them, whatever the control server stored (text
  that does not parse included), whatever override is active and whatever the command line said.
  The sampling rate is within 0 and 1 unless it is not a number; the update channel and the log
  level are always one of the known ones.\<close>

theorem flags_within_bounds:
  "5 * Second \<le> fc_LoggingInterval fl S fc \<and> fc_LoggingInterval fl S fc \<le> 10 * Minute
   \<and> 5 * Second \<le> fc_DesktopUpdateInterval fl S fc \<and> fc_DesktopUpdateInterval fl S fc \<le> 10 * Minute
   \<and> 5 * Minute \<le> fc_DesktopMenuRefreshInterval fl S fc \<and> fc_DesktopMenuRefreshInterval fl S fc \<le> 60 * Minute
   \<and> 0 \<le> fc_DesktopGoMaxProcs S fc \<and> fc_DesktopGoMaxProcs S fc \<le> 16
   \<and> 0 \<le> fc_LauncherGoMaxProcs S fc \<and> fc_LauncherGoMaxProcs S fc \<le> 32
   \<and> 5 * Second \<le> fc_ControlRequestInterval fl S fc \<and> fc_ControlRequestInterval fl S fc \<le> 10 * Minute
   \<and> 5 * Second \<le> fc_DistributedForwardingInterval fl S fc \<and> fc_DistributedForwardingInterval fl S fc \<le> 5 * Minute
   \<and> 0 \<le> fc_WatchdogDelaySec S fc \<and> fc_WatchdogDelaySec S fc \<le> 600
   \<and> 100 \<le> fc_WatchdogMemoryLimitMB S fc \<and> fc_WatchdogMemoryLimitMB S fc \<le> 10000
   \<and> 5 \<le> fc_WatchdogUtilizationLimitPercent S fc \<and> fc_WatchdogUtilizationLimitPercent S fc \<le> 100
   \<and> 1 * Minute \<le> fc_AutoupdateInterval fl S fc \<and> fc_AutoupdateInterval fl S fc \<le> 24 * Hour
   \<and> 5 * Second \<le> fc_AutoupdateInitialDelay fl S fc \<and> fc_AutoupdateInitialDelay fl S fc \<le> 12 * Hour
   \<and> 5 * Second \<le> fc_TraceBatchTimeout fl S fc \<and> fc_TraceBatchTimeout fl S fc \<le> 1 * Hour
   \<and> 0 * Second \<le> fc_OsqueryHealthcheckStartupDelay fl S fc \<and> fc_OsqueryHealthcheckStartupDelay fl S fc \<le> 1 * Hour
   \<and> 30 * Second \<le> fc_TableGenerateTimeout fl S fc \<and> fc_TableGenerateTimeout fl S fc \<le> 10 * Minute
   \<and> 90 * Minute \<le> fc_CachedQueryResultsTTL fl S fc \<and> fc_CachedQueryResultsTTL fl S fc \<le> 72 * Hour
   \<and> 0 * Second \<le> fc_AutoupdateDownloadSplay fl S fc \<and> fc_AutoupdateDownloadSplay fl S fc \<le> 72 * Hour
   \<and> 0 * Second \<le> fc_DuplicateLogWindow fl S fc \<and> fc_DuplicateLogWindow fl S fc \<le> 24 * Hour
   \<and> 0 \<le> fc_OsqueryPublisherPercentEnabled S fc \<and> fc_OsqueryPublisherPercentEnabled S fc \<le> 100
   \<and> (fc_TraceSamplingRate fl S fc = NaN \<or>
        (\<exists>q. fc_TraceSamplingRate fl S fc = Fin q \<and> 0 \<le> q \<and> q \<le> 1))
   \<and> fc_UpdateChannel S fc \<in> {''stable'', ''alpha'', ''beta'', ''nightly''}
   \<and> fc_LogShippingLevel S fc \<in> {''debug'', ''warn'', ''info'', ''error''}"
  by (intro conjI trace_sampling_rate_bounds)
    (simp_all add: getter_defs durationFlagValue_get_def intFlagValue_get_def flag_option_defs
      clampValue_def clampIntValue_def duration_defs Let_def fc_UpdateChannel_def
      fc_LogShippingLevel_def stringFlagValue_get_def sanitized_strings del: insert_iff)

text \<open>C24: what a setter stores is what the getter of that flag returns, for every flag with a setter: the same
  boolean or string, the channel, log level or pinned version the flag's sanitizer makes of it, and the same
  number clamped to the flag's bounds (a duration is stored as a count of nanoseconds, which is read back
  although durations are first parsed as text with units).  For the flags that can be overridden this is
  while no override is active, and for the sampling rate for every number that the library's conversion to
  text and back returns.  The stored values of the other flags do not change.\<close>

theorem flag_set_then_get:
  assumes "agentFlagsStore fc = Some s" and "inmem_inv s"
  shows "let S = inmem_KVStore rs :: (string inmem, string, 'acc) KVStore in
   (\<forall>key v k. getControlServerValue S (after_set (setControlServerValue S seed key v fc)) k
      = (if k = key then Some v else getControlServerValue S fc k))
   \<and> (\<forall>x. fc_KolideHosted S (after_set (fc_SetKolideHosted S seed x fc)) = x
     \<and> fc_DesktopEnabled S (after_set (fc_SetDesktopEnabled S seed x fc)) = x
     \<and> fc_DebugServerData S (after_set (fc_SetDebugServerData S seed x fc)) = x
     \<and> fc_ForceControlSubsystems S (after_set (fc_SetForceControlSubsystems S seed x fc)) = x
     \<and> fc_AllowOverlyBroadDt4aAcceleration S (after_set (fc_SetAllowOverlyBroadDt4aAcceleration S seed x fc)) = x
     \<and> fc_DisableControlTLS S (after_set (fc_SetDisableControlTLS S seed x fc)) = x
     \<and> fc_InsecureControlTLS S (after_set (fc_SetInsecureControlTLS S seed x fc)) = x
     \<and> fc_InsecureTLS S (after_set (fc_SetInsecureTLS S seed x fc)) = x
     \<and> fc_InsecureTransportTLS S (after_set (fc_SetInsecureTransportTLS S seed x fc)) = x
     \<and> fc_Debug S (after_set (fc_SetDebug S seed x fc)) = x
     \<and> fc_OsqueryVerbose S (after_set (fc_SetOsqueryVerbose S seed x fc)) = x
     \<and> fc_WatchdogEnabled S (after_set (fc_SetWatchdogEnabled S seed x fc)) = x
     \<and> fc_Autoupdate S (after_set (fc_SetAutoupdate S seed x fc)) = x
     \<and> fc_LauncherWatchdogDisabled S (after_set (fc_SetLauncherWatchdogDisabled S seed x fc)) = x
     \<and> fc_SystrayRestartEnabled S (after_set (fc_SetSystrayRestartEnabled S seed x fc)) = x
     \<and> fc_DisableTraceIngestTLS S (after_set (fc_SetDisableTraceIngestTLS S seed x fc)) = x
     \<and> fc_InModernStandby S (after_set (fc_SetInModernStandby S seed x fc)) = x
     \<and> fc_UseCachedDataForScheduledQueries S (after_set (fc_SetUseCachedDataForScheduledQueries S seed x fc)) = x
     \<and> fc_ResetOnHardwareChangeEnabled S (after_set (fc_SetResetOnHardwareChangeEnabled S seed x fc)) = x
     \<and> fc_PerformanceMonitoringEnabled S (after_set (fc_SetPerformanceMonitoringEnabled S seed x fc)) = x)
   \<and> (\<forall>x. fc_KolideServerURL S (after_set (fc_SetKolideServerURL S seed x fc)) = x
     \<and> fc_ControlServerURL S (after_set (fc_SetControlServerURL S seed x fc)) = x
     \<and> fc_CurrentRunningOsqueryVersion S (after_set (fc_SetCurrentRunningOsqueryVersion S seed x fc)) = x
     \<and> fc_TufServerURL S (after_set (fc_SetTufServerURL S seed x fc)) = x
     \<and> fc_MirrorServerURL S (after_set (fc_SetMirrorServerURL S seed x fc)) = x
     \<and> fc_UpdateDirectory S (after_set (fc_SetUpdateDirectory S seed x fc)) = x
     \<and> fc_LogIngestServerURL S (after_set (fc_SetLogIngestServerURL S seed x fc)) = x
     \<and> fc_TraceIngestServerURL S (after_set (fc_SetTraceIngestServerURL S seed x fc)) = x
     \<and> fc_OsqueryPublisherURL S (after_set (fc_SetOsqueryPublisherURL S seed x fc)) = x)
   \<and> (\<forall>x. in_int64 x \<longrightarrow> fc_LoggingInterval fl S (after_set (fc_SetLoggingInterval S seed x fc)) = clampValue x (5 * Second) (10 * Minute)
     \<and> fc_DesktopUpdateInterval fl S (after_set (fc_SetDesktopUpdateInterval S seed x fc)) = clampValue x (5 * Second) (10 * Minute)
     \<and> fc_DesktopMenuRefreshInterval fl S (after_set (fc_SetDesktopMenuRefreshInterval S seed x fc)) = clampValue x (5 * Minute) (60 * Minute)
     \<and> fc_TraceBatchTimeout fl S (after_set (fc_SetTraceBatchTimeout S seed x fc)) = clampValue x (5 * Second) (1 * Hour)
     \<and> fc_OsqueryHealthcheckStartupDelay fl S (after_set (fc_SetOsqueryHealthcheckStartupDelay S seed x fc)) = clampValue x (0 * Second) (1 * Hour)
     \<and> fc_TableGenerateTimeout fl S (after_set (fc_SetTableGenerateTimeout S seed x fc)) = clampValue x (30 * Second) (10 * Minute)
     \<and> fc_CachedQueryResultsTTL fl S (after_set (fc_SetCachedQueryResultsTTL S seed x fc)) = clampValue x (90 * Minute) (72 * Hour)
     \<and> fc_AutoupdateDownloadSplay fl S (after_set (fc_SetAutoupdateDownloadSplay S seed x fc)) = clampValue x (0 * Second) (72 * Hour)
     \<and> fc_DuplicateLogWindow fl S (after_set (fc_SetDuplicateLogWindow S seed x fc)) = clampValue x (0 * Second) (24 * Hour))
   \<and> (\<forall>x. in_int64 x \<longrightarrow> fc_DesktopGoMaxProcs S (after_set (fc_SetDesktopGoMaxProcs S seed x fc)) = clampIntValue x 0 16
     \<and> fc_LauncherGoMaxProcs S (after_set (fc_SetLauncherGoMaxProcs S seed x fc)) = clampIntValue x 0 32
     \<and> fc_WatchdogDelaySec S (after_set (fc_SetWatchdogDelaySec S seed x fc)) = clampIntValue x 0 600
     \<and> fc_WatchdogMemoryLimitMB S (after_set (fc_SetWatchdogMemoryLimitMB S seed x fc)) = clampIntValue x 100 10000
     \<and> fc_WatchdogUtilizationLimitPercent S (after_set (fc_SetWatchdogUtilizationLimitPercent S seed x fc)) = clampIntValue x 5 100
     \<and> fc_OsqueryPublisherPercentEnabled S (after_set (fc_SetOsqueryPublisherPercentEnabled S seed x fc)) = clampIntValue x 0 100)
   \<and> (\<forall>x. fc_UpdateChannel S (after_set (fc_SetUpdateChannel S seed x fc)) = SanitizeUpdateChannel x)
   \<and> (\<forall>x. in_int64 x \<longrightarrow>
       (override_of fc ControlRequestInterval = None \<longrightarrow>
          fc_ControlRequestInterval fl S (after_set (fc_SetControlRequestInterval S seed x fc)) = clampValue x (5 * Second) (10 * Minute))
     \<and> (override_of fc DistributedForwardingInterval = None \<longrightarrow>
          fc_DistributedForwardingInterval fl S (after_set (fc_SetDistributedForwardingInterval S seed x fc)) = clampValue x (5 * Second) (5 * Minute))
     \<and> (override_of fc AutoupdateInterval = None \<longrightarrow>
          fc_AutoupdateInterval fl S (after_set (fc_SetAutoupdateInterval S seed x fc)) = clampValue x (1 * Minute) (24 * Hour))
     \<and> (override_of fc AutoupdateInitialDelay = None \<longrightarrow>
          fc_AutoupdateInitialDelay fl S (after_set (fc_SetAutoupdateInitialDelay S seed x fc)) = clampValue x (5 * Second) (12 * Hour)))
   \<and> (override_of fc ExportTraces = None \<longrightarrow> (\<forall>x. fc_ExportTraces S (after_set (fc_SetExportTraces S seed x fc)) = x))
   \<and> (override_of fc TraceSamplingRate = None \<longrightarrow> (\<forall>x. ParseFloat fl (FormatFloat fl x) = Some x \<longrightarrow>
          fc_TraceSamplingRate fl S (after_set (fc_SetTraceSamplingRate fl S seed x fc)) = clampFloat64Value x (Fin 0) (Fin 1)))
   \<and> (override_of fc LogShippingLevel = None \<longrightarrow>
          (\<forall>x. fc_LogShippingLevel S (after_set (fc_SetLogShippingLevel S seed x fc)) = sanitize_log_level x))
   \<and> (override_of fc PinnedLauncherVersion = None \<longrightarrow>
          (\<forall>x. fc_PinnedLauncherVersion sv S (after_set (fc_SetPinnedLauncherVersion S seed x fc)) = SanitizePinnedVersion sv binaryLauncher x))
   \<and> (override_of fc PinnedOsquerydVersion = None \<longrightarrow>
          (\<forall>x. fc_PinnedOsquerydVersion sv S (after_set (fc_SetPinnedOsquerydVersion S seed x fc)) = SanitizePinnedVersion sv binaryOsqueryd x))"
  unfolding Let_def override_of_def
  by (intro conjI allI impI)
    (simp_all add: flag_get_defs setter_defs string_flag_defs inmem_set_get[OF assms] inmem_set_keeps[OF assms]
      ParseInt_FormatInt intToBytes_def float64ToBytes_def)

definition example_floats :: float_conv where
  "example_floats = \<lparr>fracNanos = (\<lambda>_ _ _. 0),
     ParseFloat = (\<lambda>s. if s = ''NaN'' then Some NaN else if s = ''0'' then Some (Fin 0) else None), FormatFloat = (\<lambda>_. ''0'')\<rparr>"

definition example_controller :: "(string inmem, nat) FlagController" where
  "example_controller = NewFlagController (Some inmem_NewStore) []"

lemma example_controller_store:
  "agentFlagsStore example_controller = Some inmem_NewStore"
  by (simp add: example_controller_def NewFlagController_def)

lemma example_controller_overrides:
  "override_of example_controller name = None"
  by (simp add: override_of_def example_controller_def NewFlagController_def)

theorem flag_set_then_get_witness:
  "let S = inmem_KVStore [] :: (string inmem, string, unit) KVStore in
   agentFlagsStore example_controller = Some inmem_NewStore
   \<and> fc_Debug S (after_set (fc_SetDebug S [] True example_controller))
   \<and> fc_LoggingInterval example_floats S
       (after_set (fc_SetLoggingInterval S [] 1000 example_controller)) = 5000000000
   \<and> fc_AutoupdateInterval example_floats S
       (after_set (fc_SetAutoupdateInterval S [] 0 example_controller)) = 60000000000
   \<and> fc_TraceSamplingRate example_floats S
       (after_set (fc_SetTraceSamplingRate example_floats S [] (Fin 0) example_controller)) = Fin 0"
proof -
  let ?S = "inmem_KVStore [] :: (string inmem, string, unit) KVStore"
  have f: "ParseFloat example_floats (FormatFloat example_floats (Fin 0)) = Some (Fin 0)" by (simp add: example_floats_def)
  have c: "clampFloat64Value (Fin 0) (Fin 0) (Fin 1) = Fin 0" by code_simp
  have i: "in_int64 1000" "in_int64 0" by code_simp+
  note t = flag_set_then_get[OF example_controller_store inmem_wf_NewStore, unfolded Let_def,
      where rs = "[]" and seed = "[]" and fl = example_floats and ?'acc = unit]
  note bools = t[THEN conjunct2, THEN conjunct1, rule_format, of True]
  note durations = t[THEN conjunct2, THEN conjunct2, THEN conjunct2, THEN conjunct1, rule_format, OF i(1)]
  note later = t[THEN conjunct2, THEN conjunct2, THEN conjunct2, THEN conjunct2, THEN conjunct2, THEN conjunct2]
  note overridable = later[THEN conjunct1, rule_format, OF i(2), THEN conjunct2, THEN conjunct2, THEN conjunct1,
      rule_format, OF example_controller_overrides]
  note rate = later[THEN conjunct2, THEN conjunct2, THEN conjunct1, rule_format, OF example_controller_overrides f]
  from bools durations overridable rate show ?thesis
    by (simp add: example_controller_store c clampValue_def duration_defs Let_def)
qed

text \<open>C14: a bulk update replaces the stored flags, and every observer gets at most one call, with exactly
  the updated and deleted keys it registered for; it gets no call when there are none.\<close>

theorem flag_update_notifies_exactly:
  assumes "agentFlagsStore fc = Some s" and "inmem_inv s" and "observers_wf fc"
    and "distinct (map fst kvs)" and "'''' \<notin> fst ` set kvs"
  shows "\<exists>changed fc' calls.
    FlagController_Update (inmem_KVStore rs :: (string inmem, string, 'acc) KVStore) kseed seed kvs fc = Some (changed, None, fc', calls)
    \<and> set changed = fst ` set kvs \<union> dom (inmem_lookup s) \<and> distinct changed
    \<and> (\<forall>k. map_option (\<lambda>st. inmem_lookup st k) (agentFlagsStore fc') = Some (map_of kvs k))
    \<and> distinct (map fst calls)
    \<and> (\<forall>ob ks. map_of calls ob = Some ks \<longleftrightarrow>
         (\<exists>obs. map_of (observers fc) ob = Some obs \<and> ks = filter (\<lambda>k. k \<in> set obs) changed
           \<and> ks \<noteq> []))"
proof -
  from inmem.update_ok[OF assms(2,4,5), of rs, where ?'acc = 'acc] obtain s' dels where
    u: "kv_Update (inmem_KVStore rs :: (string inmem, string, 'acc) KVStore) s kvs = (s', Inr dels)" "inmem_lookup s' = map_of kvs"
      "distinct dels" "set dels = dom (inmem_lookup s) - fst ` set kvs"
    by blast
  define fc' where "fc' = fc\<lparr>agentFlagsStore := Some s'\<rparr>"
  define changed where "changed = map fst (go_range kseed kvs) @ dels"
  have wf: "observers_wf fc'" using assms(3) by (simp add: observers_wf_def fc'_def)
  have "FlagController_Update (inmem_KVStore rs :: (string inmem, string, 'acc) KVStore) kseed seed kvs fc
      = Some (changed, None, fc', notifyObservers seed fc' changed)"
    by (simp add: FlagController_Update_def assms(1) u(1) fc'_def changed_def Let_def)
  moreover have "set changed = fst ` set kvs \<union> dom (inmem_lookup s)" "distinct changed"
    using assms(4) u(3,4) by (auto simp: changed_def distinct_keys_go_range)
  moreover have "observers fc' = observers fc" "agentFlagsStore fc' = Some s'"
    by (simp_all add: fc'_def)
  ultimately show ?thesis
    using distinct_notifyObservers[OF wf] map_of_notifyObservers[OF wf] u(2)
    by (intro exI[of _ changed] exI[of _ fc'] exI[of _ "notifyObservers seed fc' changed"])
      (auto split: option.splits if_splits)
qed

definition observed_controller :: "(string inmem, nat) FlagController" where
  "observed_controller = RegisterChangeObserver 7 [''debug'', ''autoupdate''] example_controller"

lemma observed_controller_facts:
  "agentFlagsStore observed_controller = Some inmem_NewStore"
  "observers_wf observed_controller"
  "map_of (observers observed_controller) 7 = Some [''debug'', ''autoupdate'']"
  by (simp_all add: observed_controller_def observers_wf_ops example_controller_def
      RegisterChangeObserver_def NewFlagController_def observers_wf_def Let_def)

theorem flag_update_notifies_exactly_witness:
  "\<exists>changed fc' calls ks.
    FlagController_Update (inmem_KVStore [] :: (string inmem, string, unit) KVStore) [] []
      [(''debug'', ''enabled''), (''x'', '''')] observed_controller = Some (changed, None, fc', calls)
    \<and> map_of calls 7 = Some ks \<and> set ks = {''debug''}"
proof -
  let ?kvs = "[(''debug'', ''enabled''), (''x'', '''')] :: (string \<times> string) list"
  have kvs: "distinct (map fst ?kvs)" "'''' \<notin> fst ` set ?kvs" by simp_all
  obtain changed fc' calls where u:
    "FlagController_Update (inmem_KVStore [] :: (string inmem, string, unit) KVStore) [] [] ?kvs
       observed_controller = Some (changed, None, fc', calls)"
    "set changed = fst ` set ?kvs \<union> dom (inmem_lookup (inmem_NewStore :: string inmem))"
    "\<forall>ob ks. map_of calls ob = Some ks \<longleftrightarrow>
         (\<exists>obs. map_of (observers observed_controller) ob = Some obs
           \<and> ks = filter (\<lambda>k. k \<in> set obs) changed \<and> ks \<noteq> [])"
    using flag_update_notifies_exactly[OF observed_controller_facts(1) inmem_wf_NewStore
        observed_controller_facts(2) kvs, where rs = "[]" and kseed = "[]" and seed = "[]"
        and ?'acc = unit] by (elim exE conjE) (rule that; assumption)
  define ks where "ks = filter (\<lambda>k. k \<in> set [''debug'', ''autoupdate'']) changed"
  have "set changed = {''debug'', ''x''}"
    using u(2) by (simp add: inmem_lookup_def inmem_NewStore_def)
  then have ks: "set ks = {''debug''}" unfolding ks_def set_filter by auto
  then have "ks \<noteq> []" by (cases ks) simp_all
  then have "map_of calls 7 = Some ks"
    using spec[OF spec[OF u(3), of 7], of ks] observed_controller_facts(3) by (auto simp: ks_def)
  with u(1) ks show ?thesis by (intro exI conjI) simp_all
qed

text \<open>Starting an override on a flag that has none, and its end.\<close>

definition same_but_overrides :: "('s, 'o) FlagController \<Rightarrow> ('s, 'o) FlagController \<Rightarrow> bool" where
  "same_but_overrides fc' fc \<longleftrightarrow> cmdLineOpts fc' = cmdLineOpts fc
     \<and> agentFlagsStore fc' = agentFlagsStore fc \<and> observers fc' = observers fc"

lemma same_but_overridesD:
  assumes "same_but_overrides fc' fc"
  shows "getControlServerValue S fc' k = getControlServerValue S fc k"
    and "observers_wf fc \<Longrightarrow> observers_wf fc'"
    and "notifyObservers seed fc' ks = notifyObservers seed fc ks"
  using assms by (simp_all add: same_but_overrides_def getControlServerValue_def observers_wf_def
      notifyObservers_def)

lemma overrideFlag_fresh:
  assumes "override_of fc name = None"
  shows "\<exists>fc'. overrideFlag seed now name d val fc = Some (fc', notifyObservers seed fc [FlagKey_of name])
    \<and> same_but_overrides fc' fc
    \<and> (\<forall>f. override_of fc' f = (if f = name then Some val else override_of fc f))
    \<and> map_of (overrides fc') (FlagKey_of name)
        = Some \<lparr>ov_key = FlagKey_of name, ov_value = Some val, ov_timer = Some (now + d)\<rparr>"
proof -
  let ?ov = "\<lparr>ov_key = FlagKey_of name, ov_value = Some val, ov_timer = Some (now + d)\<rparr>"
  let ?fc = "fc\<lparr>overrides := AList.update (FlagKey_of name) ?ov (overrides fc)\<rparr>"
  have sm: "same_but_overrides ?fc fc" by (simp add: same_but_overrides_def)
  have "overrideFlag seed now name d val fc = Some (?fc, notifyObservers seed ?fc [FlagKey_of name])"
    using assms by (auto simp: overrideFlag_def override_of_def Override_Start_def Let_def
        split: option.splits)
  then show ?thesis
    using sm by (intro exI[of _ ?fc])
      (simp add: same_but_overridesD(3)[OF sm] override_of_def update_conv')
qed

lemma overrideExpired_ends:
  "\<exists>fc'. overrideExpired seed (FlagKey_of name) fc = (fc', notifyObservers seed fc [FlagKey_of name])
    \<and> same_but_overrides fc' fc
    \<and> (\<forall>f. override_of fc' f = (if f = name then None else override_of fc f))"
proof -
  let ?fc = "fc\<lparr>overrides := AList.delete (FlagKey_of name) (overrides fc)\<rparr>"
  have sm: "same_but_overrides ?fc fc" by (simp add: same_but_overrides_def)
  have "overrideExpired seed (FlagKey_of name) fc = (?fc, notifyObservers seed ?fc [FlagKey_of name])"
    by (simp add: overrideExpired_def Let_def)
  then show ?thesis
    using sm by (intro exI[of _ ?fc])
      (simp add: same_but_overridesD(3)[OF sm] override_of_def delete_conv')
qed

text \<open>The flags that can be overridden read the active override first.\<close>

lemma overridden_getters:
  "override_of fc ControlRequestInterval = Some (ADuration v) \<Longrightarrow>
     fc_ControlRequestInterval fl S fc = clampValue v (5 * Second) (10 * Minute)"
  "override_of fc DistributedForwardingInterval = Some (ADuration v) \<Longrightarrow>
     fc_DistributedForwardingInterval fl S fc = clampValue v (5 * Second) (5 * Minute)"
  "override_of fc AutoupdateInterval = Some (ADuration v) \<Longrightarrow>
     fc_AutoupdateInterval fl S fc = clampValue v Minute (24 * Hour)"
  "override_of fc AutoupdateInitialDelay = Some (ADuration v) \<Longrightarrow>
     fc_AutoupdateInitialDelay fl S fc = clampValue v (5 * Second) (12 * Hour)"
  "override_of fc ExportTraces = Some (ABool b) \<Longrightarrow> fc_ExportTraces S fc = b"
  "override_of fc TraceSamplingRate = Some (AFloat x) \<Longrightarrow>
     fc_TraceSamplingRate fl S fc = clampFloat64Value x (Fin 0) (Fin 1)"
  "override_of fc LogShippingLevel = Some (AString s) \<Longrightarrow>
     fc_LogShippingLevel S fc = sanitize_log_level s"
  by (simp_all add: override_of_def flag_get_defs fc_LogShippingLevel_def)

lemma getters_same:
  assumes "same_but_overrides fc' fc"
  shows "override_of fc' ControlRequestInterval = override_of fc ControlRequestInterval \<Longrightarrow>
     fc_ControlRequestInterval fl S fc' = fc_ControlRequestInterval fl S fc"
   "override_of fc' DistributedForwardingInterval = override_of fc DistributedForwardingInterval \<Longrightarrow>
     fc_DistributedForwardingInterval fl S fc' = fc_DistributedForwardingInterval fl S fc"
   "override_of fc' AutoupdateInterval = override_of fc AutoupdateInterval \<Longrightarrow>
     fc_AutoupdateInterval fl S fc' = fc_AutoupdateInterval fl S fc"
   "override_of fc' AutoupdateInitialDelay = override_of fc AutoupdateInitialDelay \<Longrightarrow>
     fc_AutoupdateInitialDelay fl S fc' = fc_AutoupdateInitialDelay fl S fc"
   "override_of fc' ExportTraces = override_of fc ExportTraces \<Longrightarrow>
     fc_ExportTraces S fc' = fc_ExportTraces S fc"
   "override_of fc' TraceSamplingRate = override_of fc TraceSamplingRate \<Longrightarrow>
     fc_TraceSamplingRate fl S fc' = fc_TraceSamplingRate fl S fc"
   "override_of fc' LogShippingLevel = override_of fc LogShippingLevel \<Longrightarrow>
     fc_LogShippingLevel S fc' = fc_LogShippingLevel S fc"
  using assms
  by (simp_all add: same_but_overridesD(1)[OF assms] same_but_overrides_def override_of_def
      flag_get_defs fc_LogShippingLevel_def parseControlServerValue_def cong: option.case_cong)

text \<open>C25: while an override is active its value wins over the stored value and the default (within the
  flag's bounds), for each of the flags that can be overridden, and the other flags do not change.
  The observers of the flag are told when it starts and when it expires, and after it has expired
  the flags read as if it had never been set.\<close>

theorem override_wins_until_expiry:
  assumes "override_of fc name = None"
  shows "\<exists>fc' fc''.
    overrideFlag seed now name d val fc = Some (fc', notifyObservers seed fc [FlagKey_of name])
    \<and> overrideExpired seed' (FlagKey_of name) fc' = (fc'', notifyObservers seed' fc [FlagKey_of name])
    \<and> (name = ControlRequestInterval \<and> val = ADuration v \<longrightarrow>
         fc_ControlRequestInterval fl S fc' = clampValue v (5 * Second) (10 * Minute))
    \<and> (name = DistributedForwardingInterval \<and> val = ADuration v \<longrightarrow>
         fc_DistributedForwardingInterval fl S fc' = clampValue v (5 * Second) (5 * Minute))
    \<and> (name = AutoupdateInterval \<and> val = ADuration v \<longrightarrow>
         fc_AutoupdateInterval fl S fc' = clampValue v Minute (24 * Hour))
    \<and> (name = AutoupdateInitialDelay \<and> val = ADuration v \<longrightarrow>
         fc_AutoupdateInitialDelay fl S fc' = clampValue v (5 * Second) (12 * Hour))
    \<and> (name = ExportTraces \<and> val = ABool b \<longrightarrow>
         fc_ExportTraces S fc' = b)
    \<and> (name = TraceSamplingRate \<and> val = AFloat x \<longrightarrow>
         fc_TraceSamplingRate fl S fc' = clampFloat64Value x (Fin 0) (Fin 1))
    \<and> (name = LogShippingLevel \<and> val = AString t \<longrightarrow>
         fc_LogShippingLevel S fc' = sanitize_log_level t)
    \<and> (name \<noteq> ControlRequestInterval \<longrightarrow> fc_ControlRequestInterval fl S fc' = fc_ControlRequestInterval fl S fc)
    \<and> (name \<noteq> DistributedForwardingInterval \<longrightarrow> fc_DistributedForwardingInterval fl S fc' = fc_DistributedForwardingInterval fl S fc)
    \<and> (name \<noteq> AutoupdateInterval \<longrightarrow> fc_AutoupdateInterval fl S fc' = fc_AutoupdateInterval fl S fc)
    \<and> (name \<noteq> AutoupdateInitialDelay \<longrightarrow> fc_AutoupdateInitialDelay fl S fc' = fc_AutoupdateInitialDelay fl S fc)
    \<and> (name \<noteq> ExportTraces \<longrightarrow> fc_ExportTraces S fc' = fc_ExportTraces S fc)
    \<and> (name \<noteq> TraceSamplingRate \<longrightarrow> fc_TraceSamplingRate fl S fc' = fc_TraceSamplingRate fl S fc)
    \<and> (name \<noteq> LogShippingLevel \<longrightarrow> fc_LogShippingLevel S fc' = fc_LogShippingLevel S fc)
    \<and> fc_ControlRequestInterval fl S fc'' = fc_ControlRequestInterval fl S fc
    \<and> fc_DistributedForwardingInterval fl S fc'' = fc_DistributedForwardingInterval fl S fc
    \<and> fc_AutoupdateInterval fl S fc'' = fc_AutoupdateInterval fl S fc
    \<and> fc_AutoupdateInitialDelay fl S fc'' = fc_AutoupdateInitialDelay fl S fc
    \<and> fc_ExportTraces S fc'' = fc_ExportTraces S fc
    \<and> fc_TraceSamplingRate fl S fc'' = fc_TraceSamplingRate fl S fc
    \<and> fc_LogShippingLevel S fc'' = fc_LogShippingLevel S fc"
proof -
  obtain fc' where 1: "overrideFlag seed now name d val fc
        = Some (fc', notifyObservers seed fc [FlagKey_of name])"
    "same_but_overrides fc' fc"
    "override_of fc' f = (if f = name then Some val else override_of fc f)" for f
    using overrideFlag_fresh[OF assms, of seed now d val] by blast
  obtain fc'' where 2: "overrideExpired seed' (FlagKey_of name) fc'
        = (fc'', notifyObservers seed' fc' [FlagKey_of name])"
    "same_but_overrides fc'' fc'"
    "override_of fc'' f = (if f = name then None else override_of fc' f)" for f
    using overrideExpired_ends[of seed' name fc'] by blast
  have sm: "same_but_overrides fc'' fc"
    using 1(2) 2(2) by (simp add: same_but_overrides_def)
  have eq: "override_of fc'' f = override_of fc f" for f
    using 1(3) 2(3) assms by simp
  show ?thesis
    by (rule exI[of _ fc'], rule exI[of _ fc''])
      (simp add: 1(1) 2(1) 1(3) same_but_overridesD(3)[OF 1(2)] overridden_getters
        getters_same[OF 1(2)] getters_same[OF sm] eq)
qed

theorem override_wins_until_expiry_witness:
  "\<exists>fc' fc''.
    overrideFlag [] 0 AutoupdateInterval 60 (ADuration 0) example_controller
      = Some (fc', notifyObservers [] example_controller [FlagKey_of AutoupdateInterval])
    \<and> overrideExpired [] (FlagKey_of AutoupdateInterval) fc'
      = (fc'', notifyObservers [] example_controller [FlagKey_of AutoupdateInterval])
    \<and> fc_AutoupdateInterval example_floats (inmem_KVStore [] :: (string inmem, string, unit) KVStore) fc' = Minute"
proof -
  have "override_of example_controller AutoupdateInterval = None"
    by (simp add: override_of_def example_controller_def NewFlagController_def)
  note w = override_wins_until_expiry[OF this, where seed = "[]" and seed' = "[]" and now = 0
      and d = 60 and val = "ADuration 0" and v = 0 and fl = example_floats
      and S = "inmem_KVStore [] :: (string inmem, string, unit) KVStore"]
  have c: "clampValue 0 Minute (24 * Hour) = Minute" by (simp add: clampValue_def duration_defs)
  from w show ?thesis by (auto simp: c)
qed

text \<open>C27: the clamp does not apply to a stored value that is not a number: the sampling rate the agent
  uses is then not a number.\<close>

theorem sampling_rate_can_be_nan:
  assumes "agentFlagsStore fc = Some s" and "inmem_inv s" and "override_of fc TraceSamplingRate = None"
    and "ParseFloat fl ''NaN'' = Some NaN"
    and "setControlServerValue (inmem_KVStore rs :: (string inmem, string, 'acc) KVStore) seed TraceSamplingRate ''NaN'' fc = (err, fc', calls)"
  shows "fc_TraceSamplingRate fl (inmem_KVStore rs :: (string inmem, string, 'acc) KVStore) fc' = NaN"
proof -
  have fc': "fc' = after_set (setControlServerValue (inmem_KVStore rs :: (string inmem, string, 'acc) KVStore) seed TraceSamplingRate ''NaN'' fc)"
    by (simp add: after_set_def assms(5))
  then have "getControlServerValue (inmem_KVStore rs :: (string inmem, string, 'acc) KVStore) fc' TraceSamplingRate = Some ''NaN''"
    by (simp add: inmem_set_get[OF assms(1,2)])
  moreover have "override_of fc' TraceSamplingRate = None"
    using assms(3) by (simp add: override_of_def fc' inmem_set_keeps[OF assms(1,2)])
  ultimately show ?thesis using assms(4)
    by (simp add: fc_TraceSamplingRate_def float64FlagValue_get_def flag_option_defs override_of_def Let_def)
qed

theorem sampling_rate_can_be_nan_witness:
  "\<exists>err fc' calls.
     setControlServerValue (inmem_KVStore [] :: (string inmem, string, unit) KVStore) []
       TraceSamplingRate ''NaN'' example_controller = (err, fc', calls)
     \<and> fc_TraceSamplingRate example_floats
         (inmem_KVStore [] :: (string inmem, string, unit) KVStore) fc' = NaN"
proof -
  obtain err fc' calls where
    set: "setControlServerValue (inmem_KVStore [] :: (string inmem, string, unit) KVStore) []
       TraceSamplingRate ''NaN'' example_controller = (err, fc', calls)"
    by (rule prod_cases3)
  have "ParseFloat example_floats ''NaN'' = Some NaN" by (simp add: example_floats_def)
  then show ?thesis
    using sampling_rate_can_be_nan[OF example_controller_store inmem_wf_NewStore example_controller_overrides _ set] set by blast
qed

end
