(* ===== verification/ActionQueue.thy ===== *)
theory ActionQueue
  imports KVStore Go_Strings
begin

text \<open>
  The action queue of the control service (\<open>ee/control/actionqueue/actionqueue.go\<close>): one-off actions
  sent by the server are run by the actor of their type, at most once, and remembered in a store
  until they are old.

  JSON is the record \<open>codec\<close> of the three conversions the code makes.  An actor is a function of the
  world; \<open>Update\<close> returns, beside its error, the list of actor calls it made.  The clock is read
  twice per action: reading \<open>2 i\<close> for the validity of action \<open>i\<close>, reading \<open>2 i + 1\<close> for its record.
  Times are nanoseconds since the epoch.
\<close>

subsection \<open>Data\<close>

record action =
  action_ID :: string
  ValidUntil :: int
  action_Type :: string
  ProcessedAt :: int

record codec =
  DecodeActions :: "string \<Rightarrow> string list option"
  UnmarshalAction :: "string \<Rightarrow> action option"
  MarshalAction :: "action \<Rightarrow> string option"

type_synonym 'w actor = "'w \<Rightarrow> string \<Rightarrow> 'w \<times> error option"

record ('s, 'w) ActionQueue =
  actors :: "(string \<times> 'w actor) list"
  aq_store :: 's
  oldNotificationsStore :: "'s option"
  actionCleanupInterval :: int
  aq_done :: bool

definition defaultCleanupInterval :: int where
  "defaultCleanupInterval = 12 * 60 * 60 * 1000000000"

definition actionRetentionPeriod :: int where
  "actionRetentionPeriod = 60 * 60 * 1000000000 * 24 * 30 * 6"

text \<open>\<open>time.Time.Unix\<close>: whole seconds.\<close>

definition Unix :: "int \<Rightarrow> int" where
  "Unix t = t div 1000000000"

subsection \<open>Operations\<close>

record 's aq_options =
  opt_store :: "'s option"
  opt_oldNotificationsStore :: "'s option"
  opt_cleanupInterval :: int

definition WithStore :: "'s \<Rightarrow> 's aq_options \<Rightarrow> 's aq_options" where
  "WithStore st o1 = o1\<lparr>opt_store := Some st\<rparr>"

definition WithOldNotificationsStore :: "'s \<Rightarrow> 's aq_options \<Rightarrow> 's aq_options" where
  "WithOldNotificationsStore st o1 = o1\<lparr>opt_oldNotificationsStore := Some st\<rparr>"

definition WithCleanupInterval :: "int \<Rightarrow> 's aq_options \<Rightarrow> 's aq_options" where
  "WithCleanupInterval d o1 = o1\<lparr>opt_cleanupInterval := d\<rparr>"

text \<open>\<open>New\<close> falls back to a fresh in-memory store, here an argument.\<close>

definition ActionQueue_New ::
  "'s \<Rightarrow> ('s aq_options \<Rightarrow> 's aq_options) list \<Rightarrow> ('s, 'w) ActionQueue" where
  "ActionQueue_New fresh opts =
     (let o1 = fold (\<lambda>opt o1. opt o1) opts
            \<lparr>opt_store = None, opt_oldNotificationsStore = None,
             opt_cleanupInterval = defaultCleanupInterval\<rparr>
      in \<lparr>actors = [],
          aq_store = (case opt_store o1 of None \<Rightarrow> fresh | Some st \<Rightarrow> st),
          oldNotificationsStore = opt_oldNotificationsStore o1,
          actionCleanupInterval = opt_cleanupInterval o1,
          aq_done = False\<rparr>)"

definition RegisterActor :: "string \<Rightarrow> 'w actor \<Rightarrow> ('s, 'w) ActionQueue \<Rightarrow> ('s, 'w) ActionQueue" where
  "RegisterActor actorType a aq = aq\<lparr>actors := AList.update actorType a (actors aq)\<rparr>"

definition isActionValid :: "int \<Rightarrow> action \<Rightarrow> bool" where
  "isActionValid now a =
     (if action_ID a = '''' then False
      else if ValidUntil a \<le> 0 then False
      else ValidUntil a > Unix now)"

definition isActionNew :: "('s, string, 'acc) KVStore \<Rightarrow> ('s, 'w) ActionQueue \<Rightarrow> string \<Rightarrow> bool" where
  "isActionNew S aq id1 =
     (case kv_Get S (aq_store aq) id1 of
        Inl err \<Rightarrow> False
      | Inr (Some completedActionRaw) \<Rightarrow> False
      | Inr None \<Rightarrow>
          (case oldNotificationsStore aq of
             None \<Rightarrow> True
           | Some old \<Rightarrow>
               (case kv_Get S old id1 of
                  Inl err \<Rightarrow> False
                | Inr completedActionRaw \<Rightarrow> completedActionRaw = None)))"

definition actorForAction :: "('s, 'w) ActionQueue \<Rightarrow> action \<Rightarrow> error + 'w actor" where
  "actorForAction aq a =
     (if length (actors aq) = 0 then Inl (ErrNew ''no actor registered'')
      else if action_Type a = '''' then Inl (ErrNew ''action does not have type, cannot determine actor'')
      else (case map_of (actors aq) (action_Type a) of
              None \<Rightarrow> Inl (ErrNew (''actor type '' @ action_Type a @ '' not found''))
            | Some act \<Rightarrow> Inr act))"

definition storeActionRecord ::
  "codec \<Rightarrow> ('s, string, 'acc) KVStore \<Rightarrow> action \<Rightarrow> ('s, 'w) ActionQueue \<Rightarrow> ('s, 'w) ActionQueue" where
  "storeActionRecord c S a aq =
     (case MarshalAction c a of
        None \<Rightarrow> aq
      | Some rawAction \<Rightarrow>
          (case kv_Set S (aq_store aq) (action_ID a) rawAction of
             Inl err \<Rightarrow> aq
           | Inr st \<Rightarrow> aq\<lparr>aq_store := st\<rparr>))"

text \<open>
  One pass of the loop of \<open>Update\<close>: the queue, the world, the error to return so far and the calls
  made so far (the action, when it was checked, when it was done and whether it succeeded).
\<close>

record actor_call =
  call_action :: action
  call_checked :: int
  call_done :: int
  call_ok :: bool

type_synonym ('s, 'w) update_state = "('s, 'w) ActionQueue \<times> 'w \<times> error option \<times> actor_call list"

definition Update_action ::
  "codec \<Rightarrow> ('s, string, 'acc) KVStore \<Rightarrow> int \<Rightarrow> int \<Rightarrow> string \<Rightarrow>
   ('s, 'w) update_state \<Rightarrow> ('s, 'w) update_state" where
  "Update_action c S checked finished rawAction st =
     (case st of (aq, w, processError, calls) \<Rightarrow>
       (case UnmarshalAction c rawAction of
          None \<Rightarrow> st
        | Some a \<Rightarrow>
            if \<not> isActionValid checked a \<or> \<not> isActionNew S aq (action_ID a) then st
            else (case actorForAction aq a of
                Inl err \<Rightarrow> st
              | Inr act \<Rightarrow>
                  (case act w rawAction of
                     (w', Some err) \<Rightarrow>
                       (aq, w', Some (ErrWrap (''actor.Do, action type: '' @ action_Type a @ '', failed'') err),
                        calls @ [\<lparr>call_action = a, call_checked = checked, call_done = finished, call_ok = False\<rparr>])
                   | (w', None) \<Rightarrow>
                       (storeActionRecord c S (a\<lparr>ProcessedAt := finished\<rparr>) aq, w', processError,
                        calls @ [\<lparr>call_action = a, call_checked = checked, call_done = finished, call_ok = True\<rparr>])))))"

fun Update_loop ::
  "codec \<Rightarrow> ('s, string, 'acc) KVStore \<Rightarrow> (nat \<Rightarrow> int) \<Rightarrow> nat \<Rightarrow> string list \<Rightarrow>
   ('s, 'w) update_state \<Rightarrow> ('s, 'w) update_state" where
  "Update_loop c S clock i [] st = st"
| "Update_loop c S clock i (rawAction # rest) st =
     Update_loop c S clock (Suc i) rest (Update_action c S (clock (2 * i)) (clock (2 * i + 1)) rawAction st)"

definition ActionQueue_Update ::
  "codec \<Rightarrow> ('s, string, 'acc) KVStore \<Rightarrow> (nat \<Rightarrow> int) \<Rightarrow> string \<Rightarrow>
   ('s, 'w) ActionQueue \<Rightarrow> 'w \<Rightarrow> ('s, 'w) update_state" where
  "ActionQueue_Update c S clock data aq w =
     (case DecodeActions c data of
        None \<Rightarrow> (aq, w, Some (ErrNew ''failed to decode actions data''), [])
      | Some rawActionsToProcess \<Rightarrow> Update_loop c S clock 0 rawActionsToProcess (aq, w, None, []))"

definition cleanup_visit ::
  "codec \<Rightarrow> int \<Rightarrow> string \<Rightarrow> string option \<Rightarrow> string list \<Rightarrow> string list \<times> error option" where
  "cleanup_visit c now k v keysToDelete =
     (case Option.bind v (UnmarshalAction c) of
        None \<Rightarrow> (keysToDelete, Some (ErrNew (''error processing '' @ k)))
      | Some processedAction \<Rightarrow>
          if ProcessedAt processedAction + actionRetentionPeriod < now
          then (keysToDelete @ [k], None) else (keysToDelete, None))"

definition cleanupActions ::
  "codec \<Rightarrow> ('s, string, string list) KVStore \<Rightarrow> int \<Rightarrow> ('s, 'w) ActionQueue \<Rightarrow> ('s, 'w) ActionQueue" where
  "cleanupActions c S now aq =
     (let (keysToDelete, err) = kv_ForEach S (aq_store aq) (cleanup_visit c now) []
      in case kv_Delete S (aq_store aq) keysToDelete of
           Inl err \<Rightarrow> aq
         | Inr st \<Rightarrow> aq\<lparr>aq_store := st\<rparr>)"

definition StopCleanup :: "('s, 'w) ActionQueue \<Rightarrow> ('s, 'w) ActionQueue" where
  "StopCleanup aq = (if aq_done aq then aq else aq\<lparr>aq_done := True\<rparr>)"

text \<open>
  The cleanup loop over what its \<open>select\<close> takes: a tick, or a cancelled context.  It returns when the
  context or the queue is done, and otherwise keeps waiting when the ticks are used up.
\<close>

datatype cleanup_event = CtxDone | DoneClosed | Tick int

fun runCleanup ::
  "codec \<Rightarrow> ('s, string, string list) KVStore \<Rightarrow> cleanup_event list \<Rightarrow> ('s, 'w) ActionQueue \<Rightarrow>
   ('s, 'w) ActionQueue \<times> bool" where
  "runCleanup c S [] aq = (aq, False)"
| "runCleanup c S (CtxDone # _) aq = (aq, True)"
| "runCleanup c S (DoneClosed # _) aq = (aq, True)"
| "runCleanup c S (Tick now # evs) aq = runCleanup c S evs (cleanupActions c S now aq)"

subsection \<open>What the queue remembers\<close>

text \<open>
  The abstract queue is a partial map from the identifiers of successfully run actions to the time
  they were run.  An actor call that succeeded adds to it, a cleanup drops what is too old.
\<close>

datatype aq_event = Call actor_call | Cleaned int

fun remember :: "aq_event \<Rightarrow> (string \<rightharpoonup> int) \<Rightarrow> (string \<rightharpoonup> int)" where
  "remember (Call c) m = (if call_ok c then m(action_ID (call_action c) \<mapsto> call_done c) else m)"
| "remember (Cleaned now) m =
     (\<lambda>k. case m k of None \<Rightarrow> None | Some t \<Rightarrow> if t + actionRetentionPeriod < now then None else Some t)"

text \<open>A trace in which no action succeeds while it is remembered.\<close>

fun ok_trace :: "(string \<rightharpoonup> int) \<Rightarrow> aq_event list \<Rightarrow> bool" where
  "ok_trace m [] = True"
| "ok_trace m (Call c # tr) =
     ((call_ok c \<longrightarrow> m (action_ID (call_action c)) = None) \<and> ok_trace (remember (Call c) m) tr)"
| "ok_trace m (Cleaned now # tr) = ok_trace (remember (Cleaned now) m) tr"

lemma ok_trace_append:
  "ok_trace m (tr @ tr') \<longleftrightarrow> ok_trace m tr \<and> ok_trace (fold remember tr m) tr'"
  by (induction m tr rule: ok_trace.induct) auto

lemma forgotten_was_cleaned:
  assumes "ok_trace m mid" and "m k = Some t" and "fold remember mid m k = None"
  shows "\<exists>now. Cleaned now \<in> set mid \<and> t + actionRetentionPeriod < now"
  using assms
proof (induction m mid rule: ok_trace.induct)
  case (2 m c tr)
  then have "remember (Call c) m k = Some t" by auto
  with 2 show ?case by (auto simp del: remember.simps)
next
  case (3 m now tr)
  show ?case
  proof (cases "t + actionRetentionPeriod < now")
    case True
    then show ?thesis by auto
  next
    case False
    with 3(3) have "remember (Cleaned now) m k = Some t" by simp
    with 3 show ?thesis by (auto simp del: remember.simps)
  qed
qed simp

text \<open>
  What the code relies on of JSON: an action that was decoded can be encoded again with a
  processing time between the years 1970 and 2262, and decodes to itself.
\<close>

definition time_ok :: "int \<Rightarrow> bool" where
  "time_ok t \<longleftrightarrow> 0 \<le> t \<and> t < 2 ^ 63"

definition json_ok :: "codec \<Rightarrow> bool" where
  "json_ok c \<longleftrightarrow> (\<forall>raw a t. UnmarshalAction c raw = Some a \<and> time_ok t \<longrightarrow>
     (\<exists>s. MarshalAction c (a\<lparr>ProcessedAt := t\<rparr>) = Some s
       \<and> UnmarshalAction c s = Some (a\<lparr>ProcessedAt := t\<rparr>)))"

text \<open>The records of a store that the queue wrote, and the abstract queue they stand for.\<close>

definition records_ok :: "codec \<Rightarrow> (string \<rightharpoonup> string) \<Rightarrow> bool" where
  "records_ok c m \<longleftrightarrow> (\<forall>k v. m k = Some v \<longrightarrow> UnmarshalAction c v \<noteq> None)"

definition abs_queue :: "codec \<Rightarrow> (string \<rightharpoonup> string) \<Rightarrow> (string \<rightharpoonup> int)" where
  "abs_queue c m k = map_option ProcessedAt (Option.bind (m k) (UnmarshalAction c))"

lemma abs_queue_None: "records_ok c m \<Longrightarrow> abs_queue c m k = None \<longleftrightarrow> m k = None"
  by (cases "m k") (auto simp: abs_queue_def records_ok_def)

lemma abs_queue_upd:
  "UnmarshalAction c s = Some a \<Longrightarrow> abs_queue c (m(k \<mapsto> s)) = (abs_queue c m)(k \<mapsto> ProcessedAt a)"
  by (auto simp: abs_queue_def fun_eq_iff)

lemma records_ok_upd: "records_ok c m \<Longrightarrow> UnmarshalAction c s \<noteq> None \<Longrightarrow> records_ok c (m(k \<mapsto> s))"
  by (auto simp: records_ok_def)

subsection \<open>The queue on a store that keeps its contract\<close>

locale action_store = kv_updater S lookup inv pairs
  for S :: "('s, string, string list) KVStore"
    and lookup :: "'s \<Rightarrow> string \<Rightarrow> string option"
    and inv :: "'s \<Rightarrow> bool"
    and pairs :: "'s \<Rightarrow> (string \<times> string) list"
begin

lemma store_record:
  assumes "inv (aq_store aq)" and "records_ok c (lookup (aq_store aq))" and "json_ok c"
    and "UnmarshalAction c raw = Some a" and "action_ID a \<noteq> ''''" and "time_ok t"
  shows "\<exists>st. storeActionRecord c S (a\<lparr>ProcessedAt := t\<rparr>) aq = aq\<lparr>aq_store := st\<rparr> \<and> inv st
    \<and> records_ok c (lookup st)
    \<and> abs_queue c (lookup st) = (abs_queue c (lookup (aq_store aq)))(action_ID a \<mapsto> t)"
proof -
  from assms(3,4,6) obtain s where s: "MarshalAction c (a\<lparr>ProcessedAt := t\<rparr>) = Some s"
    "UnmarshalAction c s = Some (a\<lparr>ProcessedAt := t\<rparr>)"
    unfolding json_ok_def by blast
  obtain st where st: "kv_Set S (aq_store aq) (action_ID a) s = Inr st" "inv st"
    "lookup st = (lookup (aq_store aq))(action_ID a \<mapsto> s)"
    using set_ok[OF assms(1,5)] by blast
  show ?thesis
    using assms(2) s st by (intro exI[of _ st])
      (simp add: storeActionRecord_def abs_queue_upd[OF s(2)] records_ok_upd)
qed

lemma is_new:
  assumes "inv (aq_store aq)" and "records_ok c (lookup (aq_store aq))" and "isActionNew S aq k"
  shows "abs_queue c (lookup (aq_store aq)) k = None"
  using assms get_ok[OF assms(1)] abs_queue_None[OF assms(2)]
  by (auto simp: isActionNew_def split: option.splits)

end

text \<open>An actor call that may be made: the action is valid and its type has an actor.\<close>

definition call_legit :: "(string \<times> 'w actor) list \<Rightarrow> actor_call \<Rightarrow> bool" where
  "call_legit acts c \<longleftrightarrow> isActionValid (call_checked c) (call_action c)
     \<and> action_Type (call_action c) \<noteq> '''' \<and> map_of acts (action_Type (call_action c)) \<noteq> None"

text \<open>What a series of calls does to the records of the store.\<close>

definition calls_effect ::
  "codec \<Rightarrow> (string \<times> 'w actor) list \<Rightarrow> actor_call list \<Rightarrow> (string \<rightharpoonup> string) \<Rightarrow> (string \<rightharpoonup> string) \<Rightarrow> bool" where
  "calls_effect c acts new m m' \<longleftrightarrow> records_ok c m'
     \<and> abs_queue c m' = fold remember (map Call new) (abs_queue c m)
     \<and> ok_trace (abs_queue c m) (map Call new)
     \<and> (\<forall>cl\<in>set new. call_legit acts cl)"

lemma calls_effect_Nil: "records_ok c m \<Longrightarrow> calls_effect c acts [] m m"
  by (simp add: calls_effect_def)

lemma calls_effect_append:
  "calls_effect c acts new m m' \<Longrightarrow> calls_effect c acts new' m' m'' \<Longrightarrow>
   calls_effect c acts (new @ new') m m''"
  by (auto simp: calls_effect_def ok_trace_append)

lemma actorForAction_Inr:
  "actorForAction aq a = Inr act \<Longrightarrow> action_Type a \<noteq> '''' \<and> map_of (actors aq) (action_Type a) = Some act"
  by (auto simp: actorForAction_def split: if_splits option.splits)

context action_store
begin

lemma update_action_call:
  assumes good: "inv (aq_store aq)" "records_ok c (lookup (aq_store aq))" "json_ok c" "time_ok fin"
    and a: "UnmarshalAction c raw = Some a" "isActionValid ch a" "isActionNew S aq (action_ID a)"
    and act: "actorForAction aq a = Inr act"
  shows "\<exists>st w' e' cl. Update_action c S ch fin raw (aq, w, e, calls) = (aq\<lparr>aq_store := st\<rparr>, w', e', calls @ [cl])
    \<and> inv st \<and> calls_effect c (actors aq) [cl] (lookup (aq_store aq)) (lookup st)
    \<and> (e' = None \<longleftrightarrow> e = None \<and> call_ok cl)"
proof -
  obtain w' oe where w': "act w raw = (w', oe)" by force
  define cl where "cl ok = \<lparr>call_action = a, call_checked = ch, call_done = fin, call_ok = ok\<rparr>" for ok
  have legit: "call_legit (actors aq) (cl ok)" for ok
    using actorForAction_Inr[OF act] a by (simp add: call_legit_def cl_def)
  have id1: "action_ID a \<noteq> ''''" using a(2) by (auto simp: isActionValid_def split: if_splits)
  show ?thesis
  proof (cases oe)
    case (Some err)
    have "calls_effect c (actors aq) [cl False] (lookup (aq_store aq)) (lookup (aq_store aq))"
      using good(2) legit[of False] by (simp add: calls_effect_def cl_def)
    then show ?thesis
      using Some a act w' good(1) by (intro exI[of _ "aq_store aq"] exI[of _ w'] exI[of _ "cl False"]
          exI[of _ "Some (ErrWrap (''actor.Do, action type: '' @ action_Type a @ '', failed'') err)"])
        (simp add: Update_action_def cl_def)
  next
    case None
    obtain st where st: "storeActionRecord c S (a\<lparr>ProcessedAt := fin\<rparr>) aq = aq\<lparr>aq_store := st\<rparr>"
      "inv st" "records_ok c (lookup st)"
      "abs_queue c (lookup st) = (abs_queue c (lookup (aq_store aq)))(action_ID a \<mapsto> fin)"
      using store_record[OF good(1,2,3) a(1) id1 good(4)] by blast
    have "calls_effect c (actors aq) [cl True] (lookup (aq_store aq)) (lookup st)"
      using st is_new[OF good(1,2) a(3)] legit[of True] by (simp add: calls_effect_def cl_def)
    then show ?thesis
      using None a act w' st by (intro exI[of _ st] exI[of _ w'] exI[of _ e] exI[of _ "cl True"])
        (simp add: Update_action_def cl_def)
  qed
qed

lemma update_action_step:
  assumes "inv (aq_store aq)" "records_ok c (lookup (aq_store aq))" "json_ok c" "time_ok fin"
  shows "\<exists>st w' e' new. Update_action c S ch fin raw (aq, w, e, calls) = (aq\<lparr>aq_store := st\<rparr>, w', e', calls @ new)
    \<and> inv st \<and> calls_effect c (actors aq) new (lookup (aq_store aq)) (lookup st)
    \<and> (e' = None \<longleftrightarrow> e = None \<and> (\<forall>cl\<in>set new. call_ok cl))"
proof (cases "\<exists>a act. UnmarshalAction c raw = Some a \<and> isActionValid ch a
    \<and> isActionNew S aq (action_ID a) \<and> actorForAction aq a = Inr act")
  case True
  then obtain a act where a: "UnmarshalAction c raw = Some a" "isActionValid ch a"
    "isActionNew S aq (action_ID a)" "actorForAction aq a = Inr act" by blast
  from update_action_call[OF assms a, of w e calls] show ?thesis by (elim exE) (intro exI, auto)
next
  case False
  then have "Update_action c S ch fin raw (aq, w, e, calls) = (aq, w, e, calls)"
    by (auto simp: Update_action_def split: option.splits sum.splits)
  then show ?thesis
    using assms by (intro exI[of _ "aq_store aq"] exI[of _ w] exI[of _ e] exI[of _ "[]"])
      (simp add: calls_effect_Nil)
qed

lemma update_loop:
  assumes "inv (aq_store aq)" "records_ok c (lookup (aq_store aq))" "json_ok c" "\<forall>i. time_ok (clock i)"
  shows "\<exists>st w' e' new. Update_loop c S clock i raws (aq, w, e, calls) = (aq\<lparr>aq_store := st\<rparr>, w', e', calls @ new)
    \<and> inv st \<and> calls_effect c (actors aq) new (lookup (aq_store aq)) (lookup st)
    \<and> (e' = None \<longleftrightarrow> e = None \<and> (\<forall>cl\<in>set new. call_ok cl))"
  using assms(1,2)
proof (induction raws arbitrary: i aq w e calls)
  case Nil
  then show ?case by (intro exI[of _ "aq_store aq"] exI[of _ w] exI[of _ e] exI[of _ "[]"])
      (simp add: calls_effect_Nil)
next
  case (Cons raw raws)
  from update_action_step[OF Cons.prems assms(3) assms(4)[rule_format, of "2 * i + 1"], of "clock (2 * i)" raw w e calls]
  obtain st1 w1 e1 n1 where 1:
    "Update_action c S (clock (2 * i)) (clock (2 * i + 1)) raw (aq, w, e, calls)
      = (aq\<lparr>aq_store := st1\<rparr>, w1, e1, calls @ n1)"
    "inv st1" "calls_effect c (actors aq) n1 (lookup (aq_store aq)) (lookup st1)"
    "e1 = None \<longleftrightarrow> e = None \<and> (\<forall>cl\<in>set n1. call_ok cl)"
    by blast
  have "records_ok c (lookup st1)" using 1(3) by (simp add: calls_effect_def)
  then have "\<exists>st2 w2 e2 n2.
    Update_loop c S clock (Suc i) raws (aq\<lparr>aq_store := st1\<rparr>, w1, e1, calls @ n1)
      = (aq\<lparr>aq_store := st2\<rparr>, w2, e2, (calls @ n1) @ n2)
    \<and> inv st2 \<and> calls_effect c (actors aq) n2 (lookup st1) (lookup st2)
    \<and> (e2 = None \<longleftrightarrow> e1 = None \<and> (\<forall>cl\<in>set n2. call_ok cl))"
    using Cons.IH[of "aq\<lparr>aq_store := st1\<rparr>" "Suc i" w1 e1 "calls @ n1"] 1(2) by simp
  then obtain st2 w2 e2 n2 where 2:
    "Update_loop c S clock (Suc i) raws (aq\<lparr>aq_store := st1\<rparr>, w1, e1, calls @ n1)
      = (aq\<lparr>aq_store := st2\<rparr>, w2, e2, (calls @ n1) @ n2)"
    "inv st2" "calls_effect c (actors aq) n2 (lookup st1) (lookup st2)"
    "e2 = None \<longleftrightarrow> e1 = None \<and> (\<forall>cl\<in>set n2. call_ok cl)"
    by blast
  show ?case
    using 1 2 calls_effect_append[OF 1(3) 2(3)]
    by (intro exI[of _ st2] exI[of _ w2] exI[of _ e2] exI[of _ "n1 @ n2"]) auto
qed

end

context action_store
begin

lemma cleanup_visits:
  assumes "\<forall>(k, v)\<in>set ps. UnmarshalAction c v \<noteq> None"
  shows "fold (\<lambda>(k, v) (acc, err). if err = None then cleanup_visit c now k (Some v) acc else (acc, err))
      ps (acc, None)
    = (acc @ map fst (filter (\<lambda>(k, v). case UnmarshalAction c v of None \<Rightarrow> False
         | Some a \<Rightarrow> ProcessedAt a + actionRetentionPeriod < now) ps), None)"
  using assms by (induction ps arbitrary: acc) (auto simp: cleanup_visit_def)

lemma cleanup:
  assumes "inv (aq_store aq)" and "records_ok c (lookup (aq_store aq))"
  shows "\<exists>st. cleanupActions c S now aq = aq\<lparr>aq_store := st\<rparr> \<and> inv st \<and> records_ok c (lookup st)
    \<and> abs_queue c (lookup st) = remember (Cleaned now) (abs_queue c (lookup (aq_store aq)))
    \<and> (\<forall>k. abs_queue c (lookup st) k \<noteq> None \<longrightarrow> lookup st k = lookup (aq_store aq) k)"
proof -
  let ?s = "aq_store aq"
  define ks where "ks = map fst (filter (\<lambda>(k, v). case UnmarshalAction c v of None \<Rightarrow> False
         | Some a \<Rightarrow> ProcessedAt a + actionRetentionPeriod < now) (pairs ?s))"
  have lk: "(k, v) \<in> set (pairs ?s) \<longleftrightarrow> lookup ?s k = Some v" for k v
    using pairs_distinct[OF assms(1)] pairs_lookup[OF assms(1)] by (metis map_of_eq_Some_iff)
  have "kv_ForEach S ?s (cleanup_visit c now) [] = (ks, None)"
  proof -
    have "\<forall>(k, v)\<in>set (pairs ?s). UnmarshalAction c v \<noteq> None"
      using assms(2) lk by (auto simp: records_ok_def)
    from cleanup_visits[OF this, of now "[]"] show ?thesis
      by (simp add: for_each_ok[OF assms(1)] ks_def)
  qed
  moreover obtain st where st: "kv_Delete S ?s ks = Inr st" "inv st" "lookup st = lookup ?s |` (- set ks)"
    using delete_ok[OF assms(1)] by blast
  moreover have ks: "k \<in> set ks \<longleftrightarrow> (\<exists>t. abs_queue c (lookup ?s) k = Some t \<and> t + actionRetentionPeriod < now)" for k
    using lk by (force simp: ks_def abs_queue_def bind_eq_Some_conv split: option.splits)
  have "abs_queue c (lookup st) = remember (Cleaned now) (abs_queue c (lookup ?s))"
  proof
    fix k show "abs_queue c (lookup st) k = remember (Cleaned now) (abs_queue c (lookup ?s)) k"
      using ks[of k] st(3) by (cases "k \<in> set ks")
        (auto simp: abs_queue_def restrict_map_def split: option.splits)
  qed
  moreover have "records_ok c (lookup st)"
    using assms(2) st(3) by (auto simp: records_ok_def restrict_map_def split: if_splits)
  moreover have "\<forall>k. abs_queue c (lookup st) k \<noteq> None \<longrightarrow> lookup st k = lookup ?s k"
    using st(3) by (auto simp: abs_queue_def restrict_map_def split: if_splits)
  ultimately show ?thesis by (intro exI[of _ st]) (simp add: cleanupActions_def)
qed

end

subsection \<open>Runs\<close>

text \<open>Updates and cleanups in any order, with the trace of actor calls and cleanups.\<close>

datatype aq_op = AUpdate "nat \<Rightarrow> int" string | ACleanup int

fun aq_run ::
  "codec \<Rightarrow> ('s, string, string list) KVStore \<Rightarrow> aq_op list \<Rightarrow> ('s, 'w) ActionQueue \<times> 'w \<Rightarrow>
   (('s, 'w) ActionQueue \<times> 'w) \<times> aq_event list" where
  "aq_run c S [] st = (st, [])"
| "aq_run c S (AUpdate clock data # ops) (aq, w) =
     (case ActionQueue_Update c S clock data aq w of (aq', w', _, calls) \<Rightarrow>
       (case aq_run c S ops (aq', w') of (st, tr) \<Rightarrow> (st, map Call calls @ tr)))"
| "aq_run c S (ACleanup now # ops) (aq, w) =
     (case aq_run c S ops (cleanupActions c S now aq, w) of (st, tr) \<Rightarrow> (st, Cleaned now # tr))"

fun op_clock_ok :: "aq_op \<Rightarrow> bool" where
  "op_clock_ok (AUpdate clock data) \<longleftrightarrow> (\<forall>i. time_ok (clock i))"
| "op_clock_ok (ACleanup now) \<longleftrightarrow> True"

context action_store
begin

lemma update:
  assumes "inv (aq_store aq)" "records_ok c (lookup (aq_store aq))" "json_ok c" "\<forall>i. time_ok (clock i)"
  shows "\<exists>st w' e' new. ActionQueue_Update c S clock data aq w = (aq\<lparr>aq_store := st\<rparr>, w', e', new)
    \<and> inv st \<and> calls_effect c (actors aq) new (lookup (aq_store aq)) (lookup st)
    \<and> (e' = None \<longleftrightarrow> DecodeActions c data \<noteq> None \<and> (\<forall>cl\<in>set new. call_ok cl))"
proof (cases "DecodeActions c data")
  case None
  then show ?thesis using assms
    by (intro exI[of _ "aq_store aq"] exI[of _ w] exI[of _ "[]"]
        exI[of _ "Some (ErrNew ''failed to decode actions data'')"])
      (simp add: ActionQueue_Update_def calls_effect_Nil)
next
  case (Some raws)
  with update_loop[OF assms, of 0 raws w None "[]"] show ?thesis
    by (simp add: ActionQueue_Update_def)
qed

lemma run:
  assumes "json_ok c" and "list_all op_clock_ok ops"
    and "inv (aq_store aq)" and "records_ok c (lookup (aq_store aq))"
    and "aq_run c S ops (aq, w) = ((aq', w'), tr)"
  shows "inv (aq_store aq') \<and> records_ok c (lookup (aq_store aq'))
    \<and> abs_queue c (lookup (aq_store aq')) = fold remember tr (abs_queue c (lookup (aq_store aq)))
    \<and> ok_trace (abs_queue c (lookup (aq_store aq))) tr
    \<and> (\<forall>cl. Call cl \<in> set tr \<longrightarrow> call_legit (actors aq) cl)"
  using assms(2-5)
proof (induction ops arbitrary: aq w tr)
  case Nil
  then show ?case by simp
next
  case (Cons x ops)
  show ?case
  proof (cases x)
    case (AUpdate clock data)
    then have "\<forall>i. time_ok (clock i)" using Cons.prems(1) by simp
    from update[OF Cons.prems(2,3) assms(1) this, of data w] obtain st1 w1 e1 new where 1:
      "ActionQueue_Update c S clock data aq w = (aq\<lparr>aq_store := st1\<rparr>, w1, e1, new)" "inv st1"
      "calls_effect c (actors aq) new (lookup (aq_store aq)) (lookup st1)"
      by blast
    with Cons.prems(4) AUpdate obtain tr1 where tr1:
      "aq_run c S ops (aq\<lparr>aq_store := st1\<rparr>, w1) = ((aq', w'), tr1)" "tr = map Call new @ tr1"
      by (auto split: prod.splits)
    show ?thesis
      using Cons.IH[OF _ _ _ tr1(1)] 1 tr1(2) Cons.prems(1)
      by (auto simp: calls_effect_def ok_trace_append)
  next
    case (ACleanup now)
    from cleanup[OF Cons.prems(2,3), of now] obtain st1 where 1:
      "cleanupActions c S now aq = aq\<lparr>aq_store := st1\<rparr>" "inv st1" "records_ok c (lookup st1)"
      "abs_queue c (lookup st1) = remember (Cleaned now) (abs_queue c (lookup (aq_store aq)))"
      by blast
    with Cons.prems(4) ACleanup obtain tr1 where tr1:
      "aq_run c S ops (aq\<lparr>aq_store := st1\<rparr>, w) = ((aq', w'), tr1)" "tr = Cleaned now # tr1"
      by (auto split: prod.splits)
    show ?thesis
      using Cons.IH[OF _ _ _ tr1(1)] 1 tr1(2) Cons.prems(1) by (auto simp del: remember.simps)
  qed
qed

end

interpretation inmem_actions: action_store "inmem_KVStore rs" inmem_lookup inmem_inv inmem_pairs for rs
  by unfold_locales

subsection \<open>Properties\<close>

text \<open>C2: an action is run successfully at most once while its record is kept: in every sequence of
  updates and cleanups, if the same identifier succeeds twice then between the two a cleanup ran at
  a time more than the retention period after the first.\<close>

theorem action_at_most_once_while_retained:
  assumes "json_ok c" and "list_all op_clock_ok ops"
    and "inmem_inv (aq_store aq)" and "records_ok c (inmem_lookup (aq_store aq))"
    and "aq_run c (inmem_KVStore rs) ops (aq, w) = (st, pre @ Call c1 # mid @ Call c2 # post)"
    and "call_ok c1" and "call_ok c2"
    and "action_ID (call_action c1) = action_ID (call_action c2)"
  shows "\<exists>now. Cleaned now \<in> set mid \<and> call_done c1 + actionRetentionPeriod < now"
proof -
  obtain aq' w' where st: "st = (aq', w')" by force
  have "ok_trace (abs_queue c (inmem_lookup (aq_store aq))) (pre @ Call c1 # mid @ Call c2 # post)"
    using inmem_actions.run[OF assms(1-4)] assms(5) st by blast
  then obtain m where "ok_trace m (Call c1 # mid @ Call c2 # post)" by (auto simp: ok_trace_append)
  then have "ok_trace (remember (Call c1) m) mid"
    "fold remember mid (remember (Call c1) m) (action_ID (call_action c1)) = None"
    using assms(6-8) by (auto simp: ok_trace_append simp del: remember.simps)
  moreover have "remember (Call c1) m (action_ID (call_action c1)) = Some (call_done c1)"
    using assms(6) by simp
  ultimately show ?thesis using forgotten_was_cleaned by blast
qed

text \<open>A codec for a single action, whose text is the time it was processed.\<close>

definition example_codec :: codec where
  "example_codec = \<lparr>DecodeActions = (\<lambda>data. if data = '''' then None else Some [data, data]),
     UnmarshalAction = (\<lambda>raw. map_option (\<lambda>t. \<lparr>action_ID = ''id'', ValidUntil = 1000000000000,
        action_Type = ''notify'', ProcessedAt = t\<rparr>) (ParseInt raw)),
     MarshalAction = (\<lambda>a. Some (FormatInt (ProcessedAt a)))\<rparr>"

definition example_queue :: "(string inmem, nat) ActionQueue" where
  "example_queue = RegisterActor ''notify'' (\<lambda>w raw. (w + 1, None)) (ActionQueue_New inmem_NewStore [])"

lemma example_codec_ok: "json_ok example_codec"
  by (auto simp: json_ok_def example_codec_def time_ok_def ParseInt_FormatInt)

lemma example_queue_ok:
  "inmem_inv (aq_store example_queue)" "records_ok c (inmem_lookup (aq_store example_queue))"
  using inmem_wf_NewStore by (simp_all add: example_queue_def RegisterActor_def ActionQueue_New_def
      records_ok_def inmem_lookup_def inmem_NewStore_def)

definition example_call :: "int \<Rightarrow> actor_call" where
  "example_call t = \<lparr>call_action = \<lparr>action_ID = ''id'', ValidUntil = 1000000000000,
     action_Type = ''notify'', ProcessedAt = 0\<rparr>, call_checked = t, call_done = t, call_ok = True\<rparr>"

lemma example_codec_eval:
  "ParseInt ''0'' = Some 0" "ParseInt ''5'' = Some 5" "FormatInt 5 = ''5''" "FormatInt 7 = ''7''"
  by (simp_all add: ParseInt_def parse_digits_def digits_val_def is_digit_def digit_val_def) code_simp+

lemmas example_eval = example_codec_eval example_codec_def example_queue_def example_call_def
  RegisterActor_def ActionQueue_New_def ActionQueue_Update_def Update_action_def isActionValid_def
  isActionNew_def actorForAction_def storeActionRecord_def cleanupActions_def cleanup_visit_def
  inmem_KVStore_def inmem_NewStore_def Unix_def actionRetentionPeriod_def

lemma example_run:
  "snd (aq_run example_codec (inmem_KVStore [])
     [AUpdate (\<lambda>_. 5) ''0'', ACleanup 100000000000000000, AUpdate (\<lambda>_. 7) ''0''] (example_queue, 0))
   = [] @ Call (example_call 5) # [Cleaned 100000000000000000] @ Call (example_call 7) # []"
  by (simp add: example_eval)

theorem action_at_most_once_while_retained_witness:
  "snd (aq_run example_codec (inmem_KVStore [])
     [AUpdate (\<lambda>_. 5) ''0'', ACleanup 100000000000000000, AUpdate (\<lambda>_. 7) ''0''] (example_queue, 0))
   = [] @ Call (example_call 5) # [Cleaned 100000000000000000] @ Call (example_call 7) # []
   \<and> (\<exists>now. Cleaned now \<in> set [Cleaned 100000000000000000]
        \<and> call_done (example_call 5) + actionRetentionPeriod < now)"
proof -
  obtain st where run: "aq_run example_codec (inmem_KVStore [])
     [AUpdate (\<lambda>_. 5) ''0'', ACleanup 100000000000000000, AUpdate (\<lambda>_. 7) ''0''] (example_queue, 0)
     = (st, [] @ Call (example_call 5) # [Cleaned 100000000000000000] @ Call (example_call 7) # [])"
    by (rule that[of "fst (aq_run example_codec (inmem_KVStore [])
     [AUpdate (\<lambda>_. 5) ''0'', ACleanup 100000000000000000, AUpdate (\<lambda>_. 7) ''0''] (example_queue, 0))"])
      (simp only: prod_eq_iff fst_conv snd_conv example_run simp_thms)
  have "list_all op_clock_ok [AUpdate (\<lambda>_. 5) ''0'', ACleanup 100000000000000000, AUpdate (\<lambda>_. 7) ''0'']"
    by (simp add: time_ok_def)
  from action_at_most_once_while_retained[OF example_codec_ok this example_queue_ok run]
  show ?thesis using example_run by (simp add: example_call_def)
qed

text \<open>C28: an update refines the abstract queue: after it the queue remembers what it remembered before
  and the successful calls, with their times; every actor call was for an action with an identifier,
  not expired when checked, of a registered type; and the update reports an error exactly when the
  data did not decode or some actor failed.\<close>

theorem action_update_refines:
  assumes "json_ok c" and "\<forall>i. time_ok (clock i)"
    and "inmem_inv (aq_store aq)" and "records_ok c (inmem_lookup (aq_store aq))"
    and "ActionQueue_Update c (inmem_KVStore rs :: (string inmem, string, string list) KVStore) clock data aq w = (aq', w', err, calls)"
  shows "inmem_inv (aq_store aq')
    \<and> abs_queue c (inmem_lookup (aq_store aq'))
        = fold remember (map Call calls) (abs_queue c (inmem_lookup (aq_store aq)))
    \<and> (\<forall>cl\<in>set calls. action_ID (call_action cl) \<noteq> ''''
         \<and> ValidUntil (call_action cl) > Unix (call_checked cl)
         \<and> map_of (actors aq) (action_Type (call_action cl)) \<noteq> None)
    \<and> (err = None \<longleftrightarrow> DecodeActions c data \<noteq> None \<and> (\<forall>cl\<in>set calls. call_ok cl))"
proof -
  from inmem_actions.update[OF assms(3,4,1,2), of rs data w] assms(5) obtain st where
    "aq' = aq\<lparr>aq_store := st\<rparr>" "inmem_inv st"
    "calls_effect c (actors aq) calls (inmem_lookup (aq_store aq)) (inmem_lookup st)"
    "err = None \<longleftrightarrow> DecodeActions c data \<noteq> None \<and> (\<forall>cl\<in>set calls. call_ok cl)"
    by (metis (no_types, lifting) prod.inject)
  then show ?thesis
    by (auto simp: calls_effect_def call_legit_def isActionValid_def split: if_splits)
qed

theorem action_update_refines_witness:
  "\<exists>aq' w' err calls.
     ActionQueue_Update example_codec (inmem_KVStore [] :: (string inmem, string, string list) KVStore) (\<lambda>_. 5) ''0'' example_queue 0 = (aq', w', err, calls)
     \<and> inmem_inv (aq_store aq')
     \<and> calls = [example_call 5] \<and> err = None"
proof -
  let ?r = "ActionQueue_Update example_codec (inmem_KVStore [] :: (string inmem, string, string list) KVStore) (\<lambda>_. 5) ''0'' example_queue 0"
  have "snd (snd (snd ?r)) = [example_call 5]" by (simp add: example_eval)
  then obtain aq' w' err where r: "?r = (aq', w', err, [example_call 5])" by (cases ?r) auto
  have "DecodeActions example_codec ''0'' \<noteq> None" by (simp add: example_codec_def)
  moreover have "\<forall>i. time_ok ((\<lambda>_. 5) i)" by (simp add: time_ok_def)
  ultimately show ?thesis
    using action_update_refines[OF example_codec_ok _ example_queue_ok r] r by (auto simp: example_call_def)
qed

text \<open>C17: a cleanup forgets exactly the actions whose processing time is more than the retention period
  ago and leaves the other records as they are.\<close>

theorem action_cleanup_exact:
  assumes "inmem_inv (aq_store aq)" and "records_ok c (inmem_lookup (aq_store aq))"
  shows "\<exists>st. cleanupActions c (inmem_KVStore rs) now aq = aq\<lparr>aq_store := st\<rparr> \<and> inmem_inv st
    \<and> (\<forall>k. inmem_lookup st k =
         (case abs_queue c (inmem_lookup (aq_store aq)) k of
            None \<Rightarrow> None
          | Some t \<Rightarrow> if t + actionRetentionPeriod < now then None else inmem_lookup (aq_store aq) k))"
proof -
  from inmem_actions.cleanup[OF assms, of rs now] obtain st where
    st: "cleanupActions c (inmem_KVStore rs) now aq = aq\<lparr>aq_store := st\<rparr>" "inmem_inv st"
      "records_ok c (inmem_lookup st)"
      "abs_queue c (inmem_lookup st) = remember (Cleaned now) (abs_queue c (inmem_lookup (aq_store aq)))"
      "\<And>k. abs_queue c (inmem_lookup st) k \<noteq> None \<Longrightarrow> inmem_lookup st k = inmem_lookup (aq_store aq) k"
    by blast
  have "inmem_lookup st k = (case abs_queue c (inmem_lookup (aq_store aq)) k of None \<Rightarrow> None
      | Some t \<Rightarrow> if t + actionRetentionPeriod < now then None else inmem_lookup (aq_store aq) k)" for k
    using st(4) st(5)[of k] abs_queue_None[OF st(3), of k]
    by (auto simp: fun_eq_iff split: option.splits if_splits)
  with st(1,2) show ?thesis by blast
qed

definition example_queue_used :: "(string inmem, nat) ActionQueue" where
  "example_queue_used = example_queue\<lparr>aq_store :=
     Some \<lparr>items = [(''id'', ''5'')], order = [''id''], sequence = 0\<rparr>\<rparr>"

lemma example_queue_used_ok:
  "inmem_inv (aq_store example_queue_used)"
  "records_ok example_codec (inmem_lookup (aq_store example_queue_used))"
  "abs_queue example_codec (inmem_lookup (aq_store example_queue_used)) ''id'' = Some 5"
  by (auto simp: example_queue_used_def inmem_inv_def inmem_wf_def records_ok_def inmem_lookup_def
      example_codec_def example_codec_eval abs_queue_def)

theorem action_cleanup_exact_witness:
  "\<exists>st st'. cleanupActions example_codec (inmem_KVStore []) 100 example_queue_used
      = example_queue_used\<lparr>aq_store := st\<rparr> \<and> inmem_lookup st ''id'' = Some ''5''
    \<and> cleanupActions example_codec (inmem_KVStore []) 100000000000000000 example_queue_used
      = example_queue_used\<lparr>aq_store := st'\<rparr> \<and> inmem_lookup st' ''id'' = None"
proof -
  note w = action_cleanup_exact[OF example_queue_used_ok(1,2), of "[]"]
  have "inmem_lookup (aq_store example_queue_used) ''id'' = Some ''5''"
    by (simp add: example_queue_used_def inmem_lookup_def)
  with w[of 100] w[of 100000000000000000] example_queue_used_ok(3) show ?thesis
    by (fastforce simp: actionRetentionPeriod_def)
qed

end
