(* ===== verification/ControlService.thy ===== *)
theory ControlService
  imports KVStore FlagValues
begin

text \<open>
  The control service (\<open>ee/control/control.go\<close>): it fetches a map from subsystems to content hashes,
  fetches the subsystems whose hash changed, hands their data to the subsystem's consumer, pings its
  subscribers, and remembers the hash, in memory and in a store.

  The server (\<open>dataProvider\<close>), the flags it reads (\<open>knapsack\<close>), consumers and subscribers are
  functions of the world \<open>'w\<close>.  A consumer may call back into the service while \<open>Fetch\<close> holds its
  mutex; it returns those calls with its result.  The service keeps a log of what it fetched,
  consumed and pinged.
\<close>

subsection \<open>State\<close>

record 'w dataProvider =
  GetConfig :: "'w \<Rightarrow> 'w \<times> (error + string option)"
  GetSubsystemData :: "'w \<Rightarrow> string \<Rightarrow> 'w \<times> (error + string option)"
  provider_SendMessage :: "'w \<Rightarrow> string \<Rightarrow> (string \<times> string) list \<Rightarrow> 'w \<times> error option"
  DecodeSubsystems :: "string \<Rightarrow> (string \<times> string) list option"

record 'w knapsack =
  k_ControlRequestInterval :: "'w \<Rightarrow> int"
  k_InModernStandby :: "'w \<Rightarrow> bool"
  k_ForceControlSubsystems :: "'w \<Rightarrow> bool"
  k_LauncherVersion :: string
  k_GetRunID :: "'w \<Rightarrow> string"
  k_CurrentEnrollmentStatus :: "'w \<Rightarrow> error + string"
  k_ServerProvidedData :: "'w \<Rightarrow> string \<Rightarrow> error + string option"
  k_HardwareSerial :: "'w \<Rightarrow> string"

datatype cs_callback = CallDo | CallFlagsChanged "FlagKey list"

type_synonym 'w consumer = "'w \<Rightarrow> string \<Rightarrow> 'w \<times> error option \<times> cs_callback list"
type_synonym 'w subscriber = "'w \<Rightarrow> 'w"

datatype cs_event = Fetched string string | Consumed string string bool | Pinged string | Sent string

record ('s, 'w) ControlService =
  requestInterval :: int
  tickerInterval :: "int option"
  fetchLocked :: bool
  fetchFull :: bool
  cs_store :: "'s option"
  lastFetched :: "(string \<times> string) list"
  consumers :: "(string \<times> 'w consumer) list"
  subscribers :: "(string \<times> 'w subscriber list) list"
  cancelled :: bool

type_synonym ('s, 'w) cs_state = "('s, 'w) ControlService \<times> 'w \<times> cs_event list"

definition Control_WithStore :: "'s \<Rightarrow> ('s, 'w) ControlService \<Rightarrow> ('s, 'w) ControlService" where
  "Control_WithStore st cs = cs\<lparr>cs_store := Some st\<rparr>"

text \<open>
  \<open>New\<close>, with the keys it registers itself for.
\<close>

definition ControlService_New ::
  "'w knapsack \<Rightarrow> 'w \<Rightarrow> (('s, 'w) ControlService \<Rightarrow> ('s, 'w) ControlService) list \<Rightarrow>
   ('s, 'w) ControlService \<times> FlagKey list" where
  "ControlService_New k w opts =
     (let cs = fold (\<lambda>opt cs. opt cs) opts
            \<lparr>requestInterval = k_ControlRequestInterval k w, tickerInterval = None,
             fetchLocked = False, fetchFull = False, cs_store = None, lastFetched = [],
             consumers = [], subscribers = [], cancelled = False\<rparr>
      in (cs\<lparr>tickerInterval := Some (requestInterval cs)\<rparr>,
          [FlagKey_of ControlRequestInterval, FlagKey_of InModernStandby]))"

definition RegisterConsumer ::
  "string \<Rightarrow> 'w consumer \<Rightarrow> ('s, 'w) ControlService \<Rightarrow> error + ('s, 'w) ControlService" where
  "RegisterConsumer subsystem con cs =
     (if map_of (consumers cs) subsystem \<noteq> None
      then Inl (ErrNew (''subsystem '' @ subsystem @ '' already has registered consumer''))
      else Inr (cs\<lparr>consumers := AList.update subsystem con (consumers cs)\<rparr>))"

definition RegisterSubscriber ::
  "string \<Rightarrow> 'w subscriber \<Rightarrow> ('s, 'w) ControlService \<Rightarrow> ('s, 'w) ControlService" where
  "RegisterSubscriber subsystem sub cs =
     (let old = (case map_of (subscribers cs) subsystem of None \<Rightarrow> [] | Some l \<Rightarrow> l)
      in cs\<lparr>subscribers := AList.update subsystem (old @ [sub]) (subscribers cs)\<rparr>)"

definition knownSubsystem :: "('s, 'w) ControlService \<Rightarrow> string \<Rightarrow> bool" where
  "knownSubsystem cs subsystem =
     (if map_of (consumers cs) subsystem \<noteq> None then True
      else if map_of (subscribers cs) subsystem \<noteq> None then True
      else False)"

definition ControlService_Do :: "('s, 'w) ControlService \<Rightarrow> ('s, 'w) ControlService" where
  "ControlService_Do cs = cs\<lparr>fetchFull := True\<rparr>"

subsection \<open>Reacting to flag changes\<close>

text \<open>
  \<open>FlagsChanged\<close> and \<open>requestIntervalChanged\<close> call \<open>Fetch\<close>.  They are defined for any \<open>fetch\<close>, since a
  consumer may cause them inside a \<open>Fetch\<close>, where \<open>TryLock\<close> fails and \<open>Fetch\<close> returns an error at once.
\<close>

type_synonym ('s, 'w) fetch_fn = "('s, 'w) cs_state \<Rightarrow> error option \<times> ('s, 'w) cs_state"

definition requestIntervalChanged ::
  "('s, 'w) fetch_fn \<Rightarrow> int \<Rightarrow> ('s, 'w) cs_state \<Rightarrow> ('s, 'w) cs_state" where
  "requestIntervalChanged fetch newInterval st =
     (if newInterval = requestInterval (fst st) then st
      else (let (err, cs, w, lg) = fetch st
            in (cs\<lparr>requestInterval := newInterval, tickerInterval := Some newInterval\<rparr>, w, lg)))"

definition ControlService_FlagsChanged ::
  "'w knapsack \<Rightarrow> ('s, 'w) fetch_fn \<Rightarrow> FlagKey list \<Rightarrow> ('s, 'w) cs_state \<Rightarrow> ('s, 'w) cs_state" where
  "ControlService_FlagsChanged k fetch flagKeys st =
     (let st1 = (if keys_Contains flagKeys (FlagKey_of ControlRequestInterval)
                 then requestIntervalChanged fetch (k_ControlRequestInterval k (fst (snd st))) st else st)
      in if keys_Contains flagKeys (FlagKey_of InModernStandby) \<and> \<not> k_InModernStandby k (fst (snd st1))
         then snd (fetch st1) else st1)"

definition fetch_busy :: error where
  "fetch_busy = ErrNew ''fetch is currently executing elsewhere''"

text \<open>\<open>Fetch\<close> while another one runs: standby is checked before the lock.\<close>

definition Fetch_locked :: "'w knapsack \<Rightarrow> ('s, 'w) fetch_fn" where
  "Fetch_locked k st = (if k_InModernStandby k (fst (snd st)) then (None, st) else (Some fetch_busy, st))"

fun run_callback :: "'w knapsack \<Rightarrow> cs_callback \<Rightarrow> ('s, 'w) cs_state \<Rightarrow> ('s, 'w) cs_state" where
  "run_callback k CallDo (cs, w, lg) = (ControlService_Do cs, w, lg)"
| "run_callback k (CallFlagsChanged ks) st = ControlService_FlagsChanged k (Fetch_locked k) ks st"

subsection \<open>Fetching\<close>

definition control_update ::
  "'w knapsack \<Rightarrow> string \<Rightarrow> string \<Rightarrow> ('s, 'w) cs_state \<Rightarrow> error option \<times> ('s, 'w) cs_state" where
  "control_update k subsystem data st =
     (case st of (cs, w, lg) \<Rightarrow>
       (let (err, cs1, w1, lg1) =
              (case map_of (consumers cs) subsystem of
                 None \<Rightarrow> (None, cs, w, lg)
               | Some con \<Rightarrow>
                   (case con w data of (w', err, cbs) \<Rightarrow>
                      (err, fold (run_callback k) cbs
                              (cs, w', lg @ [Consumed subsystem data (err = None)]))))
        in if err \<noteq> None then (err, cs1, w1, lg1)
           else let pings = (case map_of (subscribers cs1) subsystem of None \<Rightarrow> [] | Some l \<Rightarrow> l)
                in (None, cs1, fold (\<lambda>ping w. ping w) pings w1,
                    lg1 @ map (\<lambda>_. Pinged subsystem) pings)))"

definition fetchAndUpdate ::
  "('s, string, 'acc) KVStore \<Rightarrow> 'w dataProvider \<Rightarrow> 'w knapsack \<Rightarrow> string \<Rightarrow> string \<Rightarrow>
   ('s, 'w) cs_state \<Rightarrow> error option \<times> ('s, 'w) cs_state" where
  "fetchAndUpdate S p k subsystem hash st =
     (case st of (cs, w, lg) \<Rightarrow>
       (case GetSubsystemData p w hash of
          (w', Inl err) \<Rightarrow> (Some (ErrWrap ''failed to get control data'' err), cs, w', lg @ [Fetched subsystem hash])
        | (w', Inr None) \<Rightarrow> (Some (ErrNew ''control data is nil''), cs, w', lg @ [Fetched subsystem hash])
        | (w', Inr (Some data)) \<Rightarrow>
            (case control_update k subsystem data (cs, w', lg @ [Fetched subsystem hash]) of
               (Some err, st1) \<Rightarrow> (Some err, st1)
             | (None, cs1, w1, lg1) \<Rightarrow>
                 let cs2 = cs1\<lparr>lastFetched := AList.update subsystem hash (lastFetched cs1)\<rparr>
                 in case cs_store cs2 of
                      None \<Rightarrow> (None, cs2, w1, lg1)
                    | Some store \<Rightarrow>
                        (case kv_Set S store subsystem hash of
                           Inl err \<Rightarrow> (None, cs2, w1, lg1)
                         | Inr store' \<Rightarrow> (None, cs2\<lparr>cs_store := Some store'\<rparr>, w1, lg1)))))"

text \<open>The hash of the last fetched version: in memory, else in the store, else empty.\<close>

definition storedHash :: "('s, string, 'acc) KVStore \<Rightarrow> 's option \<Rightarrow> string \<Rightarrow> string" where
  "storedHash S store subsystem =
     (case store of
        None \<Rightarrow> ''''
      | Some st \<Rightarrow>
          (case kv_Get S st subsystem of Inr (Some storedHash) \<Rightarrow> storedHash | _ \<Rightarrow> ''''))"

definition lastHash :: "('s, string, 'acc) KVStore \<Rightarrow> ('s, 'w) ControlService \<Rightarrow> string \<Rightarrow> string" where
  "lastHash S cs subsystem =
     (if map_of (lastFetched cs) subsystem \<noteq> None then the (map_of (lastFetched cs) subsystem)
      else storedHash S (cs_store cs) subsystem)"

fun Fetch_loop ::
  "('s, string, 'acc) KVStore \<Rightarrow> 'w dataProvider \<Rightarrow> 'w knapsack \<Rightarrow> bool \<Rightarrow> (string \<times> string) list \<Rightarrow>
   ('s, 'w) cs_state \<Rightarrow> ('s, 'w) cs_state" where
  "Fetch_loop S p k full [] st = st"
| "Fetch_loop S p k full ((subsystem, hash) # rest) (cs, w, lg) =
     Fetch_loop S p k full rest
       (if \<not> knownSubsystem cs subsystem then (cs, w, lg)
        else if hash = lastHash S cs subsystem \<and> \<not> k_ForceControlSubsystems k w \<and> \<not> full
        then (cs, w, lg)
        else snd (fetchAndUpdate S p k subsystem hash (cs, w, lg)))"

text \<open>The seed is the order of the range over the map of subsystems.\<close>

definition Fetch ::
  "('s, string, 'acc) KVStore \<Rightarrow> 'w dataProvider \<Rightarrow> 'w knapsack \<Rightarrow> nat list \<Rightarrow> ('s, 'w) fetch_fn" where
  "Fetch S p k seed st =
     (case st of (cs, w, lg) \<Rightarrow>
       if k_InModernStandby k w then (None, cs, w, lg)
       else if fetchLocked cs then (Some fetch_busy, cs, w, lg)
       else (case GetConfig p w of
          (w', Inl err) \<Rightarrow> (Some (ErrWrap ''getting subsystems map'' err), cs, w', lg)
        | (w', Inr None) \<Rightarrow> (Some (ErrNew ''subsystems map data is nil''), cs, w', lg)
        | (w', Inr (Some data)) \<Rightarrow>
            (case DecodeSubsystems p data of
               None \<Rightarrow> (Some (ErrNew ''decoding subsystems map''), cs, w', lg)
             | Some subsystems \<Rightarrow>
                 (case Fetch_loop S p k (fetchFull cs) (go_range seed subsystems)
                         (cs\<lparr>fetchLocked := True, fetchFull := False\<rparr>, w', lg) of
                    (cs1, w1, lg1) \<Rightarrow> (None, cs1\<lparr>fetchLocked := False\<rparr>, w1, lg1)))))"

subsection \<open>The service loop\<close>

definition startupData :: "'w knapsack \<Rightarrow> 'w \<Rightarrow> (string \<times> string) list" where
  "startupData k w =
     (let from_store = (\<lambda>name. case k_ServerProvidedData k w name of
            Inl err \<Rightarrow> [] | Inr v \<Rightarrow> [(name, case v of None \<Rightarrow> '''' | Some d \<Rightarrow> d)])
      in [(''launcher_version'', k_LauncherVersion k), (''run_id'', k_GetRunID k w)]
         @ (case k_CurrentEnrollmentStatus k w of
              Inl err \<Rightarrow> [] | Inr status \<Rightarrow> [(''current_enrollment_status'', status)])
         @ from_store ''device_id'' @ from_store ''munemo'' @ from_store ''organization_id''
         @ (if k_HardwareSerial k w \<noteq> '''' then [(''serial_number'', k_HardwareSerial k w)] else []))"

definition ControlService_SendMessage ::
  "'w dataProvider \<Rightarrow> string \<Rightarrow> (string \<times> string) list \<Rightarrow> ('s, 'w) cs_state \<Rightarrow>
   error option \<times> ('s, 'w) cs_state" where
  "ControlService_SendMessage p meth params st =
     (case st of (cs, w, lg) \<Rightarrow>
       (case provider_SendMessage p w meth params of
          (w', err) \<Rightarrow> (err, cs, w', if err = None then lg @ [Sent meth] else lg)))"

definition Start_once ::
  "('s, string, 'acc) KVStore \<Rightarrow> 'w dataProvider \<Rightarrow> 'w knapsack \<Rightarrow> nat list \<Rightarrow>
   bool \<times> ('s, 'w) cs_state \<Rightarrow> bool \<times> ('s, 'w) cs_state" where
  "Start_once S p k seed st =
     (case st of (startUpMessageSuccess, st0) \<Rightarrow>
       (case Fetch S p k seed st0 of
          (Some fetchErr, st1) \<Rightarrow> (startUpMessageSuccess, st1)
        | (None, st1) \<Rightarrow>
            if startUpMessageSuccess then (True, st1)
            else (case ControlService_SendMessage p ''startup'' (startupData k (fst (snd st1))) st1 of
                    (Some err, st2) \<Rightarrow> (False, st2)
                  | (None, st2) \<Rightarrow> (True, st2))))"

text \<open>
  What \<open>Start\<close> waits for after each fetch: the end of the context, or a tick (with the range order of
  the next fetch).  False: still waiting when the list ends.
\<close>

datatype start_event = StartCtxDone | StartTick "nat list"

fun Start_loop ::
  "('s, string, 'acc) KVStore \<Rightarrow> 'w dataProvider \<Rightarrow> 'w knapsack \<Rightarrow> start_event list \<Rightarrow>
   bool \<times> ('s, 'w) cs_state \<Rightarrow> (bool \<times> ('s, 'w) cs_state) \<times> bool" where
  "Start_loop S p k [] st = (st, False)"
| "Start_loop S p k (StartCtxDone # evs) st = (st, True)"
| "Start_loop S p k (StartTick seed # evs) st = Start_loop S p k evs (Start_once S p k seed st)"

definition ControlService_Start ::
  "('s, string, 'acc) KVStore \<Rightarrow> 'w dataProvider \<Rightarrow> 'w knapsack \<Rightarrow> nat list \<Rightarrow> start_event list \<Rightarrow>
   ('s, 'w) cs_state \<Rightarrow> (bool \<times> ('s, 'w) cs_state) \<times> bool" where
  "ControlService_Start S p k seed evs st = Start_loop S p k evs (Start_once S p k seed (False, st))"

definition ControlService_Stop :: "('s, 'w) ControlService \<Rightarrow> ('s, 'w) ControlService" where
  "ControlService_Stop cs = cs\<lparr>tickerInterval := None, cancelled := True\<rparr>"

subsection \<open>What a fetch does to the state\<close>

text \<open>The part of the service that callbacks do not touch.\<close>

definition core ::
  "('s, 'w) ControlService \<Rightarrow> (string \<times> string) list \<times> 's option \<times> (string \<times> 'w consumer) list
     \<times> (string \<times> 'w subscriber list) list \<times> bool" where
  "core cs = (lastFetched cs, cs_store cs, consumers cs, subscribers cs, fetchLocked cs)"

lemma core_eqD:
  "core cs' = core cs \<Longrightarrow> lastFetched cs' = lastFetched cs \<and> cs_store cs' = cs_store cs
     \<and> consumers cs' = consumers cs \<and> subscribers cs' = subscribers cs \<and> fetchLocked cs' = fetchLocked cs"
  by (simp add: core_def)

lemma Fetch_locked_is_Fetch:
  "fetchLocked (fst st) \<Longrightarrow> Fetch S p k seed st = Fetch_locked k st"
  by (cases st) (simp add: Fetch_def Fetch_locked_def)

lemma run_callback_frame:
  "\<exists>cs'. run_callback k cb (cs, w, lg) = (cs', w, lg) \<and> core cs' = core cs"
  by (cases cb)
    (auto simp: ControlService_Do_def ControlService_FlagsChanged_def requestIntervalChanged_def
      Fetch_locked_def core_def Let_def)

lemma run_callbacks_frame:
  "\<exists>cs'. fold (run_callback k) cbs (cs, w, lg) = (cs', w, lg) \<and> core cs' = core cs"
proof (induction cbs arbitrary: cs)
  case (Cons cb cbs)
  obtain cs1 where "run_callback k cb (cs, w, lg) = (cs1, w, lg)" "core cs1 = core cs"
    using run_callback_frame[of k cb cs w lg] by blast
  with Cons[of cs1] show ?case by auto
qed auto

text \<open>What was fetched, read off the log.\<close>

fun fetched :: "cs_event list \<Rightarrow> (string \<times> string) list" where
  "fetched [] = []"
| "fetched (Fetched s h # evs) = (s, h) # fetched evs"
| "fetched (_ # evs) = fetched evs"

lemma fetched_append [simp]: "fetched (a @ b) = fetched a @ fetched b"
  by (induction a rule: fetched.induct) auto

lemma fetched_pings [simp]: "fetched (map (\<lambda>_. Pinged s) l) = []"
  by (induction l) auto

lemma control_update_frame:
  "\<exists>err cs' w' new. control_update k s data (cs, w, lg) = (err, cs', w', lg @ new)
     \<and> core cs' = core cs \<and> fetched new = []
     \<and> (map_of (consumers cs) s = None \<longrightarrow> err = None)
     \<and> (\<forall>con. map_of (consumers cs) s = Some con \<longrightarrow> err = fst (snd (con w data)))"
proof (cases "map_of (consumers cs) s")
  case None
  then show ?thesis by (auto simp: control_update_def Let_def)
next
  case (Some con)
  obtain w' err cbs where con: "con w data = (w', err, cbs)" by (cases "con w data")
  obtain cs' where cb: "fold (run_callback k) cbs (cs, w', lg @ [Consumed s data (err = None)])
      = (cs', w', lg @ [Consumed s data (err = None)])" "core cs' = core cs"
    using run_callbacks_frame[of k cbs cs w' "lg @ [Consumed s data (err = None)]"] by blast
  show ?thesis
    using Some con cb by (cases err) (auto simp: control_update_def Let_def)
qed

text \<open>The two outcomes of a fetch of one subsystem: it failed and nothing was recorded, or its hash was.\<close>

lemma fetchAndUpdate_cases:
  obtains err cs' w' new where
    "fetchAndUpdate S p k s h (cs, w, lg) = (Some err, cs', w', lg @ Fetched s h # new)"
    "core cs' = core cs" "fetched new = []"
  | cs1 cs' w' new where
    "fetchAndUpdate S p k s h (cs, w, lg) = (None, cs', w', lg @ Fetched s h # new)"
    "fetched new = []" "core cs1 = core cs"
    "cs' = cs1\<lparr>lastFetched := AList.update s h (lastFetched cs1),
       cs_store := (case cs_store cs1 of None \<Rightarrow> None
         | Some st \<Rightarrow> (case kv_Set S st s h of Inl _ \<Rightarrow> Some st | Inr st' \<Rightarrow> Some st'))\<rparr>"
proof -
  obtain w' r where g: "GetSubsystemData p w h = (w', r)" by force
  show thesis
  proof (cases "\<exists>data. r = Inr (Some data)")
    case False
    then have "\<exists>err. fetchAndUpdate S p k s h (cs, w, lg) = (Some err, cs, w', lg @ [Fetched s h])"
      using g by (cases r) (auto simp: fetchAndUpdate_def split: option.splits)
    then show thesis using that(1)[of _ cs w' "[]"] by auto
  next
    case True
    then obtain data where data: "r = Inr (Some data)" by blast
    obtain err cs1 w1 new where u:
      "control_update k s data (cs, w', lg @ [Fetched s h]) = (err, cs1, w1, (lg @ [Fetched s h]) @ new)"
      "core cs1 = core cs" "fetched new = []"
      using control_update_frame[of k s data cs w' "lg @ [Fetched s h]"] by blast
    show thesis
    proof (cases err)
      case (Some e)
      with u g data show thesis
        by (intro that(1)[of e cs1 w1 new]) (auto simp: fetchAndUpdate_def)
    next
      case None
      with u g data show thesis
        by (intro that(2)[OF _ u(3,2) refl])
          (auto simp: fetchAndUpdate_def Let_def split: option.splits sum.splits)
    qed
  qed
qed

text \<open>Subsystems whose update always succeeds, or always fails.\<close>

definition always_ok :: "'w dataProvider \<Rightarrow> (string \<times> 'w consumer) list \<Rightarrow> string \<Rightarrow> bool" where
  "always_ok p cons s \<longleftrightarrow> (\<forall>w h. \<exists>w' d. GetSubsystemData p w h = (w', Inr (Some d)))
     \<and> (\<forall>con w d. map_of cons s = Some con \<longrightarrow> fst (snd (con w d)) = None)"

definition always_fails :: "(string \<times> 'w consumer) list \<Rightarrow> string \<Rightarrow> bool" where
  "always_fails cons s \<longleftrightarrow> (\<exists>con. map_of cons s = Some con \<and> (\<forall>w d. fst (snd (con w d)) \<noteq> None))"

definition same_shape :: "('s, 'w) ControlService \<Rightarrow> ('s, 'w) ControlService \<Rightarrow> bool" where
  "same_shape cs' cs \<longleftrightarrow> consumers cs' = consumers cs \<and> subscribers cs' = subscribers cs
     \<and> fetchLocked cs' = fetchLocked cs \<and> (cs_store cs' = None \<longleftrightarrow> cs_store cs = None)"

lemma same_shape_known: "same_shape cs' cs \<Longrightarrow> knownSubsystem cs' = knownSubsystem cs"
  by (simp add: same_shape_def knownSubsystem_def fun_eq_iff)

lemma control_update_err:
  "fst (control_update k s data (cs, w, lg)) =
     (case map_of (consumers cs) s of None \<Rightarrow> None | Some con \<Rightarrow> fst (snd (con w data)))"
  by (auto simp: control_update_def Let_def split: option.splits prod.splits)

lemma fetchAndUpdate_fst:
  "fst (fetchAndUpdate S p k s h (cs, w, lg)) = None \<longleftrightarrow>
     (\<exists>w' data. GetSubsystemData p w h = (w', Inr (Some data))
       \<and> fst (control_update k s data (cs, w', lg @ [Fetched s h])) = None)"
  by (auto simp: fetchAndUpdate_def Let_def split: option.splits sum.splits prod.splits)

lemma fetchAndUpdate_err:
  "always_ok p (consumers cs) s \<Longrightarrow> fst (fetchAndUpdate S p k s h (cs, w, lg)) = None"
  "always_fails (consumers cs) s \<Longrightarrow> fst (fetchAndUpdate S p k s h (cs, w, lg)) \<noteq> None"
proof -
  assume ok: "always_ok p (consumers cs) s"
  then obtain w' d where "GetSubsystemData p w h = (w', Inr (Some d))" unfolding always_ok_def by blast
  moreover have "fst (control_update k s d (cs, w', lg @ [Fetched s h])) = None"
    using ok by (simp add: control_update_err always_ok_def split: option.splits)
  ultimately show "fst (fetchAndUpdate S p k s h (cs, w, lg)) = None"
    by (simp add: fetchAndUpdate_fst)
next
  assume "always_fails (consumers cs) s"
  then have "fst (control_update k s d (cs, w', lg @ [Fetched s h])) \<noteq> None" for d w'
    by (auto simp: control_update_err always_fails_def)
  then show "fst (fetchAndUpdate S p k s h (cs, w, lg)) \<noteq> None"
    by (simp add: fetchAndUpdate_fst)
qed

text \<open>Which of the fetched subsystems \<open>fs\<close> were updated, and the hashes known after that.\<close>

definition outcomes ::
  "'w dataProvider \<Rightarrow> (string \<times> 'w consumer) list \<Rightarrow> (string \<times> string) list \<Rightarrow> string set \<Rightarrow> bool" where
  "outcomes p cons fs ok \<longleftrightarrow> ok \<subseteq> fst ` set fs \<and> (\<forall>t\<in>fst ` set fs.
     (always_ok p cons t \<longrightarrow> t \<in> ok) \<and> (always_fails cons t \<longrightarrow> t \<notin> ok))"

definition hashes_after ::
  "('s, string, 'acc) KVStore \<Rightarrow> (string \<times> string) list \<Rightarrow> string set \<Rightarrow>
   ('s, 'w) ControlService \<Rightarrow> ('s, 'w) ControlService \<Rightarrow> bool" where
  "hashes_after S m ok cs cs' \<longleftrightarrow> same_shape cs' cs
     \<and> (\<forall>t. lastHash S cs' t = (if t \<in> ok then the (map_of m t) else lastHash S cs t))
     \<and> (\<forall>t. storedHash S (cs_store cs') t = (if t \<in> ok \<and> t \<noteq> '''' \<and> cs_store cs \<noteq> None
          then the (map_of m t) else storedHash S (cs_store cs) t))"

lemma outcomes_Cons:
  "outcomes p cons [(s, h)] ok1 \<Longrightarrow> outcomes p cons fs ok2 \<Longrightarrow> s \<notin> fst ` set fs \<Longrightarrow>
   outcomes p cons ((s, h) # fs) (ok1 \<union> ok2)"
  unfolding outcomes_def by fastforce

lemma hashes_after_skip:
  "hashes_after S m ok cs cs' \<Longrightarrow> s \<notin> ok \<Longrightarrow> hashes_after S ((s, h) # m) ok cs cs'"
  unfolding hashes_after_def by auto

lemma hashes_after_Cons:
  assumes 1: "hashes_after S [(s, h)] ok1 cs cs1" "ok1 \<subseteq> {s}"
    and 2: "hashes_after S m ok2 cs1 cs2" "s \<notin> ok2"
  shows "hashes_after S ((s, h) # m) (ok1 \<union> ok2) cs cs2"
proof -
  have "same_shape cs2 cs" and st: "cs_store cs1 = None \<longleftrightarrow> cs_store cs = None"
    using 1(1) 2(1) by (simp_all add: hashes_after_def same_shape_def)
  moreover have "lastHash S cs2 t = (if t \<in> ok1 \<union> ok2 then the (map_of ((s, h) # m) t) else lastHash S cs t)" for t
    using 1 2 by (cases "t = s") (auto simp: hashes_after_def)
  moreover have "storedHash S (cs_store cs2) t = (if t \<in> ok1 \<union> ok2 \<and> t \<noteq> '''' \<and> cs_store cs \<noteq> None
      then the (map_of ((s, h) # m) t) else storedHash S (cs_store cs) t)" for t
    using 1 2 st by (cases "t = s") (auto simp: hashes_after_def)
  ultimately show ?thesis by (simp add: hashes_after_def)
qed

text \<open>The store of hashes is a store of strings.\<close>

locale hash_store = kv_store S lookup inv
  for S :: "('s, string, 'acc) KVStore"
    and lookup :: "'s \<Rightarrow> string \<Rightarrow> string option"
    and inv :: "'s \<Rightarrow> bool"
begin

lemma lastHash_core: "core cs' = core cs \<Longrightarrow> lastHash S cs' s = lastHash S cs s"
  by (drule core_eqD) (simp add: lastHash_def)

text \<open>One subsystem: the log, and the hashes known afterwards, in memory and after a restart.\<close>

lemma storedHash_set:
  fixes store :: "'s option" and s h t :: string
  assumes "\<forall>st. store = Some st \<longrightarrow> inv st"
  defines "store' \<equiv> (case store of None \<Rightarrow> None
       | Some st \<Rightarrow> (case kv_Set S st s h of Inl _ \<Rightarrow> Some st | Inr st' \<Rightarrow> Some st'))"
  shows "storedHash S store' t = (if t = s \<and> s \<noteq> '''' \<and> store \<noteq> None then h else storedHash S store t)"
    and "(\<forall>st. store' = Some st \<longrightarrow> inv st) \<and> (store' = None \<longleftrightarrow> store = None)"
proof -
  have "storedHash S store' t = (if t = s \<and> s \<noteq> '''' \<and> store \<noteq> None then h else storedHash S store t)
    \<and> (\<forall>st. store' = Some st \<longrightarrow> inv st) \<and> (store' = None \<longleftrightarrow> store = None)"
  proof (cases store)
    case None
    then show ?thesis by (simp add: store'_def)
  next
    case (Some st)
    then have st: "inv st" using assms(1) by simp
    show ?thesis
    proof (cases "s = ''''")
      case True
      then show ?thesis using Some st set_blank[OF st, of h] by (auto simp: store'_def is_err_iff)
    next
      case False
      then obtain st' where "kv_Set S st s h = Inr st'" "inv st'" "lookup st' = (lookup st)(s \<mapsto> h)"
        using set_ok[OF st] by blast
      then show ?thesis using Some st False by (simp add: store'_def storedHash_def get_ok)
    qed
  qed
  then show "storedHash S store' t = (if t = s \<and> s \<noteq> '''' \<and> store \<noteq> None then h else storedHash S store t)"
    "(\<forall>st. store' = Some st \<longrightarrow> inv st) \<and> (store' = None \<longleftrightarrow> store = None)" by blast+
qed

lemma fetchAndUpdate_hashes:
  assumes "\<forall>st. cs_store cs = Some st \<longrightarrow> inv st"
  shows "\<exists>cs' w' new ok. snd (fetchAndUpdate S p k s h (cs, w, lg)) = (cs', w', lg @ Fetched s h # new)
    \<and> fetched new = [] \<and> (\<forall>st. cs_store cs' = Some st \<longrightarrow> inv st)
    \<and> outcomes p (consumers cs) [(s, h)] ok \<and> hashes_after S [(s, h)] ok cs cs'"
proof (rule fetchAndUpdate_cases[of S p k s h cs w lg])
  fix err cs' w' new
  assume *: "fetchAndUpdate S p k s h (cs, w, lg) = (Some err, cs', w', lg @ Fetched s h # new)"
    "core cs' = core cs" "fetched new = []"
  show ?thesis
    using * assms core_eqD[OF *(2)]
      fetchAndUpdate_err(1)[of p cs s S k h w lg]
    by (intro exI[of _ cs'] exI[of _ w'] exI[of _ new] exI[of _ "{}"])
      (auto simp: lastHash_core[OF *(2)] same_shape_def hashes_after_def outcomes_def)
next
  fix cs1 cs' w' new
  assume *: "fetchAndUpdate S p k s h (cs, w, lg) = (None, cs', w', lg @ Fetched s h # new)"
    "fetched new = []" "core cs1 = core cs"
    "cs' = cs1\<lparr>lastFetched := AList.update s h (lastFetched cs1),
       cs_store := (case cs_store cs1 of None \<Rightarrow> None
         | Some st \<Rightarrow> (case kv_Set S st s h of Inl _ \<Rightarrow> Some st | Inr st' \<Rightarrow> Some st'))\<rparr>"
  note c = core_eqD[OF *(3)]
  have cs': "cs_store cs' = (case cs_store cs of None \<Rightarrow> None
       | Some st \<Rightarrow> (case kv_Set S st s h of Inl _ \<Rightarrow> Some st | Inr st' \<Rightarrow> Some st'))"
    "map_of (lastFetched cs') t = (if t = s then Some h else map_of (lastFetched cs) t)"
    "consumers cs' = consumers cs" "subscribers cs' = subscribers cs" "fetchLocked cs' = fetchLocked cs" for t
    using c by (simp_all add: *(4) update_conv')
  note sh = storedHash_set[OF assms, of s h, folded cs'(1)]
  show ?thesis
    using fetchAndUpdate_err(2)[of cs s S p k h w lg]
    by (intro exI[of _ cs'] exI[of _ w'] exI[of _ new] exI[of _ "{s}"])
      (auto simp: *(1,2) lastHash_def cs'(2-5) sh same_shape_def hashes_after_def outcomes_def)
qed

text \<open>
  A whole fetch, when no flag forces it: it asks for exactly the known subsystems whose hash is not
  the last known one (all known ones when a full fetch was requested), each once and in the order
  of the map range.
\<close>

lemma Fetch_loop_hashes:
  assumes "\<And>w. \<not> k_ForceControlSubsystems k w" and "distinct (map fst subs)"
    and "\<forall>st. cs_store cs = Some st \<longrightarrow> inv st"
  shows "\<exists>cs' w' new ok. Fetch_loop S p k full subs (cs, w, lg) = (cs', w', lg @ new)
    \<and> fetched new = filter (\<lambda>(s, h). knownSubsystem cs s \<and> (full \<or> h \<noteq> lastHash S cs s)) subs
    \<and> (\<forall>st. cs_store cs' = Some st \<longrightarrow> inv st)
    \<and> outcomes p (consumers cs) (fetched new) ok \<and> hashes_after S subs ok cs cs'"
  using assms(2,3)
proof (induction subs arbitrary: cs w lg)
  case Nil
  then show ?case by (intro exI[of _ cs] exI[of _ w] exI[of _ "[]"] exI[of _ "{}"])
      (simp add: same_shape_def hashes_after_def outcomes_def)
next
  case (Cons sh subs)
  obtain s h where sh: "sh = (s, h)" by force
  have d: "distinct (map fst subs)" and sn: "s \<notin> fst ` set subs"
    using Cons.prems(1) sh by simp_all
  let ?P = "\<lambda>cs (s, h). knownSubsystem cs s \<and> (full \<or> h \<noteq> lastHash S cs s)"
  show ?case
  proof (cases "?P cs sh")
    case False
    with sh assms(1) have "Fetch_loop S p k full (sh # subs) (cs, w, lg) = Fetch_loop S p k full subs (cs, w, lg)"
      by auto
    moreover from Cons.IH[OF d Cons.prems(2), of w lg] obtain cs' w' new ok where
      *: "Fetch_loop S p k full subs (cs, w, lg) = (cs', w', lg @ new)" "fetched new = filter (?P cs) subs"
      "\<forall>st. cs_store cs' = Some st \<longrightarrow> inv st" "outcomes p (consumers cs) (fetched new) ok"
      "hashes_after S subs ok cs cs'"
      by blast
    moreover have "s \<notin> ok" using *(2,4) sn by (auto simp: outcomes_def)
    ultimately show ?thesis
      using False sh hashes_after_skip[of S subs ok cs cs' s h]
      by (intro exI[of _ cs'] exI[of _ w'] exI[of _ new] exI[of _ ok]) auto
  next
    case True
    obtain cs1 w1 n1 ok1 where 1:
      "snd (fetchAndUpdate S p k s h (cs, w, lg)) = (cs1, w1, lg @ Fetched s h # n1)" "fetched n1 = []"
      "\<forall>st. cs_store cs1 = Some st \<longrightarrow> inv st"
      "outcomes p (consumers cs) [(s, h)] ok1" "hashes_after S [(s, h)] ok1 cs cs1"
      using fetchAndUpdate_hashes[OF Cons.prems(2), of p k s h w lg] by blast
    have ok1: "ok1 \<subseteq> {s}" using 1(4) by (auto simp: outcomes_def)
    have sm: "same_shape cs1 cs" using 1(5) by (simp add: hashes_after_def)
    then have con: "consumers cs1 = consumers cs" by (simp add: same_shape_def)
    from Cons.IH[OF d 1(3), of w1 "lg @ Fetched s h # n1"] obtain cs' w' n2 ok2 where 2:
      "Fetch_loop S p k full subs (cs1, w1, lg @ Fetched s h # n1) = (cs', w', (lg @ Fetched s h # n1) @ n2)"
      "fetched n2 = filter (?P cs1) subs" "\<forall>st. cs_store cs' = Some st \<longrightarrow> inv st"
      "outcomes p (consumers cs) (fetched n2) ok2" "hashes_after S subs ok2 cs1 cs'"
      unfolding con by blast
    have f: "filter (?P cs1) subs = filter (?P cs) subs"
    proof (rule filter_cong[OF refl])
      fix x assume "x \<in> set subs"
      then have "fst x \<noteq> s" "fst x \<notin> ok1" using sn ok1 by force+
      then show "?P cs1 x = ?P cs x"
        using 1(5) same_shape_known[OF sm] by (cases x) (simp add: hashes_after_def)
    qed
    have s2: "s \<notin> fst ` set (fetched n2)" "s \<notin> ok2" using 2(2,4) sn by (auto simp: outcomes_def)
    have "Fetch_loop S p k full (sh # subs) (cs, w, lg) = (cs', w', lg @ (Fetched s h # n1 @ n2))"
      using True sh 1(1) 2(1) assms(1) by auto
    then show ?thesis
      using True sh 1(2) 2(2,3) f outcomes_Cons[OF 1(4) 2(4) s2(1)] hashes_after_Cons[OF 1(5) ok1 2(5) s2(2)]
      by (intro exI[of _ cs'] exI[of _ w'] exI[of _ "Fetched s h # n1 @ n2"] exI[of _ "ok1 \<union> ok2"]) simp
  qed
qed

end

text \<open>
  In world \<open>w\<close> the server answers with the map \<open>subs\<close>; what a fetch should ask for; the service may fetch.
\<close>

definition serves :: "'w dataProvider \<Rightarrow> 'w \<Rightarrow> (string \<times> string) list \<Rightarrow> bool" where
  "serves p w subs \<longleftrightarrow> (\<exists>w0 d. GetConfig p w = (w0, Inr (Some d)) \<and> DecodeSubsystems p d = Some subs)"

definition to_fetch ::
  "('s, string, 'acc) KVStore \<Rightarrow> ('s, 'w) ControlService \<Rightarrow> (string \<times> string) list \<Rightarrow> (string \<times> string) list" where
  "to_fetch S cs subs = filter (\<lambda>(s, h). knownSubsystem cs s \<and> (fetchFull cs \<or> h \<noteq> lastHash S cs s)) subs"

definition ready :: "'w knapsack \<Rightarrow> ('s, 'w) ControlService \<Rightarrow> 'w \<Rightarrow> bool" where
  "ready k cs w \<longleftrightarrow> \<not> k_InModernStandby k w \<and> \<not> fetchLocked cs"

lemma hash_fields [simp]:
  "lastHash S (cs\<lparr>fetchLocked := b\<rparr>) t = lastHash S cs t"
  "lastHash S (cs\<lparr>fetchFull := b\<rparr>) t = lastHash S cs t"
  "lastHash S (cs\<lparr>lastFetched := []\<rparr>) t = storedHash S (cs_store cs) t"
  "knownSubsystem (cs\<lparr>fetchLocked := b\<rparr>) = knownSubsystem cs"
  "knownSubsystem (cs\<lparr>fetchFull := b\<rparr>) = knownSubsystem cs"
  "knownSubsystem (cs\<lparr>lastFetched := m\<rparr>) = knownSubsystem cs"
  by (simp_all add: lastHash_def knownSubsystem_def fun_eq_iff)

context hash_store
begin

lemma Fetch_hashes:
  assumes "ready k cs w" and "serves p w subs" and "distinct (map fst subs)"
    and "\<And>w. \<not> k_ForceControlSubsystems k w" and "\<forall>st. cs_store cs = Some st \<longrightarrow> inv st"
  shows "\<exists>cs' w' new ok. Fetch S p k seed (cs, w, lg) = (None, cs', w', lg @ new)
    \<and> mset (fetched new) = mset (to_fetch S cs subs)
    \<and> (\<forall>st. cs_store cs' = Some st \<longrightarrow> inv st)
    \<and> outcomes p (consumers cs) (to_fetch S cs subs) ok \<and> hashes_after S subs ok cs cs'"
proof -
  from assms(2) obtain w0 d where c: "GetConfig p w = (w0, Inr (Some d))" "DecodeSubsystems p d = Some subs"
    by (auto simp: serves_def)
  let ?cs = "cs\<lparr>fetchLocked := True, fetchFull := False\<rparr>"
  have d: "distinct (map fst (go_range seed subs))" and inv: "\<forall>st. cs_store ?cs = Some st \<longrightarrow> inv st"
    using assms(3,5) by simp_all
  obtain cs1 w1 new ok where l:
    "Fetch_loop S p k (fetchFull cs) (go_range seed subs) (?cs, w0, lg) = (cs1, w1, lg @ new)"
    "fetched new = filter (\<lambda>(s, h). knownSubsystem ?cs s \<and> (fetchFull cs \<or> h \<noteq> lastHash S ?cs s)) (go_range seed subs)"
    "\<forall>st. cs_store cs1 = Some st \<longrightarrow> inv st"
    "outcomes p (consumers ?cs) (fetched new) ok" "hashes_after S (go_range seed subs) ok ?cs cs1"
    using Fetch_loop_hashes[OF assms(4) d inv, where p = p and full = "fetchFull cs" and w = w0 and lg = lg] by blast
  have ms: "mset (fetched new) = mset (to_fetch S cs subs)"
    by (simp add: l(2) to_fetch_def)
  then have "outcomes p (consumers cs) (to_fetch S cs subs) ok"
    using l(4) mset_eq_setD[OF ms] by (simp add: outcomes_def)
  moreover have "Fetch S p k seed (cs, w, lg) = (None, cs1\<lparr>fetchLocked := False\<rparr>, w1, lg @ new)"
    using assms(1) c l(1) by (simp add: Fetch_def ready_def)
  moreover have "hashes_after S subs ok cs (cs1\<lparr>fetchLocked := False\<rparr>)"
    using l(5) assms(1,3) by (auto simp: hashes_after_def same_shape_def ready_def map_of_go_range)
  ultimately show ?thesis
    using ms l(3) by (intro exI[of _ "cs1\<lparr>fetchLocked := False\<rparr>"] exI[of _ w1] exI[of _ new] exI[of _ ok]) simp
qed

end

text \<open>Consumers that do not call back for a full fetch.\<close>

definition no_full_requests :: "(string \<times> 'w consumer) list \<Rightarrow> bool" where
  "no_full_requests cons \<longleftrightarrow> (\<forall>s con w d. map_of cons s = Some con \<longrightarrow> CallDo \<notin> set (snd (snd (con w d))))"

lemma run_callbacks_full:
  "CallDo \<notin> set cbs \<Longrightarrow> fetchFull (fst (fold (run_callback k) cbs st)) = fetchFull (fst st)"
proof (induction cbs arbitrary: st)
  case (Cons cb cbs)
  then obtain ks where cb: "cb = CallFlagsChanged ks" by (cases cb) auto
  have "fetchFull (fst (run_callback k cb st)) = fetchFull (fst st)"
    by (cases st) (auto simp: cb ControlService_FlagsChanged_def requestIntervalChanged_def Fetch_locked_def Let_def)
  with Cons show ?case by simp
qed simp

lemma control_update_full:
  assumes "no_full_requests (consumers cs)"
  shows "fetchFull (fst (snd (control_update k s data (cs, w, lg)))) = fetchFull cs"
proof (cases "map_of (consumers cs) s")
  case None
  then show ?thesis by (simp add: control_update_def Let_def)
next
  case (Some con)
  obtain w' err cbs where con: "con w data = (w', err, cbs)" by (cases "con w data")
  then have "CallDo \<notin> set cbs" using assms Some unfolding no_full_requests_def by (metis snd_conv)
  from run_callbacks_full[OF this, of k "(cs, w', lg @ [Consumed s data (err = None)])"] show ?thesis
    using Some con by (cases err) (auto simp: control_update_def Let_def split: prod.splits)
qed

lemma fetchAndUpdate_full:
  assumes "no_full_requests (consumers cs)"
  shows "fetchFull (fst (snd (fetchAndUpdate S p k s h (cs, w, lg)))) = fetchFull cs"
proof -
  obtain w' r where g: "GetSubsystemData p w h = (w', r)" by force
  show ?thesis
  proof (cases "\<exists>data. r = Inr (Some data)")
    case False
    with g show ?thesis by (cases r) (auto simp: fetchAndUpdate_def split: option.splits)
  next
    case True
    then obtain data where data: "r = Inr (Some data)" by blast
    obtain err cs1 w1 lg1 where u: "control_update k s data (cs, w', lg @ [Fetched s h]) = (err, cs1, w1, lg1)"
      by (cases "control_update k s data (cs, w', lg @ [Fetched s h])")
    then have "fetchFull cs1 = fetchFull cs" using control_update_full[OF assms, of k s data w' "lg @ [Fetched s h]"] by simp
    with g data u show ?thesis
      by (cases err) (auto simp: fetchAndUpdate_def Let_def split: option.splits sum.splits)
  qed
qed

lemma fetchAndUpdate_consumers: "consumers (fst (snd (fetchAndUpdate S p k s h (cs, w, lg)))) = consumers cs"
  by (rule fetchAndUpdate_cases[of S p k s h cs w lg]) (auto dest: core_eqD)

lemma Fetch_loop_full:
  "no_full_requests (consumers cs) \<Longrightarrow> fetchFull (fst (Fetch_loop S p k full subs (cs, w, lg))) = fetchFull cs"
proof (induction subs arbitrary: cs w lg)
  case (Cons sh subs)
  obtain s h where sh: "sh = (s, h)" by force
  obtain e cs1 w1 lg1 where f: "fetchAndUpdate S p k s h (cs, w, lg) = (e, cs1, w1, lg1)"
    by (cases "fetchAndUpdate S p k s h (cs, w, lg)")
  have "no_full_requests (consumers cs1)" "fetchFull cs1 = fetchFull cs"
    using fetchAndUpdate_consumers[of S p k s h cs w lg] fetchAndUpdate_full[OF Cons.prems, of S p k s h w lg] Cons.prems f by simp_all
  with Cons.IH[of cs1 w1 lg1] Cons.IH[of cs w lg] Cons.prems f show ?case by (auto simp: sh)
qed simp

lemma Fetch_full:
  assumes "ready k cs w" "serves p w subs" "no_full_requests (consumers cs)" "Fetch S p k seed (cs, w, lg) = (err, cs', w', lg')"
  shows "\<not> fetchFull cs'"
proof -
  from assms(2) obtain w0 d where c: "GetConfig p w = (w0, Inr (Some d))" "DecodeSubsystems p d = Some subs"
    by (auto simp: serves_def)
  let ?cs = "cs\<lparr>fetchLocked := True, fetchFull := False\<rparr>"
  obtain cs1 w1 lg1 where l: "Fetch_loop S p k (fetchFull cs) (go_range seed subs) (?cs, w0, lg) = (cs1, w1, lg1)"
    by (cases "Fetch_loop S p k (fetchFull cs) (go_range seed subs) (?cs, w0, lg)")
  have "\<not> fetchFull cs1"
    using Fetch_loop_full[of ?cs S p k "fetchFull cs" "go_range seed subs" w0 lg] assms(3) l by simp
  moreover have "cs' = cs1\<lparr>fetchLocked := False\<rparr>" using assms(1,4) c l by (simp add: Fetch_def ready_def)
  ultimately show ?thesis by simp
qed

text \<open>
  The states of a service that was made with a store: registering consumers and subscribers, requests for a full
  fetch, fetches with any answers of the server and any failures, and changes of flags.
\<close>

inductive service_reach :: "('s, string, 'acc) KVStore \<Rightarrow> ('s \<Rightarrow> bool) \<Rightarrow> ('s, 'w) ControlService \<Rightarrow> bool" for S sinv where
  reach_new: "sinv st \<Longrightarrow> service_reach S sinv (fst (ControlService_New k w [Control_WithStore st]))"
| reach_consumer: "service_reach S sinv cs \<Longrightarrow> RegisterConsumer s con cs = Inr cs' \<Longrightarrow> service_reach S sinv cs'"
| reach_subscriber: "service_reach S sinv cs \<Longrightarrow> service_reach S sinv (RegisterSubscriber s sub cs)"
| reach_do: "service_reach S sinv cs \<Longrightarrow> service_reach S sinv (ControlService_Do cs)"
| reach_fetch: "service_reach S sinv cs \<Longrightarrow> Fetch S p k seed (cs, w, lg) = (err, cs', w', lg') \<Longrightarrow> service_reach S sinv cs'"
| reach_flags: "service_reach S sinv cs \<Longrightarrow>
    ControlService_FlagsChanged k (Fetch S p k seed) ks (cs, w, lg) = (cs', w', lg') \<Longrightarrow> service_reach S sinv cs'"
| reach_stop: "service_reach S sinv cs \<Longrightarrow> service_reach S sinv (ControlService_Stop cs)"

text \<open>The store has every hash that is in memory (under a name the store accepts), and no fetch is left running.\<close>

definition hashes_stored :: "('s, string, 'acc) KVStore \<Rightarrow> ('s \<Rightarrow> bool) \<Rightarrow> ('s, 'w) ControlService \<Rightarrow> bool" where
  "hashes_stored S sinv cs \<longleftrightarrow> (\<exists>st. cs_store cs = Some st \<and> sinv st)
     \<and> (\<forall>s. s \<noteq> '''' \<longrightarrow> lastHash S cs s = storedHash S (cs_store cs) s)"

definition asks_nothing ::
  "('s, string, 'acc) KVStore \<Rightarrow> 'w dataProvider \<Rightarrow> 'w knapsack \<Rightarrow> ('s, 'w) ControlService \<Rightarrow> (string \<times> string) list \<Rightarrow> bool" where
  "asks_nothing S p k cs subs \<longleftrightarrow> (\<forall>w seed lg. \<not> k_InModernStandby k w \<and> serves p w subs \<longrightarrow>
     (\<exists>cs' w' new. Fetch S p k seed (cs, w, lg) = (None, cs', w', lg @ new) \<and> fetched new = []))"

lemma hashes_stored_fields:
  "lastFetched cs' = lastFetched cs \<Longrightarrow> cs_store cs' = cs_store cs \<Longrightarrow> hashes_stored S sinv cs' = hashes_stored S sinv cs"
  by (simp add: hashes_stored_def lastHash_def)

context hash_store
begin

lemma Fetch_loop_stored:
  "hashes_stored S inv cs \<Longrightarrow> hashes_stored S inv (fst (Fetch_loop S p k full subs (cs, w, lg)))"
proof (induction subs arbitrary: cs w lg)
  case (Cons sh subs)
  obtain s h where sh: "sh = (s, h)" by force
  have "\<forall>st. cs_store cs = Some st \<longrightarrow> inv st" using Cons.prems by (auto simp: hashes_stored_def)
  from fetchAndUpdate_hashes[OF this, of p k s h w lg] obtain cs1 w1 lg1 ok where
    f: "snd (fetchAndUpdate S p k s h (cs, w, lg)) = (cs1, w1, lg1)" "\<forall>st. cs_store cs1 = Some st \<longrightarrow> inv st"
    "hashes_after S [(s, h)] ok cs cs1" by blast
  have "hashes_stored S inv cs1"
    using f(2,3) Cons.prems by (auto simp: hashes_after_def hashes_stored_def same_shape_def)
  with Cons.IH[of cs1 w1 lg1] Cons.IH[OF Cons.prems, of w lg] f(1) show ?case by (auto simp: sh)
qed simp

lemma Fetch_stored:
  assumes "Fetch S p k seed (cs, w, lg) = (err, cs', w', lg')" "hashes_stored S inv cs" "\<not> fetchLocked cs"
  shows "hashes_stored S inv cs' \<and> \<not> fetchLocked cs'"
proof (cases "fst (snd (Fetch S p k seed (cs, w, lg))) = cs")
  case False
  then obtain w0 d subs where c: "\<not> k_InModernStandby k w" "GetConfig p w = (w0, Inr (Some d))" "DecodeSubsystems p d = Some subs"
    using assms(3) by (auto simp: Fetch_def split: if_splits prod.splits sum.splits option.splits)
  let ?cs = "cs\<lparr>fetchLocked := True, fetchFull := False\<rparr>"
  obtain cs1 w1 lg1 where l: "Fetch_loop S p k (fetchFull cs) (go_range seed subs) (?cs, w0, lg) = (cs1, w1, lg1)"
    by (cases "Fetch_loop S p k (fetchFull cs) (go_range seed subs) (?cs, w0, lg)")
  have "hashes_stored S inv ?cs" using assms(2) hashes_stored_fields[of ?cs cs S inv] by simp
  from Fetch_loop_stored[OF this, of p k "fetchFull cs" "go_range seed subs" w0 lg] l
  have "hashes_stored S inv cs1" by simp
  moreover have "cs' = cs1\<lparr>fetchLocked := False\<rparr>" using assms(1,3) c l by (simp add: Fetch_def)
  ultimately show ?thesis using hashes_stored_fields[of cs' cs1 S inv] by simp
qed (use assms in simp)

lemma requestIntervalChanged_stored:
  assumes "hashes_stored S inv cs" "\<not> fetchLocked cs"
    and "requestIntervalChanged (Fetch S p k seed) i (cs, w, lg) = (cs', w', lg')"
  shows "hashes_stored S inv cs' \<and> \<not> fetchLocked cs'"
proof (cases "i = requestInterval cs")
  case False
  obtain err cs1 w1 lg1 where f: "Fetch S p k seed (cs, w, lg) = (err, cs1, w1, lg1)" by (cases "Fetch S p k seed (cs, w, lg)")
  then have "cs' = cs1\<lparr>requestInterval := i, tickerInterval := Some i\<rparr>"
    using False assms(3) by (simp add: requestIntervalChanged_def)
  then show ?thesis using Fetch_stored[OF f assms(1,2)] hashes_stored_fields[of cs' cs1 S inv] by simp
qed (use assms in \<open>simp add: requestIntervalChanged_def\<close>)

lemma FlagsChanged_stored:
  assumes "hashes_stored S inv cs" "\<not> fetchLocked cs"
    and "ControlService_FlagsChanged k (Fetch S p k seed) ks (cs, w, lg) = (cs', w', lg')"
  shows "hashes_stored S inv cs' \<and> \<not> fetchLocked cs'"
proof -
  let ?st = "if keys_Contains ks (FlagKey_of ControlRequestInterval)
    then requestIntervalChanged (Fetch S p k seed) (k_ControlRequestInterval k w) (cs, w, lg) else (cs, w, lg)"
  obtain cs1 w1 lg1 where 1: "?st = (cs1, w1, lg1)" by (rule prod_cases3)
  then have ok: "hashes_stored S inv cs1" "\<not> fetchLocked cs1"
    using assms(1,2) requestIntervalChanged_stored[OF assms(1,2)] by (auto split: if_splits)
  obtain err cs2 w2 lg2 where 2: "Fetch S p k seed (cs1, w1, lg1) = (err, cs2, w2, lg2)" by (rule prod_cases4)
  have "(cs', w', lg') = (if keys_Contains ks (FlagKey_of InModernStandby) \<and> \<not> k_InModernStandby k w1 then (cs2, w2, lg2) else (cs1, w1, lg1))"
    using assms(3) 2 by (simp only: ControlService_FlagsChanged_def Let_def fst_conv snd_conv 1 split: if_splits)
  then show ?thesis using ok Fetch_stored[OF 2 ok] by (auto split: if_splits)
qed

lemma service_stored: "service_reach S inv cs \<Longrightarrow> hashes_stored S inv cs \<and> \<not> fetchLocked cs"
proof (induction rule: service_reach.induct)
  case (reach_new st k w)
  then show ?case by (simp add: ControlService_New_def Control_WithStore_def hashes_stored_def lastHash_def Let_def)
next
  case (reach_consumer cs s con cs')
  then show ?case using hashes_stored_fields[of cs' cs S inv] by (auto simp: RegisterConsumer_def split: if_splits)
next
  case (reach_subscriber cs s sub)
  then show ?case using hashes_stored_fields[of "RegisterSubscriber s sub cs" cs S inv] by (simp add: RegisterSubscriber_def Let_def)
next
  case (reach_do cs)
  then show ?case using hashes_stored_fields[of "ControlService_Do cs" cs S inv] by (simp add: ControlService_Do_def)
next
  case (reach_fetch cs p k seed w lg err cs' w' lg')
  then show ?case using Fetch_stored[OF reach_fetch.hyps(2)] by simp
next
  case (reach_flags cs k p seed ks w lg cs' w' lg')
  then show ?case using FlagsChanged_stored[OF _ _ reach_flags.hyps(2)] by simp
next
  case (reach_stop cs)
  then show ?case using hashes_stored_fields[of "ControlService_Stop cs" cs S inv] by (simp add: ControlService_Stop_def)
qed

lemma nothing_to_fetch:
  assumes "to_fetch S cs subs = []" "\<not> fetchLocked cs" "distinct (map fst subs)"
    and "\<And>w. \<not> k_ForceControlSubsystems k w" "\<forall>st. cs_store cs = Some st \<longrightarrow> inv st"
  shows "asks_nothing S p k cs subs"
  unfolding asks_nothing_def
proof (intro allI impI)
  fix w seed lg assume "\<not> k_InModernStandby k w \<and> serves p w subs"
  then show "\<exists>cs' w' new. Fetch S p k seed (cs, w, lg) = (None, cs', w', lg @ new) \<and> fetched new = []"
    using Fetch_hashes[OF _ _ assms(3-5), of w p seed lg] assms(1,2) by (fastforce simp: ready_def)
qed

text \<open>After a fetch in which nothing fails, the known subsystems of the map have the served hash, in memory and in the store.\<close>

lemma Fetch_all_ok:
  assumes "ready k cs w" "serves p w subs" "distinct (map fst subs)" "'''' \<notin> fst ` set subs"
    and "\<And>w. \<not> k_ForceControlSubsystems k w" "hashes_stored S inv cs" "\<forall>s. always_ok p (consumers cs) s"
  shows "\<exists>cs' w' new. Fetch S p k seed (cs, w, lg) = (None, cs', w', lg @ new) \<and> same_shape cs' cs
    \<and> (\<forall>(s, h)\<in>set subs. knownSubsystem cs s \<longrightarrow> lastHash S cs' s = h \<and> storedHash S (cs_store cs') s = h)"
proof -
  have st: "\<forall>st. cs_store cs = Some st \<longrightarrow> inv st" "cs_store cs \<noteq> None" using assms(6) by (auto simp: hashes_stored_def)
  obtain cs' w' new ok where f: "Fetch S p k seed (cs, w, lg) = (None, cs', w', lg @ new)"
    "outcomes p (consumers cs) (to_fetch S cs subs) ok" "hashes_after S subs ok cs cs'"
    using Fetch_hashes[OF assms(1-3,5) st(1), of seed lg] by blast
  have "lastHash S cs' s = h \<and> storedHash S (cs_store cs') s = h" if sh: "(s, h) \<in> set subs" "knownSubsystem cs s" for s h
  proof -
    have sn: "s \<noteq> ''''" and mo: "map_of subs s = Some h" using sh assms(3,4) by force+
    have ok: "s \<in> ok \<longleftrightarrow> fetchFull cs \<or> h \<noteq> lastHash S cs s"
    proof
      assume "s \<in> ok"
      then obtain h' where h': "(s, h') \<in> set (to_fetch S cs subs)" using f(2) by (force simp: outcomes_def)
      then have "map_of subs s = Some h'" using assms(3) by (simp add: to_fetch_def)
      with h' mo show "fetchFull cs \<or> h \<noteq> lastHash S cs s" by (auto simp: to_fetch_def)
    next
      assume "fetchFull cs \<or> h \<noteq> lastHash S cs s"
      then have "(s, h) \<in> set (to_fetch S cs subs)" using sh by (simp add: to_fetch_def)
      then show "s \<in> ok" using f(2) assms(7) by (force simp: outcomes_def)
    qed
    show ?thesis using f(3) mo sn ok st(2) assms(6) by (auto simp: hashes_after_def hashes_stored_def)
  qed
  then show ?thesis using f(1,3) by (intro exI[of _ cs'] exI[of _ w'] exI[of _ new]) (auto simp: hashes_after_def)
qed

end

interpretation inmem_hashes: hash_store "inmem_KVStore rs" inmem_lookup inmem_inv for rs
  by unfold_locales

text \<open>The in-memory store as the store of hashes.\<close>

abbreviation hash_mem :: "nat list \<Rightarrow> (string inmem, string, unit) KVStore" where
  "hash_mem rs \<equiv> inmem_KVStore rs"

subsection \<open>Properties\<close>

text \<open>C11: unless a flag forces it, a fetch asks the server for exactly the subsystems that have a consumer
  or subscriber and whose hash differs from the last known one (all known ones when a full fetch was
  requested), each once.  A subsystem whose consumer fails keeps its old hash; one that succeeds has
  the new hash afterwards; no other hash changes.\<close>

theorem control_fetches_exactly_changed:
  assumes "ready k cs w" and "serves p w subs" and "distinct (map fst subs)"
    and "\<And>w. \<not> k_ForceControlSubsystems k w" and "\<forall>st. cs_store cs = Some st \<longrightarrow> inmem_inv st"
  shows "\<exists>cs' w' new. Fetch (hash_mem rs) p k seed (cs, w, lg) = (None, cs', w', lg @ new)
    \<and> mset (fetched new) = mset (to_fetch (hash_mem rs) cs subs)
    \<and> (\<forall>(s, h)\<in>set (to_fetch (hash_mem rs) cs subs).
         (always_ok p (consumers cs) s \<longrightarrow> lastHash (hash_mem rs) cs' s = h)
         \<and> (always_fails (consumers cs) s \<longrightarrow>
              lastHash (hash_mem rs) cs' s = lastHash (hash_mem rs) cs s))
    \<and> (\<forall>s. s \<notin> fst ` set (to_fetch (hash_mem rs) cs subs) \<longrightarrow>
         lastHash (hash_mem rs) cs' s = lastHash (hash_mem rs) cs s)"
proof -
  obtain cs' w' new ok where f: "Fetch (hash_mem rs) p k seed (cs, w, lg) = (None, cs', w', lg @ new)"
    "mset (fetched new) = mset (to_fetch (hash_mem rs) cs subs)"
    "outcomes p (consumers cs) (to_fetch (hash_mem rs) cs subs) ok" "hashes_after (hash_mem rs) subs ok cs cs'"
    using inmem_hashes.Fetch_hashes[OF assms(1-5), of rs seed lg] by blast
  have last: "lastHash (hash_mem rs) cs' t
      = (if t \<in> ok then the (map_of subs t) else lastHash (hash_mem rs) cs t)" for t
    using f(4) by (simp add: hashes_after_def)
  have "(always_ok p (consumers cs) s \<longrightarrow> lastHash (hash_mem rs) cs' s = h)
      \<and> (always_fails (consumers cs) s \<longrightarrow> lastHash (hash_mem rs) cs' s = lastHash (hash_mem rs) cs s)"
    if sh: "(s, h) \<in> set (to_fetch (hash_mem rs) cs subs)" for s h
  proof -
    have "map_of subs s = Some h" using sh assms(3) by (simp add: to_fetch_def)
    moreover have "s \<in> fst ` set (to_fetch (hash_mem rs) cs subs)" using sh by force
    moreover have "(always_ok p (consumers cs) s \<longrightarrow> s \<in> ok) \<and> (always_fails (consumers cs) s \<longrightarrow> s \<notin> ok)"
      using f(3) calculation(2) unfolding outcomes_def by blast
    ultimately show ?thesis using last[of s] by simp
  qed
  moreover have "lastHash (hash_mem rs) cs' s = lastHash (hash_mem rs) cs s"
    if "s \<notin> fst ` set (to_fetch (hash_mem rs) cs subs)" for s
  proof -
    have "s \<notin> ok" using f(3) that by (auto simp: outcomes_def)
    with last show ?thesis by simp
  qed
  ultimately show ?thesis using f(1,2) by blast
qed

text \<open>
  A server with one subsystem, whose consumer records the data it gets in the world; and the same
  server when a consumer fails.
\<close>

definition example_provider :: "string list dataProvider" where
  "example_provider = \<lparr>GetConfig = (\<lambda>w. (w, Inr (Some ''cfg''))),
     GetSubsystemData = (\<lambda>w h. (w, Inr (Some h))),
     provider_SendMessage = (\<lambda>w meth params. (w, None)),
     DecodeSubsystems = (\<lambda>d. Some [(''flags'', ''h1''), (''unknown'', ''h2'')])\<rparr>"

definition example_knapsack :: "'w knapsack" where
  "example_knapsack = \<lparr>k_ControlRequestInterval = (\<lambda>w. 60), k_InModernStandby = (\<lambda>w. False),
     k_ForceControlSubsystems = (\<lambda>w. False), k_LauncherVersion = ''1'', k_GetRunID = (\<lambda>w. ''run''),
     k_CurrentEnrollmentStatus = (\<lambda>w. Inr ''enrolled''), k_ServerProvidedData = (\<lambda>w n. Inr None),
     k_HardwareSerial = (\<lambda>w. '''')\<rparr>"

definition example_service :: "bool \<Rightarrow> (string inmem, string list) ControlService" where
  "example_service ok = (fst (ControlService_New example_knapsack [] [Control_WithStore inmem_NewStore]))
     \<lparr>consumers := [(''flags'', \<lambda>w d. (w @ [d], if ok then None else Some (ErrNew ''no''), []))]\<rparr>"

lemmas example_service_defs = example_service_def ControlService_New_def Control_WithStore_def
  example_knapsack_def example_provider_def

lemma example_service_ok:
  "ready example_knapsack (example_service ok) w"
  "serves example_provider w [(''flags'', ''h1''), (''unknown'', ''h2'')]"
  "\<not> k_ForceControlSubsystems example_knapsack w"
  "\<forall>st. cs_store (example_service ok) = Some st \<longrightarrow> inmem_inv st"
  "to_fetch (hash_mem rs) (example_service ok) [(''flags'', ''h1''), (''unknown'', ''h2'')] = [(''flags'', ''h1'')]"
  "always_ok example_provider (consumers (example_service True)) ''flags''"
  "always_fails (consumers (example_service False)) ''flags''"
  using inmem_wf_NewStore
  by (simp_all add: example_service_defs ready_def serves_def to_fetch_def knownSubsystem_def
      lastHash_def storedHash_def inmem_KVStore_def inmem_NewStore_def always_ok_def always_fails_def Let_def)

theorem control_fetches_exactly_changed_witness:
  "\<exists>cs' w' new. Fetch (hash_mem []) example_provider example_knapsack [] (example_service True, [], [])
      = (None, cs', w', [] @ new)
    \<and> mset (fetched new) = {#(''flags'', ''h1'')#} \<and> lastHash (hash_mem []) cs' ''flags'' = ''h1''"
proof -
  let ?subs = "[(''flags'', ''h1''), (''unknown'', ''h2'')]"
  have d: "distinct (map fst ?subs)" by simp
  obtain cs' w' new where
    "Fetch (hash_mem []) example_provider example_knapsack [] (example_service True, [], []) = (None, cs', w', [] @ new)"
    "mset (fetched new) = mset (to_fetch (hash_mem []) (example_service True) ?subs)"
    "\<forall>(s, h)\<in>set (to_fetch (hash_mem []) (example_service True) ?subs).
       (always_ok example_provider (consumers (example_service True)) s \<longrightarrow> lastHash (hash_mem []) cs' s = h)
       \<and> (always_fails (consumers (example_service True)) s \<longrightarrow>
            lastHash (hash_mem []) cs' s = lastHash (hash_mem []) (example_service True) s)"
    using control_fetches_exactly_changed[OF example_service_ok(1)[of True "[]"] example_service_ok(2)[of "[]"] d
        example_service_ok(3) example_service_ok(4)[of True], of "[]" "[]" "[]"] by blast
  then show ?thesis
    using example_service_ok(6) by (intro exI[of _ cs'] exI[of _ w'] exI[of _ new]) (simp add: example_service_ok(5))
qed

text \<open>C29: when nothing fails, fetching converges, from every state a service with a store can reach: a fetch
  succeeds, and after it a fetch asks for nothing as long as the server serves the same map, unless a consumer
  called back for a full fetch while it ran; and neither does a service that is restarted with the same store,
  consumers and subscribers.  No flag forces fetching, and every subsystem of the map has a name.\<close>

theorem control_fetch_converges:
  assumes "service_reach (hash_mem rs) inmem_inv cs" and "\<not> k_InModernStandby k w"
    and "serves p w subs" and "distinct (map fst subs)" and "'''' \<notin> fst ` set subs"
    and "\<And>w. \<not> k_ForceControlSubsystems k w" and "\<forall>s. always_ok p (consumers cs) s"
  shows "\<exists>cs' w' new. Fetch (hash_mem rs) p k seed (cs, w, lg) = (None, cs', w', lg @ new)
    \<and> (no_full_requests (consumers cs) \<longrightarrow> \<not> fetchFull cs')
    \<and> (\<not> fetchFull cs' \<longrightarrow> asks_nothing (hash_mem rs) p k cs' subs)
    \<and> (\<forall>cs0. lastFetched cs0 = [] \<and> \<not> fetchFull cs0 \<and> \<not> fetchLocked cs0 \<and> cs_store cs0 = cs_store cs'
         \<and> consumers cs0 = consumers cs \<and> subscribers cs0 = subscribers cs
         \<longrightarrow> asks_nothing (hash_mem rs) p k cs0 subs)"
proof -
  have cs: "hashes_stored (hash_mem rs) inmem_inv cs" "\<not> fetchLocked cs"
    using inmem_hashes.service_stored[OF assms(1)] by blast+
  have r: "ready k cs w" using assms(2) cs(2) by (simp add: ready_def)
  obtain cs' w' new where f: "Fetch (hash_mem rs) p k seed (cs, w, lg) = (None, cs', w', lg @ new)" "same_shape cs' cs"
    "\<forall>(s, h)\<in>set subs. knownSubsystem cs s \<longrightarrow> lastHash (hash_mem rs) cs' s = h \<and> storedHash (hash_mem rs) (cs_store cs') s = h"
    using inmem_hashes.Fetch_all_ok[OF r assms(3-6) cs(1) assms(7), of seed lg] by blast
  have st: "\<forall>st. cs_store cs' = Some st \<longrightarrow> inmem_inv st" "\<not> fetchLocked cs'"
    using inmem_hashes.Fetch_stored[OF f(1) cs] by (auto simp: hashes_stored_def)
  have "asks_nothing (hash_mem rs) p k cs' subs" if "\<not> fetchFull cs'"
  proof (rule inmem_hashes.nothing_to_fetch[OF _ st(2) assms(4,6) st(1)])
    show "to_fetch (hash_mem rs) cs' subs = []"
      using f(3) that same_shape_known[OF f(2)] by (auto simp: to_fetch_def filter_empty_conv)
  qed
  moreover have "asks_nothing (hash_mem rs) p k cs0 subs"
    if 0: "lastFetched cs0 = []" "\<not> fetchFull cs0" "\<not> fetchLocked cs0" "cs_store cs0 = cs_store cs'"
      "consumers cs0 = consumers cs" "subscribers cs0 = subscribers cs" for cs0
  proof (rule inmem_hashes.nothing_to_fetch[OF _ 0(3) assms(4,6)])
    have "knownSubsystem cs0 = knownSubsystem cs" using 0(5,6) by (simp add: knownSubsystem_def fun_eq_iff)
    then show "to_fetch (hash_mem rs) cs0 subs = []"
      using f(3) 0(1,2,4) by (auto simp: to_fetch_def filter_empty_conv lastHash_def)
  qed (use st(1) 0(4) in simp)
  ultimately show ?thesis using f(1) Fetch_full[OF r assms(3) _ f(1)] by blast
qed

lemma example_service_reach: "service_reach (hash_mem []) inmem_inv (example_service ok)"
proof -
  let ?cs = "fst (ControlService_New example_knapsack [] [Control_WithStore inmem_NewStore]) :: (string inmem, string list) ControlService"
  have "service_reach (hash_mem []) inmem_inv ?cs" by (rule reach_new[where sinv = inmem_inv, OF inmem_wf_NewStore])
  moreover have "RegisterConsumer ''flags'' (\<lambda>w d. (w @ [d], if ok then None else Some (ErrNew ''no''), [])) ?cs = Inr (example_service ok)"
    by (simp add: RegisterConsumer_def example_service_defs Let_def)
  ultimately show ?thesis by (rule reach_consumer)
qed

theorem control_fetch_converges_witness:
  "\<exists>cs' w' new. Fetch (hash_mem []) example_provider example_knapsack [] (example_service True, [], [])
      = (None, cs', w', [] @ new)
    \<and> asks_nothing (hash_mem []) example_provider example_knapsack cs' [(''flags'', ''h1''), (''unknown'', ''h2'')]"
proof -
  let ?subs = "[(''flags'', ''h1''), (''unknown'', ''h2'')]"
  have subs: "distinct (map fst ?subs)" "'''' \<notin> fst ` set ?subs" by simp_all
  have k: "\<not> k_InModernStandby example_knapsack ([] :: string list)" by (simp add: example_knapsack_def)
  have cs: "\<forall>s. always_ok example_provider (consumers (example_service True)) s"
    "no_full_requests (consumers (example_service True))"
    by (auto simp: example_service_defs always_ok_def no_full_requests_def Let_def split: if_splits)
  show ?thesis
    using control_fetch_converges[OF example_service_reach[of True] k example_service_ok(2)[of "[]"] subs
        example_service_ok(3) cs(1), of "[]" "[]"] cs(2) by blast
qed

text \<open>C30: a full fetch that was requested is not retried for a subsystem whose consumer fails during it: the
  fetch asks for the subsystem and keeps its old hash, the request is dropped before the subsystems are
  fetched, and unless a consumer called back for a full fetch meanwhile, the next fetch that gets the same
  map asks for the subsystem only if the served hash is not the last known one, so not when the full
  fetch was the only reason to ask for it.\<close>

theorem forced_fetch_failure_is_not_retried:
  assumes "ready k cs w" and "serves p w subs" and "distinct (map fst subs)" and "\<And>w. \<not> k_ForceControlSubsystems k w"
    and "\<forall>st. cs_store cs = Some st \<longrightarrow> inmem_inv st"
    and "fetchFull cs" and "(s, h) \<in> set subs" and "always_fails (consumers cs) s"
  shows "\<exists>cs' w' new. Fetch (hash_mem rs) p k seed (cs, w, lg) = (None, cs', w', lg @ new)
    \<and> (s, h) \<in> set (fetched new) \<and> lastHash (hash_mem rs) cs' s = lastHash (hash_mem rs) cs s
    \<and> (no_full_requests (consumers cs) \<longrightarrow> \<not> fetchFull cs')
    \<and> (\<not> fetchFull cs' \<longrightarrow> (\<forall>w2 seed2 lg2. \<not> k_InModernStandby k w2 \<and> serves p w2 subs \<longrightarrow>
         (\<exists>cs2 w3 new2. Fetch (hash_mem rs) p k seed2 (cs', w2, lg2) = (None, cs2, w3, lg2 @ new2)
            \<and> ((s, h) \<in> set (fetched new2) \<longleftrightarrow> h \<noteq> lastHash (hash_mem rs) cs s))))"
proof -
  obtain cs' w' new ok where f: "Fetch (hash_mem rs) p k seed (cs, w, lg) = (None, cs', w', lg @ new)"
    "mset (fetched new) = mset (to_fetch (hash_mem rs) cs subs)" "\<forall>st. cs_store cs' = Some st \<longrightarrow> inmem_inv st"
    "outcomes p (consumers cs) (to_fetch (hash_mem rs) cs subs) ok" "hashes_after (hash_mem rs) subs ok cs cs'"
    using inmem_hashes.Fetch_hashes[OF assms(1-5), of rs seed lg] by blast
  have known: "knownSubsystem cs s" using assms(8) by (auto simp: always_fails_def knownSubsystem_def)
  then have sh: "(s, h) \<in> set (to_fetch (hash_mem rs) cs subs)" using assms(6,7) by (simp add: to_fetch_def)
  then have "s \<notin> ok" using f(4) assms(8) by (force simp: outcomes_def)
  then have last: "lastHash (hash_mem rs) cs' s = lastHash (hash_mem rs) cs s" using f(5) by (simp add: hashes_after_def)
  have sm: "same_shape cs' cs" using f(5) by (simp add: hashes_after_def)
  have "\<exists>cs2 w3 new2. Fetch (hash_mem rs) p k seed2 (cs', w2, lg2) = (None, cs2, w3, lg2 @ new2)
      \<and> ((s, h) \<in> set (fetched new2) \<longleftrightarrow> h \<noteq> lastHash (hash_mem rs) cs s)"
    if "\<not> fetchFull cs'" "\<not> k_InModernStandby k w2" "serves p w2 subs" for w2 seed2 lg2
  proof -
    have "ready k cs' w2" using sm assms(1) that(2) by (simp add: ready_def same_shape_def)
    from inmem_hashes.Fetch_hashes[OF this that(3) assms(3,4) f(3), of rs seed2 lg2] obtain cs2 w3 new2 where
      2: "Fetch (hash_mem rs) p k seed2 (cs', w2, lg2) = (None, cs2, w3, lg2 @ new2)"
      "mset (fetched new2) = mset (to_fetch (hash_mem rs) cs' subs)" by blast
    have "(s, h) \<in> set (fetched new2) \<longleftrightarrow> h \<noteq> lastHash (hash_mem rs) cs s"
      using mset_eq_setD[OF 2(2)] that(1) assms(7) known same_shape_known[OF sm] last by (simp add: to_fetch_def)
    with 2(1) show ?thesis by blast
  qed
  then show ?thesis
    using f(1) last Fetch_full[OF assms(1,2) _ f(1)] sh mset_eq_setD[OF f(2)] by blast
qed

definition example_forced :: "(string inmem, string list) ControlService" where
  "example_forced = ControlService_Do ((example_service False)\<lparr>lastFetched := [(''flags'', ''h1'')]\<rparr>)"

theorem forced_fetch_failure_is_not_retried_witness:
  "\<exists>cs' w' new. Fetch (hash_mem []) example_provider example_knapsack [] (example_forced, [], []) = (None, cs', w', [] @ new)
    \<and> (''flags'', ''h1'') \<in> set (fetched new)
    \<and> (\<exists>cs2 w3 new2. Fetch (hash_mem []) example_provider example_knapsack [] (cs', [], []) = (None, cs2, w3, [] @ new2)
         \<and> (''flags'', ''h1'') \<notin> set (fetched new2))"
proof -
  let ?subs = "[(''flags'', ''h1''), (''unknown'', ''h2'')]"
  have cs: "ready example_knapsack example_forced []" "fetchFull example_forced"
    "lastHash (hash_mem []) example_forced ''flags'' = ''h1''" "no_full_requests (consumers example_forced)"
    by (auto simp: example_forced_def ControlService_Do_def example_service_defs ready_def lastHash_def no_full_requests_def Let_def
        split: if_splits)
  have st: "\<forall>st. cs_store example_forced = Some st \<longrightarrow> inmem_inv st"
    using example_service_ok(4)[of False] by (simp add: example_forced_def ControlService_Do_def)
  have fails: "always_fails (consumers example_forced) ''flags''"
    using example_service_ok(7) by (simp add: example_forced_def ControlService_Do_def)
  have subs: "distinct (map fst ?subs)" "(''flags'', ''h1'') \<in> set ?subs" by simp_all
  have k: "\<not> k_InModernStandby example_knapsack ([] :: string list)" by (simp add: example_knapsack_def)
  obtain cs' w' new where
    1: "Fetch (hash_mem []) example_provider example_knapsack [] (example_forced, [], []) = (None, cs', w', [] @ new)"
      "(''flags'', ''h1'') \<in> set (fetched new)" "\<not> fetchFull cs'"
    and 2: "\<forall>w2 seed2 lg2. \<not> k_InModernStandby example_knapsack w2 \<and> serves example_provider w2 ?subs \<longrightarrow>
       (\<exists>cs2 w3 new2. Fetch (hash_mem []) example_provider example_knapsack seed2 (cs', w2, lg2) = (None, cs2, w3, lg2 @ new2)
         \<and> ((''flags'', ''h1'') \<in> set (fetched new2) \<longleftrightarrow> ''h1'' \<noteq> lastHash (hash_mem []) example_forced ''flags''))"
    using forced_fetch_failure_is_not_retried[OF cs(1) example_service_ok(2)[of "[]"] subs(1) example_service_ok(3) st cs(2)
        subs(2) fails, of "[]" "[]" "[]"] cs(4) by blast
  from 2[rule_format, OF conjI[OF k example_service_ok(2)], of "[]" "[]", unfolded cs(3)] obtain cs2 w3 new2 where
    "Fetch (hash_mem []) example_provider example_knapsack [] (cs', [], []) = (None, cs2, w3, [] @ new2)"
    "(''flags'', ''h1'') \<notin> set (fetched new2)" by blast
  with 1 show ?thesis by blast
qed

end
