(* ===== verification/OsqueryHistory.thy ===== *)
theory OsqueryHistory
  imports KVStore
begin

text \<open>
  The history of osquery instances (\<open>pkg/osquery/runtime/history\<close>: \<open>history.go\<close>, \<open>instance.go\<close>,
  \<open>storage.go\<close>): the last ten starts of osquery, kept in memory and saved after every change.

  JSON and RFC 3339 times are the record \<open>history_codec\<close> of the conversions the code makes; the
  querier is a function of the world.  A change that fails half way leaves its effect in memory:
  operations return the history together with their error.
\<close>

subsection \<open>Data\<close>

record osq_instance =
  EnrollmentId :: string
  RunId :: string
  StartTime :: string
  ConnectTime :: string
  ExitTime :: string
  Hostname :: string
  InstanceId :: string
  Version :: string
  Error :: string

record 's History =
  instances :: "osq_instance list"
  h_store :: 's

record history_codec =
  UnmarshalInstances :: "string \<Rightarrow> osq_instance list option"
  MarshalInstances :: "osq_instance list \<Rightarrow> string option"
  FormatRFC3339 :: "int \<Rightarrow> string"
  ParseRFC3339 :: "string \<Rightarrow> int option"

definition maxInstances :: nat where
  "maxInstances = 10"

definition osqueryHistoryInstanceKey :: string where
  "osqueryHistoryInstanceKey = ''osquery_instance_history''"

definition NoInstancesError :: error where
  "NoInstancesError = ErrNew ''no osquery instances have been added to history''"

definition ExpectedAtLeastOneRowError :: error where
  "ExpectedAtLeastOneRowError = ErrNew ''expected at least one row from osquery_info table''"

type_synonym 'w querier = "'w \<Rightarrow> string \<Rightarrow> 'w \<times> (error + (string \<times> string) list list)"

subsection \<open>One instance\<close>

text \<open>\<open>timeNow\<close> at a second \<open>now\<close>.\<close>

definition timeNow :: "history_codec \<Rightarrow> int \<Rightarrow> string" where
  "timeNow c now = FormatRFC3339 c now"

definition Connected ::
  "history_codec \<Rightarrow> int \<Rightarrow> 'w querier \<Rightarrow> 'w \<Rightarrow> osq_instance \<Rightarrow> 'w \<times> (error + osq_instance)" where
  "Connected c now q w i =
     (case q w ''select instance_id, version from osquery_info order by start_time limit 1'' of
        (w', Inl err) \<Rightarrow> (w', Inl err)
      | (w', Inr []) \<Rightarrow> (w', Inl ExpectedAtLeastOneRowError)
      | (w', Inr (row # _)) \<Rightarrow>
          (case map_of row ''instance_id'' of
             None \<Rightarrow> (w', Inl (ErrNew ''instance_id column was not present in query results''))
           | Some iid \<Rightarrow>
               (case map_of row ''version'' of
                  None \<Rightarrow> (w', Inl (ErrNew ''version column was not present in query results''))
                | Some ver \<Rightarrow>
                    (w', Inr (i\<lparr>ConnectTime := timeNow c now, InstanceId := iid, Version := ver\<rparr>)))))"

definition Exited :: "history_codec \<Rightarrow> int \<Rightarrow> string option \<Rightarrow> osq_instance \<Rightarrow> osq_instance" where
  "Exited c now exitError i =
     (let i1 = (case exitError of None \<Rightarrow> i | Some e \<Rightarrow> i\<lparr>Error := e\<rparr>)
      in i1\<lparr>ExitTime := timeNow c now\<rparr>)"

definition toMap :: "osq_instance \<Rightarrow> (string \<times> string) list" where
  "toMap i =
     [(''enrollment_id'', EnrollmentId i), (''instance_run_id'', RunId i), (''start_time'', StartTime i),
      (''connect_time'', ConnectTime i), (''exit_time'', ExitTime i), (''hostname'', Hostname i),
      (''instance_id'', InstanceId i), (''version'', Version i), (''errors'', Error i)]"

subsection \<open>Storage\<close>

definition history_load ::
  "history_codec \<Rightarrow> ('s, string, 'acc) KVStore \<Rightarrow> 's History \<Rightarrow> error + 's History" where
  "history_load c S h =
     (case kv_Get S (h_store h) osqueryHistoryInstanceKey of
        Inl err \<Rightarrow> Inl (ErrWrap ''error reading osquery_instance_history from db'' err)
      | Inr None \<Rightarrow> Inr h
      | Inr (Some instancesBytes) \<Rightarrow>
          (case UnmarshalInstances c instancesBytes of
             None \<Rightarrow> Inl (ErrNew ''error unmarshalling osquery_instance_history'')
           | Some l \<Rightarrow> Inr (h\<lparr>instances := l\<rparr>)))"

definition history_save ::
  "history_codec \<Rightarrow> ('s, string, 'acc) KVStore \<Rightarrow> 's History \<Rightarrow> error option \<times> 's History" where
  "history_save c S h =
     (case MarshalInstances c (instances h) of
        None \<Rightarrow> (Some (ErrNew ''error marshalling osquery_instance_history''), h)
      | Some instancesBytes \<Rightarrow>
          (case kv_Set S (h_store h) osqueryHistoryInstanceKey instancesBytes of
             Inl err \<Rightarrow> (Some (ErrWrap ''error writing osquery_instance_history to storage'' err), h)
           | Inr st \<Rightarrow> (None, h\<lparr>h_store := st\<rparr>)))"

definition InitHistory ::
  "history_codec \<Rightarrow> ('s, string, 'acc) KVStore \<Rightarrow> 's \<Rightarrow> error + 's History" where
  "InitHistory c S st =
     (case history_load c S \<lparr>instances = [], h_store = st\<rparr> of
        Inl err \<Rightarrow> Inl (ErrWrap ''error loading osquery_instance_history'' err)
      | Inr h \<Rightarrow> Inr h)"

definition wrap_save ::
  "history_codec \<Rightarrow> ('s, string, 'acc) KVStore \<Rightarrow> 's History \<Rightarrow> error option \<times> 's History" where
  "wrap_save c S h =
     (case history_save c S h of
        (Some err, h') \<Rightarrow> (Some (ErrWrap ''error saving osquery_instance_history'' err), h')
      | (None, h') \<Rightarrow> (None, h'))"

subsection \<open>Reading\<close>

definition GetHistory :: "'s History \<Rightarrow> error + (string \<times> string) list list" where
  "GetHistory h =
     (if length (instances h) = 0 then Inl NoInstancesError else Inr (map toMap (instances h)))"

text \<open>The loop runs from the last index down: \<open>latest_loop n\<close> looks at the first \<open>n\<close> instances.\<close>

fun latest_loop :: "nat \<Rightarrow> string \<Rightarrow> osq_instance list \<Rightarrow> osq_instance option" where
  "latest_loop 0 eid l = None"
| "latest_loop (Suc n) eid l = (if EnrollmentId (l ! n) = eid then Some (l ! n) else latest_loop n eid l)"

definition latestInstance :: "'s History \<Rightarrow> string \<Rightarrow> error + osq_instance" where
  "latestInstance h enrollmentId =
     (if length (instances h) = 0 then Inl NoInstancesError
      else (case latest_loop (length (instances h)) enrollmentId (instances h) of
              None \<Rightarrow> Inl NoInstancesError
            | Some i \<Rightarrow> Inr i))"

definition LatestInstanceStats :: "'s History \<Rightarrow> string \<Rightarrow> error + (string \<times> string) list" where
  "LatestInstanceStats h enrollmentId =
     (case latestInstance h enrollmentId of Inl err \<Rightarrow> Inl err | Inr i \<Rightarrow> Inr (toMap i))"

definition LatestInstanceId :: "'s History \<Rightarrow> string \<Rightarrow> error + string" where
  "LatestInstanceId h enrollmentId =
     (case latestInstance h enrollmentId of Inl err \<Rightarrow> Inl err | Inr i \<Rightarrow> Inr (InstanceId i))"

text \<open>Go's integer division truncates towards zero.\<close>

definition go_div :: "int \<Rightarrow> int \<Rightarrow> int" where
  "go_div a b = sgn a * sgn b * (\<bar>a\<bar> div \<bar>b\<bar>)"

definition LatestInstanceUptimeMinutes :: "history_codec \<Rightarrow> int \<Rightarrow> 's History \<Rightarrow> string \<Rightarrow> error + int" where
  "LatestInstanceUptimeMinutes c now h enrollmentId =
     (case latestInstance h enrollmentId of
        Inl err \<Rightarrow> Inl (ErrWrap ''getting latest instance'' err)
      | Inr lastInstance \<Rightarrow>
          if ExitTime lastInstance \<noteq> '''' then Inr 0
          else (case ParseRFC3339 c (StartTime lastInstance) of
                  None \<Rightarrow> Inl (ErrNew (''parsing start time '' @ StartTime lastInstance))
                | Some startTime \<Rightarrow> Inr (go_div (now - startTime) 60)))"

subsection \<open>Changing\<close>

definition addInstanceToHistory :: "osq_instance \<Rightarrow> 's History \<Rightarrow> 's History" where
  "addInstanceToHistory newInstance h =
     (let l = instances h @ [newInstance]
      in if length l \<ge> maxInstances then h\<lparr>instances := drop (length l - maxInstances) l\<rparr>
         else h\<lparr>instances := l\<rparr>)"

definition NewInstance ::
  "history_codec \<Rightarrow> ('s, string, 'acc) KVStore \<Rightarrow> int \<Rightarrow> error + string \<Rightarrow> string \<Rightarrow> string \<Rightarrow>
   's History \<Rightarrow> error option \<times> 's History" where
  "NewInstance c S now host enrollmentId runId h =
     (case host of
        Inl err \<Rightarrow> (Some err, h)
      | Inr hostname \<Rightarrow>
          wrap_save c S (addInstanceToHistory
            \<lparr>EnrollmentId = enrollmentId, RunId = runId, StartTime = timeNow c now, ConnectTime = '''',
             ExitTime = '''', Hostname = hostname, InstanceId = '''', Version = '''', Error = ''''\<rparr> h))"

text \<open>
  The loops of \<open>SetConnected\<close> and \<open>SetExited\<close> over the first \<open>n\<close> instances, from the last one down.
  The result is the list, whether an instance was found, and the error that ended the loop.
\<close>

fun SetConnected_loop ::
  "history_codec \<Rightarrow> int \<Rightarrow> 'w querier \<Rightarrow> string \<Rightarrow> nat \<Rightarrow> 'w \<times> osq_instance list \<times> bool \<Rightarrow>
   ('w \<times> osq_instance list \<times> bool) \<times> error option" where
  "SetConnected_loop c now q runID 0 st = (st, None)"
| "SetConnected_loop c now q runID (Suc n) (w, l, found) =
     (if RunId (l ! n) \<noteq> runID then SetConnected_loop c now q runID n (w, l, found)
      else (case Connected c now q w (l ! n) of
              (w', Inl err) \<Rightarrow>
                ((w', l, True), Some (ErrWrap ''error setting connected for osquery instance'' err))
            | (w', Inr i) \<Rightarrow> SetConnected_loop c now q runID n (w', l[n := i], True)))"

definition SetConnected ::
  "history_codec \<Rightarrow> ('s, string, 'acc) KVStore \<Rightarrow> int \<Rightarrow> 'w querier \<Rightarrow> string \<Rightarrow> 'w \<Rightarrow> 's History \<Rightarrow>
   error option \<times> 'w \<times> 's History" where
  "SetConnected c S now q runID w h =
     (case SetConnected_loop c now q runID (length (instances h)) (w, instances h, False) of
        ((w', l, found), Some err) \<Rightarrow> (Some err, w', h\<lparr>instances := l\<rparr>)
      | ((w', l, found), None) \<Rightarrow>
          if \<not> found then (Some NoInstancesError, w', h\<lparr>instances := l\<rparr>)
          else (case wrap_save c S (h\<lparr>instances := l\<rparr>) of (err, h') \<Rightarrow> (err, w', h')))"

fun SetExited_loop ::
  "history_codec \<Rightarrow> int \<Rightarrow> string option \<Rightarrow> string \<Rightarrow> nat \<Rightarrow> osq_instance list \<times> bool \<Rightarrow> osq_instance list \<times> bool" where
  "SetExited_loop c now exitError runID 0 st = st"
| "SetExited_loop c now exitError runID (Suc n) (l, found) =
     (if RunId (l ! n) \<noteq> runID then SetExited_loop c now exitError runID n (l, found)
      else SetExited_loop c now exitError runID n (l[n := Exited c now exitError (l ! n)], True))"

definition SetExited ::
  "history_codec \<Rightarrow> ('s, string, 'acc) KVStore \<Rightarrow> int \<Rightarrow> string option \<Rightarrow> string \<Rightarrow> 's History \<Rightarrow>
   error option \<times> 's History" where
  "SetExited c S now exitError runID h =
     (case SetExited_loop c now exitError runID (length (instances h)) (instances h, False) of
        (l, found) \<Rightarrow>
          if \<not> found then (Some NoInstancesError, h\<lparr>instances := l\<rparr>)
          else wrap_save c S (h\<lparr>instances := l\<rparr>))"

subsection \<open>The loops as list functions\<close>

lemma latest_loop_find:
  "n \<le> length l \<Longrightarrow> latest_loop n eid l = find (\<lambda>i. EnrollmentId i = eid) (rev (take n l))"
  by (induction n) (auto simp: take_Suc_conv_app_nth)

lemma latestInstance_find:
  "latestInstance h eid = (case find (\<lambda>i. EnrollmentId i = eid) (rev (instances h)) of
     None \<Rightarrow> Inl NoInstancesError | Some i \<Rightarrow> Inr i)"
  by (simp add: latestInstance_def latest_loop_find)

lemma RunId_Exited [simp]: "RunId (Exited c now e i) = RunId i" "EnrollmentId (Exited c now e i) = EnrollmentId i"
  "ExitTime (Exited c now e i) = timeNow c now"
  by (simp_all add: Exited_def Let_def split: option.splits)

lemma SetExited_loop_map:
  "n \<le> length l \<Longrightarrow> SetExited_loop c now e rid n (l, found)
   = (map (\<lambda>i. if RunId i = rid then Exited c now e i else i) (take n l) @ drop n l,
      found \<or> (\<exists>i\<in>set (take n l). RunId i = rid))"
proof (induction n arbitrary: l found)
  case (Suc n)
  then have n: "n < length l" by simp
  have "take n (l[n := x]) = take n l" "drop n (l[n := x]) = x # drop (Suc n) l" for x
    using n by (simp_all add: drop_update_swap Cons_nth_drop_Suc[symmetric])
  moreover have "drop n l = l ! n # drop (Suc n) l" using n by (simp add: Cons_nth_drop_Suc)
  ultimately show ?case using Suc n by (auto simp: take_Suc_conv_app_nth)
qed simp

lemma SetExited_map:
  "SetExited c S now e rid h =
     (if \<exists>i\<in>set (instances h). RunId i = rid
      then wrap_save c S (h\<lparr>instances := map (\<lambda>i. if RunId i = rid then Exited c now e i else i) (instances h)\<rparr>)
      else (Some NoInstancesError, h))"
proof -
  have "map (\<lambda>i. if RunId i = rid then Exited c now e i else i) l = l" if "\<forall>i\<in>set l. RunId i \<noteq> rid" for l
    using that by (induction l) auto
  then show ?thesis by (simp add: SetExited_def SetExited_loop_map)
qed

subsection \<open>Saving and loading\<close>

definition codec_keeps :: "history_codec \<Rightarrow> osq_instance list \<Rightarrow> bool" where
  "codec_keeps c l \<longleftrightarrow> (\<exists>s. MarshalInstances c l = Some s \<and> UnmarshalInstances c s = Some l)"

locale history_kv = kv_store S lookup inv
  for S :: "('s, string, 'acc) KVStore"
    and lookup :: "'s \<Rightarrow> string \<Rightarrow> string option"
    and inv :: "'s \<Rightarrow> bool"
begin

lemma save_then_init:
  assumes "inv (h_store h)" and "codec_keeps c (instances h)"
  shows "\<exists>st. wrap_save c S h = (None, h\<lparr>h_store := st\<rparr>) \<and> inv st \<and> InitHistory c S st = Inr (h\<lparr>h_store := st\<rparr>)
    \<and> (\<forall>k. k \<noteq> osqueryHistoryInstanceKey \<longrightarrow> lookup st k = lookup (h_store h) k)"
proof -
  obtain s where s: "MarshalInstances c (instances h) = Some s" "UnmarshalInstances c s = Some (instances h)"
    using assms(2) by (auto simp: codec_keeps_def)
  obtain st where st: "kv_Set S (h_store h) osqueryHistoryInstanceKey s = Inr st" "inv st"
    "lookup st = (lookup (h_store h))(osqueryHistoryInstanceKey \<mapsto> s)"
    using set_ok[OF assms(1), of osqueryHistoryInstanceKey s] by (auto simp: osqueryHistoryInstanceKey_def)
  show ?thesis
    using s st by (intro exI[of _ st])
      (simp add: wrap_save_def history_save_def InitHistory_def history_load_def get_ok)
qed

end

interpretation inmem_history: history_kv "inmem_KVStore rs" inmem_lookup inmem_inv for rs
  by unfold_locales

abbreviation history_mem :: "nat list \<Rightarrow> (string inmem, string, unit) KVStore" where
  "history_mem rs \<equiv> inmem_KVStore rs"

subsection \<open>Properties\<close>

text \<open>C13: recording a start keeps at most ten instances, the newest ones, in order and with the new one
  last; the history is saved, so that a launcher that starts on the same store has the same history;
  and the new instance is the latest of its enrollment.\<close>

theorem history_new_instance:
  assumes "inmem_inv (h_store h)" and "length (instances h) \<le> maxInstances"
    and "new = \<lparr>EnrollmentId = eid, RunId = rid, StartTime = timeNow c now, ConnectTime = '''',
             ExitTime = '''', Hostname = host, InstanceId = '''', Version = '''', Error = ''''\<rparr>"
    and "codec_keeps c (drop (length (instances h) - 9) (instances h) @ [new])"
  shows "\<exists>st. NewInstance c (history_mem rs) now (Inr host) eid rid h
      = (None, \<lparr>instances = drop (length (instances h) - 9) (instances h) @ [new], h_store = st\<rparr>)
    \<and> length (drop (length (instances h) - 9) (instances h) @ [new]) \<le> maxInstances
    \<and> InitHistory c (history_mem rs) st
        = Inr \<lparr>instances = drop (length (instances h) - 9) (instances h) @ [new], h_store = st\<rparr>
    \<and> latestInstance \<lparr>instances = drop (length (instances h) - 9) (instances h) @ [new], h_store = st\<rparr> eid = Inr new"
proof -
  let ?l = "drop (length (instances h) - 9) (instances h) @ [new]"
  have add: "addInstanceToHistory new h = h\<lparr>instances := ?l\<rparr>"
    using assms(2) by (simp add: addInstanceToHistory_def maxInstances_def Let_def)
  have "inmem_inv (h_store (h\<lparr>instances := ?l\<rparr>))" "codec_keeps c (instances (h\<lparr>instances := ?l\<rparr>))"
    using assms(1,4) by simp_all
  from inmem_history.save_then_init[OF this, of rs] obtain st where
    "wrap_save c (history_mem rs) (h\<lparr>instances := ?l\<rparr>) = (None, \<lparr>instances = ?l, h_store = st\<rparr>)"
    "InitHistory c (history_mem rs) st = Inr \<lparr>instances = ?l, h_store = st\<rparr>"
    by (cases h) auto
  moreover have "length ?l \<le> maxInstances" using assms(2) by (simp add: maxInstances_def)
  moreover have "latestInstance \<lparr>instances = ?l, h_store = st\<rparr> eid = Inr new"
    by (simp add: latestInstance_find assms(3))
  ultimately show ?thesis using add by (intro exI[of _ st]) (simp add: NewInstance_def assms(3))
qed

text \<open>An example with one instance; the codec knows the lists it is given.\<close>

definition example_instance :: osq_instance where
  "example_instance = \<lparr>EnrollmentId = ''e'', RunId = ''r'', StartTime = ''T'', ConnectTime = '''',
     ExitTime = '''', Hostname = ''h'', InstanceId = '''', Version = '''', Error = ''''\<rparr>"

definition example_history_codec :: "osq_instance list \<Rightarrow> history_codec" where
  "example_history_codec l = \<lparr>UnmarshalInstances = (\<lambda>s. if s = ''saved'' then Some l else None),
     MarshalInstances = (\<lambda>l. Some ''saved''), FormatRFC3339 = (\<lambda>t. ''T''), ParseRFC3339 = (\<lambda>s. Some 0)\<rparr>"

lemma example_codec_keeps: "codec_keeps (example_history_codec l) l"
  by (simp add: codec_keeps_def example_history_codec_def)

theorem history_new_instance_witness:
  "\<exists>st. NewInstance (example_history_codec [example_instance]) (history_mem []) 0 (Inr ''h'') ''e'' ''r''
       \<lparr>instances = [], h_store = inmem_NewStore\<rparr> = (None, \<lparr>instances = [example_instance], h_store = st\<rparr>)
     \<and> InitHistory (example_history_codec [example_instance]) (history_mem []) st
       = Inr \<lparr>instances = [example_instance], h_store = st\<rparr>"
  using history_new_instance[where h = "\<lparr>instances = [], h_store = inmem_NewStore\<rparr>" and new = example_instance
      and c = "example_history_codec [example_instance]" and now = 0 and host = "''h''" and eid = "''e''"
      and rid = "''r''" and rs = "[]"]
    inmem_wf_NewStore example_codec_keeps
  by (auto simp: example_instance_def example_history_codec_def timeNow_def)

text \<open>C31: recording an exit changes exactly the instances of that run: all of them get the exit time, the
  change is saved, and if the latest instance of an enrollment is one of them its uptime is zero from
  then on.  Without such an instance it is an error and nothing changes.\<close>

theorem history_set_exited:
  assumes "inmem_inv (h_store h)"
    and "l = map (\<lambda>i. if RunId i = rid then Exited c now e i else i) (instances h)"
    and "codec_keeps c l" and "timeNow c now \<noteq> ''''"
  shows "((\<forall>i\<in>set (instances h). RunId i \<noteq> rid) \<and> SetExited c (history_mem rs) now e rid h = (Some NoInstancesError, h))
    \<or> (\<exists>st. SetExited c (history_mem rs) now e rid h = (None, \<lparr>instances = l, h_store = st\<rparr>)
        \<and> InitHistory c (history_mem rs) st = Inr \<lparr>instances = l, h_store = st\<rparr>
        \<and> (\<forall>eid i. latestInstance h eid = Inr i \<and> RunId i = rid \<longrightarrow>
             LatestInstanceUptimeMinutes c later \<lparr>instances = l, h_store = st\<rparr> eid = Inr 0))"
proof (cases "\<exists>i\<in>set (instances h). RunId i = rid")
  case False
  then show ?thesis by (auto simp: SetExited_map)
next
  case True
  have "inmem_inv (h_store (h\<lparr>instances := l\<rparr>))" "codec_keeps c (instances (h\<lparr>instances := l\<rparr>))"
    using assms by simp_all
  from inmem_history.save_then_init[OF this, of rs] obtain st where st:
    "wrap_save c (history_mem rs) (h\<lparr>instances := l\<rparr>) = (None, \<lparr>instances = l, h_store = st\<rparr>)"
    "InitHistory c (history_mem rs) st = Inr \<lparr>instances = l, h_store = st\<rparr>"
    by (cases h) auto
  let ?f = "\<lambda>i. if RunId i = rid then Exited c now e i else i"
  have find: "find (\<lambda>i. EnrollmentId i = eid) (map ?f xs) = map_option ?f (find (\<lambda>i. EnrollmentId i = eid) xs)"
    for eid xs by (induction xs) auto
  have "LatestInstanceUptimeMinutes c later \<lparr>instances = l, h_store = st\<rparr> eid = Inr 0"
    if "latestInstance h eid = Inr i" "RunId i = rid" for eid i
    using that assms(4) find[of eid "rev (instances h)"]
    by (auto simp: LatestInstanceUptimeMinutes_def latestInstance_find assms(2) rev_map split: option.splits)
  then show ?thesis using True st assms(2) by (auto simp: SetExited_map)
qed

theorem history_set_exited_witness:
  "\<exists>st. SetExited (example_history_codec [example_instance\<lparr>ExitTime := ''T''\<rparr>]) (history_mem []) 5 None ''r''
       \<lparr>instances = [example_instance], h_store = inmem_NewStore\<rparr>
       = (None, \<lparr>instances = [example_instance\<lparr>ExitTime := ''T''\<rparr>], h_store = st\<rparr>)"
proof -
  let ?l = "[example_instance\<lparr>ExitTime := ''T''\<rparr>]" and ?h = "\<lparr>instances = [example_instance], h_store = inmem_NewStore\<rparr>"
  have "?l = map (\<lambda>i. if RunId i = ''r'' then Exited (example_history_codec ?l) 5 None i else i) (instances ?h)"
    "timeNow (example_history_codec ?l) 5 \<noteq> ''''" "inmem_inv (h_store ?h)"
    using inmem_wf_NewStore
    by (simp_all add: example_instance_def Exited_def timeNow_def example_history_codec_def)
  from history_set_exited[OF this(3,1) example_codec_keeps this(2), where rs = "[]" and later = 0]
  show ?thesis by (elim disjE conjE exE) (simp_all add: example_instance_def, blast?)
qed

end
