(* ===== verification/IdbComparator.thy ===== *)
theory IdbComparator
  imports Launcher_Prelude
begin

text \<open>
  The comparator of Chrome's IndexedDB keys, \<open>idb_cmp1\<close> (\<open>pkg/indexeddbcomparator/comparer.go\<close>).

  Keys are byte lists.  Decoders return the rest of the input and a value, or an error; \<open>Compare\<close>
  turns every error into 0, as the code does after logging it.  Integers decoded from a key are
  64-bit words read as signed numbers.  The recursion over nested array keys consumes the input; it
  is written with fuel, and \<open>enc_enough\<close> shows that the fuel \<open>Compare\<close> gives is never used up.
\<close>

unbundle bit_operations_syntax

subsection \<open>Constants\<close>

definition globalMetadata :: nat where "globalMetadata = 0"
definition databaseMetadata :: nat where "databaseMetadata = 1"
definition objectStoreData :: nat where "objectStoreData = 2"
definition existsEntry :: nat where "existsEntry = 3"
definition indexData :: nat where "indexData = 4"
definition invalidType :: nat where "invalidType = 5"
definition blobEntry :: nat where "blobEntry = 6"
definition objectStoreDataIndexId :: int where "objectStoreDataIndexId = 1"
definition existsEntryIndexId :: int where "existsEntryIndexId = 2"
definition blobEntryIndexId :: int where "blobEntryIndexId = 3"
definition minimumIndexId :: int where "minimumIndexId = 30"
definition maxSimpleGlobalMetaDataTypeByte :: byte where "maxSimpleGlobalMetaDataTypeByte = 7"
definition scopesPrefixByte :: byte where "scopesPrefixByte = 50"
definition databaseFreeListTypeByte :: byte where "databaseFreeListTypeByte = 100"
definition databaseNameTypeByte :: byte where "databaseNameTypeByte = 201"
definition maxSimpleDatabaseMetaDataTypeByte :: byte where "maxSimpleDatabaseMetaDataTypeByte = 6"
definition objectStoreMetaDataTypeByte :: byte where "objectStoreMetaDataTypeByte = 50"
definition indexMetaDataTypeByte :: byte where "indexMetaDataTypeByte = 100"
definition objectStoreFreeListTypeByte :: byte where "objectStoreFreeListTypeByte = 150"
definition indexFreeListTypeByte :: byte where "indexFreeListTypeByte = 151"
definition objectStoreNamesTypeByte :: byte where "objectStoreNamesTypeByte = 200"
definition indexNamesKeyTypeByte :: byte where "indexNamesKeyTypeByte = 201"
definition indexedDBKeyNullTypeByte :: byte where "indexedDBKeyNullTypeByte = 0"
definition indexedDBKeyStringTypeByte :: byte where "indexedDBKeyStringTypeByte = 1"
definition indexedDBKeyDateTypeByte :: byte where "indexedDBKeyDateTypeByte = 2"
definition indexedDBKeyNumberTypeByte :: byte where "indexedDBKeyNumberTypeByte = 3"
definition indexedDBKeyArrayTypeByte :: byte where "indexedDBKeyArrayTypeByte = 4"
definition indexedDBKeyMinKeyTypeByte :: byte where "indexedDBKeyMinKeyTypeByte = 5"
definition indexedDBKeyBinaryTypeByte :: byte where "indexedDBKeyBinaryTypeByte = 6"
definition indexedDBInvalidKeyType :: nat where "indexedDBInvalidKeyType = 0"
definition indexedDBArrayKeyType :: nat where "indexedDBArrayKeyType = 1"
definition indexedDBBinaryKeyType :: nat where "indexedDBBinaryKeyType = 2"
definition indexedDBStringKeyType :: nat where "indexedDBStringKeyType = 3"
definition indexedDBDateKeyType :: nat where "indexedDBDateKeyType = 4"
definition indexedDBNumberKeyType :: nat where "indexedDBNumberKeyType = 5"
definition indexedDBNoneKeyType :: nat where "indexedDBNoneKeyType = 6"
definition indexedDBMinKeyType :: nat where "indexedDBMinKeyType = 7"

lemmas idb_consts =
  globalMetadata_def databaseMetadata_def objectStoreData_def existsEntry_def indexData_def
  invalidType_def blobEntry_def objectStoreDataIndexId_def existsEntryIndexId_def
  blobEntryIndexId_def minimumIndexId_def maxSimpleGlobalMetaDataTypeByte_def scopesPrefixByte_def
  databaseFreeListTypeByte_def databaseNameTypeByte_def maxSimpleDatabaseMetaDataTypeByte_def
  objectStoreMetaDataTypeByte_def indexMetaDataTypeByte_def objectStoreFreeListTypeByte_def
  indexFreeListTypeByte_def objectStoreNamesTypeByte_def indexNamesKeyTypeByte_def
  indexedDBKeyNullTypeByte_def indexedDBKeyStringTypeByte_def indexedDBKeyDateTypeByte_def
  indexedDBKeyNumberTypeByte_def indexedDBKeyArrayTypeByte_def indexedDBKeyMinKeyTypeByte_def
  indexedDBKeyBinaryTypeByte_def indexedDBInvalidKeyType_def indexedDBArrayKeyType_def
  indexedDBBinaryKeyType_def indexedDBStringKeyType_def indexedDBDateKeyType_def
  indexedDBNumberKeyType_def indexedDBNoneKeyType_def indexedDBMinKeyType_def


subsection \<open>Decoders\<close>

record keyPrefix =
  DatabaseId :: int
  ObjectStoreId :: int
  IndexId :: int

definition keyPrefix_Type :: "keyPrefix \<Rightarrow> nat" where
  "keyPrefix_Type pre =
     (if DatabaseId pre = 0 then globalMetadata
      else if ObjectStoreId pre = 0 then databaseMetadata
      else if IndexId pre = objectStoreDataIndexId then objectStoreData
      else if IndexId pre = existsEntryIndexId then existsEntry
      else if IndexId pre = blobEntryIndexId then blobEntry
      else if IndexId pre \<ge> minimumIndexId then indexData
      else invalidType)"

text \<open>The loop of \<open>decodeVarInt\<close> at byte \<open>i\<close> with the value so far.\<close>

fun decodeVarInt_loop :: "nat \<Rightarrow> 64 word \<Rightarrow> bytes \<Rightarrow> (bytes \<times> 64 word) option" where
  "decodeVarInt_loop i v [] = None"
| "decodeVarInt_loop i v (b # bs) =
     (if i < 9 then
        let v' = v OR push_bit (7 * i) (ucast (b AND 0x7f))
        in if b AND 0x80 = 0 then Some (bs, v') else decodeVarInt_loop (Suc i) v' bs
      else None)"

definition decodeVarInt :: "bytes \<Rightarrow> error + (bytes \<times> int)" where
  "decodeVarInt a =
     (case decodeVarInt_loop 0 0 a of
        Some (rest, v) \<Rightarrow> Inr (rest, sint v)
      | None \<Rightarrow> Inl (ErrNew ''invalid key provided for decodeVarInt''))"

fun decodeInt_loop :: "nat \<Rightarrow> 64 word \<Rightarrow> bytes \<Rightarrow> 64 word" where
  "decodeInt_loop i v [] = v"
| "decodeInt_loop i v (b # bs) = decodeInt_loop (Suc i) (v OR push_bit (8 * i) (ucast b)) bs"

definition decodeInt :: "bytes \<Rightarrow> error + int" where
  "decodeInt a =
     (if length a = 0 \<or> length a > 8 then Inl (ErrNew ''invalid byte length for decodeInt'')
      else Inr (sint (decodeInt_loop 0 0 a)))"

definition decodeKeyPrefix :: "bytes \<Rightarrow> error + (bytes \<times> keyPrefix)" where
  "decodeKeyPrefix key =
     (case key of
        [] \<Rightarrow> Inl (ErrNew ''invalid empty key provided to decodeKeyPrefix'')
      | firstByte # a \<Rightarrow>
          let databaseIdBytes = unat (drop_bit 5 firstByte AND 0x07) + 1;
              objectStoreIdBytes = unat (drop_bit 2 firstByte AND 0x07) + 1;
              indexIdBytes = unat (firstByte AND 0x03) + 1
          in if length a < databaseIdBytes + objectStoreIdBytes + indexIdBytes
             then Inl (ErrNew ''invalid key provided to decodeKeyPrefix'')
             else (case decodeInt (take databaseIdBytes a) of
                 Inl err \<Rightarrow> Inl (ErrWrap ''decoding database ID as int'' err)
               | Inr databaseId \<Rightarrow>
                   let a1 = drop databaseIdBytes a
                   in (case decodeInt (take objectStoreIdBytes a1) of
                     Inl err \<Rightarrow> Inl (ErrWrap ''decoding object store ID as int'' err)
                   | Inr objectStoreId \<Rightarrow>
                       let a2 = drop objectStoreIdBytes a1
                       in (case decodeInt (take indexIdBytes a2) of
                         Inl err \<Rightarrow> Inl (ErrWrap ''decoding index ID as int'' err)
                       | Inr indexId \<Rightarrow>
                           Inr (drop indexIdBytes a2,
                             \<lparr>DatabaseId = databaseId, ObjectStoreId = objectStoreId, IndexId = indexId\<rparr>)))))"

definition keyTypeByteToKeyType :: "byte \<Rightarrow> nat" where
  "keyTypeByteToKeyType b =
     (if b = indexedDBKeyNullTypeByte then indexedDBInvalidKeyType
      else if b = indexedDBKeyArrayTypeByte then indexedDBArrayKeyType
      else if b = indexedDBKeyBinaryTypeByte then indexedDBBinaryKeyType
      else if b = indexedDBKeyStringTypeByte then indexedDBStringKeyType
      else if b = indexedDBKeyDateTypeByte then indexedDBDateKeyType
      else if b = indexedDBKeyNumberTypeByte then indexedDBNumberKeyType
      else if b = indexedDBKeyMinKeyTypeByte then indexedDBMinKeyType
      else indexedDBInvalidKeyType)"

subsection \<open>Comparing the parts of a key\<close>

definition compareKeyPrefix :: "keyPrefix \<Rightarrow> keyPrefix \<Rightarrow> int" where
  "compareKeyPrefix a b =
     (if cmp_Compare (DatabaseId a) (DatabaseId b) \<noteq> 0 then cmp_Compare (DatabaseId a) (DatabaseId b)
      else if cmp_Compare (ObjectStoreId a) (ObjectStoreId b) \<noteq> 0
        then cmp_Compare (ObjectStoreId a) (ObjectStoreId b)
      else if cmp_Compare (IndexId a) (IndexId b) \<noteq> 0 then cmp_Compare (IndexId a) (IndexId b)
      else 0)"

text \<open>
  The comparison of two keys leaves the rest of both: \<open>cmp_result\<close>.
\<close>

type_synonym cmp_result = "error + (bytes \<times> bytes \<times> int)"

definition compareBinary :: "bytes \<Rightarrow> bytes \<Rightarrow> cmp_result" where
  "compareBinary a b =
     (case decodeVarInt a of
        Inl err \<Rightarrow> Inl err
      | Inr (a', lenA) \<Rightarrow>
          (case decodeVarInt b of
             Inl err \<Rightarrow> Inl err
           | Inr (b', lenB) \<Rightarrow>
               if length a' < nat lenA \<or> length b' < nat lenB then
                 let minlen = min (min (nat lenA) (nat lenB)) (min (length a') (length b'));
                     ret = bytes_Compare (take minlen a') (take minlen b')
                 in if ret \<noteq> 0 then Inr ([], [], ret) else Inr ([], [], cmp_Compare lenA lenB)
               else Inr (drop (nat lenA) a', drop (nat lenB) b',
                         bytes_Compare (take (nat lenA) a') (take (nat lenB) b'))))"

text \<open>The lengths of strings count 16-bit units; \<open>2 * v\<close> is below \<open>2\<^sup>6\<^sup>4\<close>.\<close>

definition compareStringWithLength :: "bytes \<Rightarrow> bytes \<Rightarrow> cmp_result" where
  "compareStringWithLength a b =
     (case decodeVarInt a of
        Inl err \<Rightarrow> Inl (ErrWrap ''decoding key a as varInt'' err)
      | Inr (a', v1) \<Rightarrow>
          (case decodeVarInt b of
             Inl err \<Rightarrow> Inl (ErrWrap ''decoding key b as varInt'' err)
           | Inr (b', v2) \<Rightarrow>
               let lenA = nat (2 * v1); lenB = nat (2 * v2) in
               if length a' < lenA \<or> length b' < lenB then
                 let minlen = min (min lenA lenB) (min (length a') (length b'));
                     ret = bytes_Compare (take minlen a') (take minlen b')
                 in if ret \<noteq> 0 then Inr ([], [], ret) else Inr ([], [], cmp_Compare v1 v2)
               else Inr (drop lenA a', drop lenB b', bytes_Compare (take lenA a') (take lenB b'))))"

text \<open>
  \<open>cmp.Compare\<close> on \<open>float64\<close>, on the bits: not-a-number is below everything and equal to itself, the
  two zeros are equal, and otherwise the order is that of sign and magnitude.
\<close>

definition float_rank :: "64 word \<Rightarrow> int" where
  "float_rank bits =
     (let mag = uint (bits AND 0x7FFFFFFFFFFFFFFF)
      in if mag > 0x7FF0000000000000 then - (2 ^ 64)
         else if bits AND 0x8000000000000000 \<noteq> 0 then - mag else mag)"

text \<open>\<open>binary.NativeEndian\<close>: little endian on the supported architectures.\<close>

definition NativeEndian_Uint64 :: "bytes \<Rightarrow> 64 word" where
  "NativeEndian_Uint64 a = decodeInt_loop 0 0 (take 8 a)"

definition compareDouble :: "bytes \<Rightarrow> bytes \<Rightarrow> cmp_result" where
  "compareDouble a b =
     (if length a < 8 \<or> length b < 8
      then Inl (ErrNew ''invalid keys provided for compareDouble (must be at least 8 bytes)'')
      else Inr (drop 8 a, drop 8 b,
                cmp_Compare (float_rank (NativeEndian_Uint64 a)) (float_rank (NativeEndian_Uint64 b))))"

text \<open>\<open>if len(a) == 0 || len(b) == 0\<close>, which the code writes before every part it compares.\<close>

definition nonempty_or :: "bytes \<Rightarrow> bytes \<Rightarrow> (error + int) \<Rightarrow> error + int" where
  "nonempty_or a b k = (if length a = 0 \<or> length b = 0 then Inr (cmp_Compare (length a) (length b)) else k)"

text \<open>
  \<open>compareEncodedIDBKeys\<close>: the switch on the type byte, given how the elements of two arrays are
  compared; the whole function; and the loop over the elements of two arrays, which ends after the
  smaller number of elements or when a key is used up.
\<close>

type_synonym compare_arrays = "int \<Rightarrow> int \<Rightarrow> bytes \<Rightarrow> bytes \<Rightarrow> cmp_result option"

definition enc_switch :: "compare_arrays \<Rightarrow> byte \<Rightarrow> bytes \<Rightarrow> bytes \<Rightarrow> cmp_result option" where
  "enc_switch arr typeByte a b =
     (if typeByte = indexedDBKeyNullTypeByte \<or> typeByte = indexedDBKeyMinKeyTypeByte then Some (Inr (a, b, 0))
      else if typeByte \<notin> {indexedDBKeyArrayTypeByte, indexedDBKeyBinaryTypeByte, indexedDBKeyStringTypeByte,
                     indexedDBKeyDateTypeByte, indexedDBKeyNumberTypeByte}
        then Some (Inl (ErrNew ''invalid keyTypeByte provided for compareEncodedIDBKeys''))
      else if length a = 0 \<or> length b = 0 then Some (Inr (a, b, cmp_Compare (length a) (length b)))
      else if typeByte = indexedDBKeyArrayTypeByte then
        (case decodeVarInt a of
           Inl err \<Rightarrow> Some (Inl (ErrWrap ''decoding key a as varInt'' err))
         | Inr (a1, lenA) \<Rightarrow>
             (case decodeVarInt b of
                Inl err \<Rightarrow> Some (Inl (ErrWrap ''decoding key b as varInt'' err))
              | Inr (b1, lenB) \<Rightarrow> arr lenA lenB a1 b1))
      else if typeByte = indexedDBKeyBinaryTypeByte then Some (compareBinary a b)
      else if typeByte = indexedDBKeyStringTypeByte then Some (compareStringWithLength a b)
      else Some (compareDouble a b))"

definition enc_keys :: "compare_arrays \<Rightarrow> bytes \<Rightarrow> bytes \<Rightarrow> cmp_result option" where
  "enc_keys arr a b =
     (if length a = 0 \<or> length b = 0 then Some (Inr (a, b, cmp_Compare (length a) (length b)))
      else let ret = cmp_Compare (keyTypeByteToKeyType (hd a)) (keyTypeByteToKeyType (hd b))
           in if ret \<noteq> 0 then Some (Inr (tl a, tl b, ret)) else enc_switch arr (hd a) (tl a) (tl b))"

fun enc_array :: "nat \<Rightarrow> nat \<Rightarrow> compare_arrays" where
  "enc_array 0 n lenA lenB a b = None"
| "enc_array (Suc fuel) n lenA lenB a b =
     (if n = 0 \<or> length a = 0 \<or> length b = 0 then Some (Inr (a, b, cmp_Compare lenA lenB))
      else (case enc_keys (\<lambda>lenA' lenB'. enc_array fuel (nat (min lenA' lenB')) lenA' lenB') a b of
              None \<Rightarrow> None
            | Some (Inl err) \<Rightarrow> Some (Inl (ErrWrap ''recursively comparing encodedIdbKeys'' err))
            | Some (Inr (a', b', ret)) \<Rightarrow>
                if ret \<noteq> 0 then Some (Inr (a', b', ret))
                else enc_array fuel (n - 1) lenA lenB a' b'))"

abbreviation enc :: "nat \<Rightarrow> bytes \<Rightarrow> bytes \<Rightarrow> cmp_result option" where
  "enc fuel \<equiv> enc_keys (\<lambda>lenA lenB. enc_array fuel (nat (min lenA lenB)) lenA lenB)"

text \<open>With the fuel that is always enough.\<close>

definition compareEncodedIDBKeys :: "bytes \<Rightarrow> bytes \<Rightarrow> cmp_result" where
  "compareEncodedIDBKeys a b =
     (case enc (length a + 1) a b of Some r \<Rightarrow> r | None \<Rightarrow> Inl (ErrNew ''out of fuel''))"

subsection \<open>Comparing keys\<close>

text \<open>Two steps the code repeats: compare two integers, or two strings, and go on when they are equal.\<close>

definition then_varints :: "bytes \<Rightarrow> bytes \<Rightarrow> (bytes \<Rightarrow> bytes \<Rightarrow> error + int) \<Rightarrow> error + int" where
  "then_varints a b k =
     (case decodeVarInt a of
        Inl err \<Rightarrow> Inl err
      | Inr (a', idA) \<Rightarrow>
          (case decodeVarInt b of
             Inl err \<Rightarrow> Inl err
           | Inr (b', idB) \<Rightarrow> if cmp_Compare idA idB \<noteq> 0 then Inr (cmp_Compare idA idB) else k a' b'))"

definition then_strings :: "bytes \<Rightarrow> bytes \<Rightarrow> (bytes \<Rightarrow> bytes \<Rightarrow> error + int) \<Rightarrow> error + int" where
  "then_strings a b k =
     (case compareStringWithLength a b of
        Inl err \<Rightarrow> Inl err
      | Inr (a', b', ret) \<Rightarrow> if ret \<noteq> 0 then Inr ret else k a' b')"

definition then_keys :: "bytes \<Rightarrow> bytes \<Rightarrow> (bytes \<Rightarrow> bytes \<Rightarrow> error + int) \<Rightarrow> error + int" where
  "then_keys a b k =
     (case compareEncodedIDBKeys a b of
        Inl err \<Rightarrow> Inl err
      | Inr (a', b', ret) \<Rightarrow> if ret \<noteq> 0 then Inr ret else k a' b')"

text \<open>The type byte both parts start with, when they start with the same one.\<close>

definition then_type :: "bytes \<Rightarrow> bytes \<Rightarrow> (byte \<Rightarrow> bytes \<Rightarrow> bytes \<Rightarrow> error + int) \<Rightarrow> error + int" where
  "then_type a b k =
     nonempty_or a b
       (if cmp_Compare (hd a) (hd b) \<noteq> 0 then Inr (cmp_Compare (hd a) (hd b)) else k (hd a) (tl a) (tl b))"

definition first_byte :: "bytes \<Rightarrow> bytes \<Rightarrow> error + int" where
  "first_byte a b = nonempty_or a b (Inr (cmp_Compare (hd a) (hd b)))"

definition Compare_globalMetadata :: "bytes \<Rightarrow> bytes \<Rightarrow> error + int" where
  "Compare_globalMetadata a b = then_type a b (\<lambda>typeByte a b.
     if typeByte < maxSimpleGlobalMetaDataTypeByte then Inr 0
     else if typeByte = scopesPrefixByte then Inr (bytes_Compare a b)
     else if typeByte = databaseFreeListTypeByte then nonempty_or a b (then_varints a b (\<lambda>_ _. Inr 0))
     else if typeByte = databaseNameTypeByte then
       nonempty_or a b (then_strings a b (\<lambda>a b. nonempty_or a b (then_strings a b (\<lambda>_ _. Inr 0))))
     else Inl (ErrNew ''invalid key prefix type byte for prefix a''))"

definition Compare_databaseMetadata :: "bytes \<Rightarrow> bytes \<Rightarrow> error + int" where
  "Compare_databaseMetadata a b = then_type a b (\<lambda>typeByte a b.
     if typeByte < maxSimpleDatabaseMetaDataTypeByte then Inr 0
     else if typeByte = objectStoreMetaDataTypeByte then
       nonempty_or a b (then_varints a b (\<lambda>a b. first_byte a b))
     else if typeByte = indexMetaDataTypeByte then
       nonempty_or a b (then_varints a b (\<lambda>a b. nonempty_or a b (then_varints a b (\<lambda>a b. first_byte a b))))
     else if typeByte = objectStoreFreeListTypeByte then nonempty_or a b (then_varints a b (\<lambda>_ _. Inr 0))
     else if typeByte = indexFreeListTypeByte then
       nonempty_or a b (then_varints a b (\<lambda>a b. nonempty_or a b (then_varints a b (\<lambda>_ _. Inr 0))))
     else if typeByte = objectStoreNamesTypeByte then nonempty_or a b (then_strings a b (\<lambda>_ _. Inr 0))
     else if typeByte = indexNamesKeyTypeByte then
       nonempty_or a b (then_varints a b (\<lambda>a b. nonempty_or a b (then_strings a b (\<lambda>_ _. Inr 0))))
     else Inl (ErrNew ''invalid key prefix type byte for databaseMetadata case''))"

definition sequenceNumber :: "bytes \<Rightarrow> error + (bytes \<times> int)" where
  "sequenceNumber a = (if length a > 0 then decodeVarInt a else Inr (a, -1))"

definition Compare_indexData :: "bytes \<Rightarrow> bytes \<Rightarrow> error + int" where
  "Compare_indexData a b = then_keys a b (\<lambda>a b.
     (case sequenceNumber a of
        Inl err \<Rightarrow> Inl err
      | Inr (a, sequenceNumberA) \<Rightarrow>
          (case sequenceNumber b of
             Inl err \<Rightarrow> Inl err
           | Inr (b, sequenceNumberB) \<Rightarrow>
               nonempty_or a b (then_keys a b (\<lambda>_ _. Inr (cmp_Compare sequenceNumberA sequenceNumberB))))))"

definition Compare_result :: "bytes \<Rightarrow> bytes \<Rightarrow> error + int" where
  "Compare_result a b =
     (case decodeKeyPrefix a of
        Inl err \<Rightarrow> Inl err
      | Inr (aWithoutPrefix, prefixA) \<Rightarrow>
          (case decodeKeyPrefix b of
             Inl err \<Rightarrow> Inl err
           | Inr (bWithoutPrefix, prefixB) \<Rightarrow>
               let ret = compareKeyPrefix prefixA prefixB; ty = keyPrefix_Type prefixA in
               if ret \<noteq> 0 then Inr ret
               else if ty = globalMetadata then Compare_globalMetadata aWithoutPrefix bWithoutPrefix
               else if ty = databaseMetadata then Compare_databaseMetadata aWithoutPrefix bWithoutPrefix
               else if ty = objectStoreData \<or> ty = existsEntry \<or> ty = blobEntry
                 then then_keys aWithoutPrefix bWithoutPrefix (\<lambda>_ _. Inr 0)
               else if ty = indexData then Compare_indexData aWithoutPrefix bWithoutPrefix
               else Inl (ErrNew ''invalid key prefix type'')))"

definition Compare :: "bytes \<Rightarrow> bytes \<Rightarrow> int" where
  "Compare a b = (case Compare_result a b of Inl err \<Rightarrow> 0 | Inr ret \<Rightarrow> ret)"

definition Comparer_Name :: string where
  "Comparer_Name = ''idb_cmp1''"

definition Separator :: "bytes \<Rightarrow> bytes \<Rightarrow> bytes \<Rightarrow> bytes option" where
  "Separator dst a b = None"

definition Successor :: "bytes \<Rightarrow> bytes \<Rightarrow> bytes option" where
  "Successor dst b = None"

subsection \<open>Decoded integers\<close>

lemma mask_byte: "uint (ucast (b AND 0x7f) :: 64 word) < 2 ^ 7" for b :: byte
proof -
  have "b AND 0x7f = take_bit 7 b" by (simp add: take_bit_eq_mask mask_eq_exp_minus_1)
  then have "uint (b AND 0x7f) < 2 ^ 7" 
    using take_bit_int_less_exp[of 7 "uint b"] by (simp add: unsigned_take_bit_eq)
  then have "take_bit 64 (uint (b AND 0x7f)) = uint (b AND 0x7f)"
    by (intro take_bit_int_eq_self) simp_all
  with \<open>uint (b AND 0x7f) < 2 ^ 7\<close> show ?thesis by (simp add: unsigned_ucast_eq)
qed

lemma or_less_exp:
  fixes x y :: "64 word"
  assumes "uint x < 2 ^ n" and "uint y < 2 ^ n"
  shows "uint (x OR y) < 2 ^ n"
proof -
  have "take_bit n (uint x OR uint y) = uint x OR uint y"
    using assms by (simp add: take_bit_or take_bit_int_eq_self)
  then show ?thesis unfolding uint_or by (metis take_bit_int_less_exp)
qed

lemma decodeVarInt_loop_Some:
  assumes "decodeVarInt_loop i v a = Some (r, w)" and "uint v < 2 ^ (7 * i)" and "i \<le> 9"
  shows "length r < length a \<and> uint w < 2 ^ 63"
  using assms
proof (induction i v a rule: decodeVarInt_loop.induct)
  case (2 i v b bs)
  then have i: "i < 9" by (auto split: if_splits)
  let ?v = "v OR push_bit (7 * i) (ucast (b AND 0x7f))"
  have "uint (push_bit (7 * i) (ucast (b AND 0x7f) :: 64 word)) = 2 ^ (7 * i) * uint (ucast (b AND 0x7f) :: 64 word)"
  proof -
    have "2 ^ (7 * i) * uint (ucast (b AND 0x7f) :: 64 word) < 2 ^ (7 * i) * 2 ^ 7"
      using mask_byte[of b] by simp
    also have "\<dots> = (2::int) ^ (7 * i + 7)" by (simp add: power_add)
    also have "\<dots> \<le> (2::int) ^ 63" using i by (intro power_increasing) simp_all
    finally have "take_bit 64 (2 ^ (7 * i) * uint (ucast (b AND 0x7f) :: 64 word))
        = 2 ^ (7 * i) * uint (ucast (b AND 0x7f) :: 64 word)"
      by (intro take_bit_int_eq_self) simp_all
    then show ?thesis
      by (simp add: unsigned_push_bit_eq push_bit_eq_mult[where ?'a = int] mult.commute)
  qed
  moreover have "2 ^ (7 * i) * uint (ucast (b AND 0x7f) :: 64 word) < 2 ^ (7 * Suc i)"
    using mask_byte[of b] by (simp add: power_add)
  moreover have "uint v < 2 ^ (7 * Suc i)"
    using "2.prems"(2) by (rule less_le_trans) simp
  ultimately have v: "uint ?v < 2 ^ (7 * Suc i)" by (intro or_less_exp) simp_all
  show ?case
  proof (cases "b AND 0x80 = 0")
    case True
    have "(2::int) ^ (7 * Suc i) \<le> 2 ^ 63" using i by (intro power_increasing) simp_all
    with v have "uint ?v < 2 ^ 63" by linarith
    with True "2.prems"(1) i show ?thesis by (auto simp: Let_def)
  next
    case False
    with "2.IH"[OF i refl] "2.prems"(1) i v show ?thesis by (auto simp: Let_def)
  qed
qed simp

lemma decodeVarInt_Inr:
  assumes "decodeVarInt a = Inr (r, n)"
  shows "length r < length a \<and> 0 \<le> n \<and> n < 2 ^ 63"
proof -
  from assms obtain w where w: "decodeVarInt_loop 0 0 a = Some (r, w)" "n = sint w"
    by (auto simp: decodeVarInt_def split: option.splits)
  from decodeVarInt_loop_Some[OF w(1)] have *: "length r < length a" "uint w < 2 ^ 63" by simp_all
  have "signed_take_bit 63 (uint w) = uint w"
    using *(2) by (intro signed_take_bit_int_eq_self) (auto intro: order_trans[OF _ uint_ge_0])
  then have "sint w = uint w" by (simp add: sint_uint)
  with * w(2) show ?thesis by simp
qed

subsection \<open>The comparison of encoded keys uses up its input\<close>

lemma decodeVarInt_shorter: "decodeVarInt a = Inr (r, n) \<Longrightarrow> length r < length a"
  by (simp add: decodeVarInt_Inr)

lemma compareBinary_shorter:
  assumes "compareBinary a b = Inr (a', b', r)"
  shows "length a' < length a \<and> length b' < length b"
proof -
  obtain ra la rb lb where d: "decodeVarInt a = Inr (ra, la)" "decodeVarInt b = Inr (rb, lb)"
    using assms by (auto simp: compareBinary_def split: sum.splits)
  then have "length a' \<le> length ra \<and> length b' \<le> length rb"
    using assms by (auto simp: compareBinary_def Let_def split: if_splits)
  with d(1,2)[THEN decodeVarInt_shorter] show ?thesis by linarith
qed

lemma compareStringWithLength_shorter:
  assumes "compareStringWithLength a b = Inr (a', b', r)"
  shows "length a' < length a \<and> length b' < length b"
proof -
  obtain ra la rb lb where d: "decodeVarInt a = Inr (ra, la)" "decodeVarInt b = Inr (rb, lb)"
    using assms by (auto simp: compareStringWithLength_def split: sum.splits)
  then have "length a' \<le> length ra \<and> length b' \<le> length rb"
    using assms by (auto simp: compareStringWithLength_def Let_def split: if_splits)
  with d(1,2)[THEN decodeVarInt_shorter] show ?thesis by linarith
qed

lemma compareDouble_shorter:
  "compareDouble a b = Inr (a', b', r) \<Longrightarrow> length a' < length a \<and> length b' < length b"
  by (auto simp: compareDouble_def split: if_splits)

lemmas compare_parts_shorter = compareBinary_shorter compareStringWithLength_shorter compareDouble_shorter

definition shorter :: "bytes \<Rightarrow> bytes \<Rightarrow> cmp_result option \<Rightarrow> bool" where
  "shorter a b res \<longleftrightarrow> (\<forall>a' b' r. res = Some (Inr (a', b', r)) \<longrightarrow> length a' \<le> length a \<and> length b' \<le> length b)"

lemma enc_switch_shorter:
  assumes "\<And>la lb a1 b1. shorter a1 b1 (arr la lb a1 b1)"
  shows "shorter a b (enc_switch arr t a b)"
proof -
  have "length a' \<le> length a \<and> length b' \<le> length b" if res: "enc_switch arr t a b = Some (Inr (a', b', r))" for a' b' r
  proof (cases "t = indexedDBKeyArrayTypeByte \<and> a \<noteq> [] \<and> b \<noteq> []")
    case True
    then obtain a1 la b1 lb where d: "decodeVarInt a = Inr (a1, la)" "decodeVarInt b = Inr (b1, lb)"
      "arr la lb a1 b1 = Some (Inr (a', b', r))"
      using res by (auto simp: enc_switch_def idb_consts split: sum.splits)
    then have "length a' \<le> length a1 \<and> length b' \<le> length b1" using assms unfolding shorter_def by blast
    with d(1,2)[THEN decodeVarInt_shorter] show ?thesis by linarith
  next
    case False
    then show ?thesis
      using res compare_parts_shorter[of a b a' b' r]
      by (auto simp: enc_switch_def split: if_splits)
  qed
  then show ?thesis unfolding shorter_def by blast
qed

lemma enc_keys_shorter:
  assumes "\<And>la lb a1 b1. shorter a1 b1 (arr la lb a1 b1)"
    and "enc_keys arr a b = Some (Inr (a', b', r))" and "a \<noteq> []" and "b \<noteq> []"
  shows "length a' < length a \<and> length b' < length b"
proof -
  have "shorter (tl a) (tl b) (enc_switch arr (hd a) (tl a) (tl b))"
    using assms(1) by (rule enc_switch_shorter)
  then have "length a' \<le> length (tl a) \<and> length b' \<le> length (tl b)"
    using assms(2-4)
    by (auto simp: enc_keys_def Let_def shorter_def split: if_splits)
  with assms(3,4) show ?thesis by (cases a; cases b) auto
qed

lemma enc_array_shorter: "shorter a b (enc_array f n la lb a b)"
proof (induction f arbitrary: n la lb a b)
  case (Suc f)
  show ?case
  proof (cases "n = 0 \<or> a = [] \<or> b = []")
    case False
    then have ne: "a \<noteq> []" "b \<noteq> []" by simp_all
    show ?thesis unfolding shorter_def
    proof (intro allI impI)
      fix a' b' r assume res: "enc_array (Suc f) n la lb a b = Some (Inr (a', b', r))"
      then obtain a1 b1 r1 where e: "enc f a b = Some (Inr (a1, b1, r1))"
        "if r1 \<noteq> 0 then a' = a1 \<and> b' = b1 else enc_array f (n - 1) la lb a1 b1 = Some (Inr (a', b', r))"
        using False by (auto split: option.splits sum.splits if_splits)
      from enc_keys_shorter[OF Suc e(1) ne] have "length a1 < length a \<and> length b1 < length b" .
      moreover have "length a' \<le> length a1 \<and> length b' \<le> length b1"
        using e(2) Suc[of a1 b1 "n - 1" la lb] by (auto simp: shorter_def split: if_splits)
      ultimately show "length a' \<le> length a \<and> length b' \<le> length b" by linarith
    qed
  qed (auto simp: shorter_def)
qed (simp add: shorter_def)

text \<open>Fuel: a comparison of two arrays needs one step per byte of the first one and one more.\<close>

lemma enc_switch_defined:
  assumes "\<And>la lb a1 b1. length a1 < length a \<Longrightarrow> arr la lb a1 b1 \<noteq> None"
  shows "enc_switch arr t a b \<noteq> None"
  using assms by (auto simp: enc_switch_def split: sum.splits dest!: decodeVarInt_shorter)

lemma enc_keys_defined:
  assumes "\<And>la lb a1 b1. length a1 < length a \<Longrightarrow> arr la lb a1 b1 \<noteq> None"
  shows "enc_keys arr a b \<noteq> None"
proof (cases "a = [] \<or> b = []")
  case False
  have "enc_switch arr (hd a) (tl a) (tl b) \<noteq> None"
    using assms False by (intro enc_switch_defined) simp
  then show ?thesis by (simp add: enc_keys_def Let_def)
qed (auto simp: enc_keys_def)

lemma enc_array_enough: "length a < f \<Longrightarrow> enc_array f n la lb a b \<noteq> None"
proof (induction f arbitrary: n la lb a b)
  case (Suc f)
  show ?case
  proof (cases "n = 0 \<or> a = [] \<or> b = []")
    case False
    have "enc f a b \<noteq> None" using Suc.prems by (intro enc_keys_defined Suc.IH) simp
    moreover have "enc_array f (n - 1) la lb a' b' \<noteq> None" if "enc f a b = Some (Inr (a', b', r))" for a' b' r
      using enc_keys_shorter[OF enc_array_shorter that] False Suc.prems by (intro Suc.IH) auto
    ultimately show ?thesis using False by (auto split: sum.splits)
  qed auto
qed simp

lemma enc_enough: "length a \<le> f \<Longrightarrow> enc f a b \<noteq> None"
  by (intro enc_keys_defined enc_array_enough) simp

subsection \<open>Swapping the arguments\<close>

text \<open>
  Two comparisons mirror one another when, if neither is an error, they leave the same rests and
  their signs are opposite.
\<close>

definition mirror :: "cmp_result \<Rightarrow> cmp_result \<Rightarrow> bool" where
  "mirror p q \<longleftrightarrow> (\<forall>a b r b' a' r'. p = Inr (a, b, r) \<longrightarrow> q = Inr (b', a', r') \<longrightarrow> a' = a \<and> b' = b \<and> r' = - r)"

definition mirror_opt :: "cmp_result option \<Rightarrow> cmp_result option \<Rightarrow> bool" where
  "mirror_opt p q \<longleftrightarrow> (\<forall>p' q'. p = Some p' \<longrightarrow> q = Some q' \<longrightarrow> mirror p' q')"

definition anti :: "(error + int) \<Rightarrow> (error + int) \<Rightarrow> bool" where
  "anti p q \<longleftrightarrow> (\<forall>r r'. p = Inr r \<longrightarrow> q = Inr r' \<longrightarrow> r' = - r)"

lemma anti_simps [simp]: "anti (Inl e) q" "anti p (Inl e)" "anti (Inr r) (Inr r') \<longleftrightarrow> r' = - r"
  by (simp_all add: anti_def)

lemma mirror_simps [simp]:
  "mirror (Inl e) q" "mirror p (Inl e)"
  "mirror (Inr (a, b, r)) (Inr (b', a', r')) \<longleftrightarrow> a' = a \<and> b' = b \<and> r' = - r"
  "mirror_opt None q'" "mirror_opt p' None" "mirror_opt (Some p) (Some q) \<longleftrightarrow> mirror p q"
  "mirror_opt (Some (Inl e)) q'" "mirror_opt p' (Some (Inl e))"
  by (auto simp: mirror_def mirror_opt_def)

lemma compareDouble_mirror: "mirror (compareDouble a b) (compareDouble b a)"
  using cmp_Compare_swap[of "float_rank (NativeEndian_Uint64 b)" "float_rank (NativeEndian_Uint64 a)"]
  by (simp add: compareDouble_def)

text \<open>What \<open>compareBinary\<close> and \<open>compareStringWithLength\<close> do with the two lengths and the bytes after them.\<close>

definition slices :: "nat \<Rightarrow> nat \<Rightarrow> int \<Rightarrow> bytes \<Rightarrow> bytes \<Rightarrow> bytes \<times> bytes \<times> int" where
  "slices n m c a b =
     (let minlen = min (min n m) (min (length a) (length b));
          ret = bytes_Compare (take minlen a) (take minlen b)
      in if length a < n \<or> length b < m then ([], [], if ret \<noteq> 0 then ret else c)
         else (drop n a, drop m b, bytes_Compare (take n a) (take m b)))"

lemma slices_swap: "mirror (Inr (slices n m c a b)) (Inr (slices m n (- c) b a))"
proof -
  define k where "k = min (min n m) (min (length a) (length b))"
  have k: "min (min m n) (min (length b) (length a)) = k" by (simp add: k_def min.commute)
  show ?thesis
    unfolding slices_def Let_def k k_def[symmetric]
    using bytes_Compare_swap[of "take k a" "take k b"] bytes_Compare_swap[of "take n a" "take m b"]
    by simp
qed

lemma compareBinary_slices:
  "decodeVarInt a = Inr (a', la) \<Longrightarrow> decodeVarInt b = Inr (b', lb) \<Longrightarrow>
     compareBinary a b = Inr (slices (nat la) (nat lb) (cmp_Compare la lb) a' b')"
  by (simp add: compareBinary_def slices_def Let_def)

lemma compareStringWithLength_slices:
  "decodeVarInt a = Inr (a', la) \<Longrightarrow> decodeVarInt b = Inr (b', lb) \<Longrightarrow>
     compareStringWithLength a b = Inr (slices (nat (2 * la)) (nat (2 * lb)) (cmp_Compare la lb) a' b')"
  by (simp add: compareStringWithLength_def slices_def Let_def)

lemma compare_slices_Inl:
  assumes "\<nexists>p q. decodeVarInt a = Inr p \<and> decodeVarInt b = Inr q"
  shows "\<exists>e. compareBinary a b = Inl e" "\<exists>e. compareStringWithLength a b = Inl e"
  using assms by (auto simp: compareBinary_def compareStringWithLength_def split: sum.splits)

lemma decoded_or_not:
  obtains (decoded) a' la b' lb where "decodeVarInt a = Inr (a', la)" "decodeVarInt b = Inr (b', lb)"
  | (failed) "\<nexists>p q. decodeVarInt a = Inr p \<and> decodeVarInt b = Inr q"
  by (cases "decodeVarInt a"; cases "decodeVarInt b") auto

lemma compareBinary_mirror: "mirror (compareBinary a b) (compareBinary b a)"
proof (cases rule: decoded_or_not[of a b])
  case (decoded a' la b' lb)
  then show ?thesis
    using slices_swap[of "nat la" "nat lb" "cmp_Compare la lb" a' b']
    by (simp add: compareBinary_slices cmp_Compare_swap[of lb la])
qed (use compare_slices_Inl(1)[of a b] in auto)

lemma compareStringWithLength_mirror: "mirror (compareStringWithLength a b) (compareStringWithLength b a)"
proof (cases rule: decoded_or_not[of a b])
  case (decoded a' la b' lb)
  then show ?thesis
    using slices_swap[of "nat (2 * la)" "nat (2 * lb)" "cmp_Compare la lb" a' b']
    by (simp add: compareStringWithLength_slices cmp_Compare_swap[of lb la])
qed (use compare_slices_Inl(2)[of a b] in auto)

lemma same_key_type:
  "keyTypeByteToKeyType s = keyTypeByteToKeyType t \<Longrightarrow>
   s \<in> {indexedDBKeyNullTypeByte, indexedDBKeyMinKeyTypeByte, indexedDBKeyArrayTypeByte, indexedDBKeyBinaryTypeByte,
     indexedDBKeyStringTypeByte, indexedDBKeyDateTypeByte, indexedDBKeyNumberTypeByte} \<Longrightarrow>
   t \<in> {indexedDBKeyNullTypeByte, indexedDBKeyMinKeyTypeByte, indexedDBKeyArrayTypeByte, indexedDBKeyBinaryTypeByte,
     indexedDBKeyStringTypeByte, indexedDBKeyDateTypeByte, indexedDBKeyNumberTypeByte} \<Longrightarrow> s = t"
  by (auto simp: keyTypeByteToKeyType_def idb_consts)

lemma enc_switch_unknown:
  "t \<notin> {indexedDBKeyNullTypeByte, indexedDBKeyMinKeyTypeByte, indexedDBKeyArrayTypeByte, indexedDBKeyBinaryTypeByte,
     indexedDBKeyStringTypeByte, indexedDBKeyDateTypeByte, indexedDBKeyNumberTypeByte} \<Longrightarrow>
   \<exists>e. enc_switch arr t a b = Some (Inl e)"
  by (simp add: enc_switch_def)

lemma enc_switch_mirror:
  assumes "\<And>la lb a1 b1. mirror_opt (arr la lb a1 b1) (arr' lb la b1 a1)"
  shows "mirror_opt (enc_switch arr t a b) (enc_switch arr' t b a)"
proof (cases rule: decoded_or_not[of a b])
  case (decoded a' la b' lb)
  then show ?thesis
    using assms[of la lb a' b'] compareBinary_mirror[of a b] compareStringWithLength_mirror[of a b]
      compareDouble_mirror[of a b] cmp_Compare_swap[of "length b" "length a"]
    by (simp add: enc_switch_def)
next
  case failed
  then show ?thesis
    using compareBinary_mirror[of a b] compareStringWithLength_mirror[of a b]
      compareDouble_mirror[of a b] cmp_Compare_swap[of "length b" "length a"]
    by (auto simp: enc_switch_def split: sum.splits)
qed

lemma enc_keys_mirror:
  assumes "\<And>la lb a1 b1. mirror_opt (arr la lb a1 b1) (arr' lb la b1 a1)"
  shows "mirror_opt (enc_keys arr a b) (enc_keys arr' b a)"
proof (cases "a = [] \<or> b = []")
  case True
  then show ?thesis using cmp_Compare_swap[of "length b" "length a"] by (auto simp: enc_keys_def)
next
  case False
  show ?thesis
  proof (cases "keyTypeByteToKeyType (hd a) = keyTypeByteToKeyType (hd b)")
    case True
    then consider "hd b = hd a" | e where "enc_switch arr (hd a) (tl a) (tl b) = Some (Inl e)"
      | e where "enc_switch arr' (hd b) (tl b) (tl a) = Some (Inl e)"
      using same_key_type[OF True] enc_switch_unknown[of "hd a" arr "tl a" "tl b"]
        enc_switch_unknown[of "hd b" arr' "tl b" "tl a"] by metis
    then show ?thesis
      using False True enc_switch_mirror[of arr arr' "hd a" "tl a" "tl b", OF assms]
      by cases (simp_all add: enc_keys_def)
  qed (use False cmp_Compare_swap[of "keyTypeByteToKeyType (hd b)" "keyTypeByteToKeyType (hd a)"] in
       \<open>simp add: enc_keys_def Let_def\<close>)
qed

lemma enc_array_mirror: "mirror_opt (enc_array f n la lb a b) (enc_array g n lb la b a)"
proof (induction f arbitrary: g n la lb a b)
  case (Suc f)
  show ?case
  proof (cases g)
    case g: (Suc g')
    have ih: "mirror_opt (enc f a b) (enc g' b a)"
      using enc_keys_mirror[of "\<lambda>la lb. enc_array f (nat (min la lb)) la lb"
          "\<lambda>la lb. enc_array g' (nat (min la lb)) la lb"] Suc[of _ _ _ _ _ g']
      by (simp add: min.commute)
    show ?thesis
      using ih Suc[of "n - 1" la lb _ _ g'] cmp_Compare_swap[of lb la]
      by (auto simp: g split: option.splits sum.splits)
  qed simp
qed simp

lemma enc_mirror: "mirror_opt (enc f a b) (enc g b a)"
  using enc_keys_mirror[of "\<lambda>la lb. enc_array f (nat (min la lb)) la lb"
      "\<lambda>la lb. enc_array g (nat (min la lb)) la lb"] enc_array_mirror
  by (simp add: min.commute)

text \<open>More fuel gives the same result.\<close>

definition extends :: "compare_arrays \<Rightarrow> compare_arrays \<Rightarrow> bool" where
  "extends arr' arr \<longleftrightarrow> (\<forall>la lb a b r. arr la lb a b = Some r \<longrightarrow> arr' la lb a b = Some r)"

lemma enc_switch_array:
  assumes "\<not> (t = indexedDBKeyArrayTypeByte \<and> a \<noteq> [] \<and> b \<noteq> [] \<and>
             (\<exists>p q. decodeVarInt a = Inr p \<and> decodeVarInt b = Inr q))"
  shows "enc_switch arr t a b = enc_switch arr' t a b"
  using assms by (simp add: enc_switch_def split: sum.splits) blast

lemma enc_switch_extends:
  assumes "extends arr' arr" and "enc_switch arr t a b = Some r"
  shows "enc_switch arr' t a b = Some r"
proof (cases "t = indexedDBKeyArrayTypeByte \<and> a \<noteq> [] \<and> b \<noteq> [] \<and>
             (\<exists>p q. decodeVarInt a = Inr p \<and> decodeVarInt b = Inr q)")
  case True
  then obtain a' la b' lb where d: "decodeVarInt a = Inr (a', la)" "decodeVarInt b = Inr (b', lb)" by auto
  with True assms(2) have "arr la lb a' b' = Some r" by (simp add: enc_switch_def idb_consts)
  with assms(1) have "arr' la lb a' b' = Some r" by (simp add: extends_def)
  with True d show ?thesis by (simp add: enc_switch_def idb_consts)
next
  case False
  from enc_switch_array[OF this, of arr arr'] assms(2) show ?thesis by simp
qed

lemma enc_keys_extends: "extends arr' arr \<Longrightarrow> enc_keys arr a b = Some r \<Longrightarrow> enc_keys arr' a b = Some r"
  using enc_switch_extends[of arr' arr "hd a" "tl a" "tl b" r]
  by (cases "a = [] \<or> b = []"; cases "keyTypeByteToKeyType (hd a) = keyTypeByteToKeyType (hd b)")
    (simp_all add: enc_keys_def Let_def)

lemma enc_array_more: "enc_array f n la lb a b = Some r \<Longrightarrow> f \<le> g \<Longrightarrow> enc_array g n la lb a b = Some r"
proof (induction f arbitrary: g n la lb a b r)
  case (Suc f)
  then obtain g' where g: "g = Suc g'" "f \<le> g'" by (cases g) auto
  have "extends (\<lambda>la lb. enc_array g' (nat (min la lb)) la lb) (\<lambda>la lb. enc_array f (nat (min la lb)) la lb)"
    unfolding extends_def using Suc.IH[OF _ g(2)] by blast
  then have e: "enc g' a b = Some q" if "enc f a b = Some q" for q
    using that by (rule enc_keys_extends)
  show ?case
  proof (cases "n = 0 \<or> a = [] \<or> b = []")
    case False
    then obtain q where q: "enc f a b = Some q" using Suc.prems(1) by (cases "enc f a b") auto
    show ?thesis
    proof (cases "\<exists>a' b'. q = Inr (a', b', 0)")
      case True
      then obtain a' b' where "q = Inr (a', b', 0)" by blast
      with q e[OF q] False Suc.prems(1) g(1) Suc.IH[of "n - 1" la lb a' b' r g'] g(2) show ?thesis by simp
    qed (use q e[OF q] False Suc.prems(1) g(1) in \<open>auto split: sum.splits\<close>)
  qed (use Suc.prems g in auto)
qed simp

lemma enc_more: "enc f a b = Some r \<Longrightarrow> f \<le> g \<Longrightarrow> enc g a b = Some r"
  by (rule enc_keys_extends) (auto simp: extends_def intro: enc_array_more)

lemma enc_compareEncodedIDBKeys:
  assumes "length a \<le> f"
  shows "enc f a b = Some (compareEncodedIDBKeys a b)"
proof -
  obtain r where r: "enc (length a) a b = Some r" using enc_enough[of a "length a" b] by auto
  then show ?thesis using assms enc_more[OF r, of f] enc_more[OF r, of "length a + 1"]
    by (simp add: compareEncodedIDBKeys_def)
qed

lemma compareEncodedIDBKeys_mirror: "mirror (compareEncodedIDBKeys a b) (compareEncodedIDBKeys b a)"
  using enc_mirror[of "length a" a b "length b"] by (simp add: enc_compareEncodedIDBKeys)

text \<open>The same for the parts of \<open>Compare\<close>.\<close>

lemma anti_nonempty_or [intro]: "anti p q \<Longrightarrow> anti (nonempty_or a b p) (nonempty_or b a q)"
  using cmp_Compare_swap[of "length b" "length a"] by (simp add: nonempty_or_def)

lemma anti_mirror:
  assumes "mirror p q" and "\<And>a b. anti (k a b) (k' b a)"
  shows "anti (case p of Inl err \<Rightarrow> Inl err | Inr (a', b', ret) \<Rightarrow> if ret \<noteq> 0 then Inr ret else k a' b')
              (case q of Inl err \<Rightarrow> Inl err | Inr (a', b', ret) \<Rightarrow> if ret \<noteq> 0 then Inr ret else k' a' b')"
  using assms by (auto split: sum.splits)

lemma anti_then_strings: "(\<And>a b. anti (k a b) (k' b a)) \<Longrightarrow> anti (then_strings a b k) (then_strings b a k')"
  unfolding then_strings_def by (rule anti_mirror[OF compareStringWithLength_mirror])

lemma anti_then_keys: "(\<And>a b. anti (k a b) (k' b a)) \<Longrightarrow> anti (then_keys a b k) (then_keys b a k')"
  unfolding then_keys_def by (rule anti_mirror[OF compareEncodedIDBKeys_mirror])

lemma anti_then_varints:
  assumes "\<And>a b. anti (k a b) (k' b a)"
  shows "anti (then_varints a b k) (then_varints b a k')"
proof (cases rule: decoded_or_not[of a b])
  case (decoded a' la b' lb)
  then show ?thesis
    using assms[of a' b'] cmp_Compare_swap[of lb la] by (auto simp: then_varints_def)
qed (auto simp: then_varints_def split: sum.splits)

lemma anti_first_byte: "anti (first_byte a b) (first_byte b a)"
  unfolding first_byte_def using cmp_Compare_swap[of "hd b" "hd a"] by (intro anti_nonempty_or) simp

lemma anti_then_type:
  assumes "\<And>t a b. anti (k t a b) (k t b a)"
  shows "anti (then_type a b k) (then_type b a k)"
  unfolding then_type_def
  using assms[of "hd a" "tl a" "tl b"] cmp_Compare_swap[of "hd b" "hd a"]
  by (intro anti_nonempty_or) (auto split: if_splits)

lemmas anti_intros = anti_nonempty_or anti_then_strings anti_then_keys anti_then_varints anti_first_byte

lemma anti_globalMetadata: "anti (Compare_globalMetadata a b) (Compare_globalMetadata b a)"
proof -
  have anti_same: "anti (Inr 0) (Inr 0)" by simp
  have "anti (Inr (bytes_Compare x y)) (Inr (bytes_Compare y x))" for x y
    using bytes_Compare_swap[of y x] by simp
  note this [intro!]
  show ?thesis
    unfolding Compare_globalMetadata_def by (intro anti_then_type) (auto simp del: anti_simps(3) intro!: anti_intros simp: anti_same)
qed

lemma anti_databaseMetadata: "anti (Compare_databaseMetadata a b) (Compare_databaseMetadata b a)"
  unfolding Compare_databaseMetadata_def by (intro anti_then_type) (auto intro!: anti_intros)

lemma anti_indexData: "anti (Compare_indexData a b) (Compare_indexData b a)"
proof -
  have "anti (case sequenceNumber a of Inl err \<Rightarrow> Inl err | Inr (a, sa) \<Rightarrow>
            (case sequenceNumber b of Inl err \<Rightarrow> Inl err | Inr (b, sb) \<Rightarrow>
               nonempty_or a b (then_keys a b (\<lambda>_ _. Inr (cmp_Compare sa sb)))))
          (case sequenceNumber b of Inl err \<Rightarrow> Inl err | Inr (b, sb) \<Rightarrow>
            (case sequenceNumber a of Inl err \<Rightarrow> Inl err | Inr (a, sa) \<Rightarrow>
               nonempty_or b a (then_keys b a (\<lambda>_ _. Inr (cmp_Compare sb sa)))))" for a b
    by (cases "sequenceNumber a"; cases "sequenceNumber b")
      (auto intro!: anti_intros simp: cmp_Compare_def)
  then show ?thesis unfolding Compare_indexData_def
    by (intro anti_then_keys) (auto split: sum.splits)
qed

lemma compareKeyPrefix_swap: "compareKeyPrefix q p = - compareKeyPrefix p q"
  by (auto simp: compareKeyPrefix_def cmp_Compare_def)

lemma compareKeyPrefix_eq: "compareKeyPrefix p q = 0 \<longleftrightarrow> p = (q :: keyPrefix)"
  by (auto simp: compareKeyPrefix_def)

lemma anti_Compare_result: "anti (Compare_result a b) (Compare_result b a)"
proof (cases "decodeKeyPrefix a"; cases "decodeKeyPrefix b")
  fix p q assume "decodeKeyPrefix a = Inr p" "decodeKeyPrefix b = Inr q"
  moreover obtain a' pa b' pb where "p = (a', pa)" "q = (b', pb)" by (cases p; cases q) blast
  moreover have "anti (then_keys a' b' (\<lambda>_ _. Inr 0)) (then_keys b' a' (\<lambda>_ _. Inr 0))"
    by (intro anti_then_keys) simp
  ultimately show ?thesis
    using compareKeyPrefix_swap[of pb pa] compareKeyPrefix_eq[of pa pb] anti_globalMetadata[of a' b']
      anti_databaseMetadata[of a' b'] anti_indexData[of a' b']
    by (auto simp: Compare_result_def Let_def)
qed (auto simp: Compare_result_def split: sum.splits)

subsection \<open>The order on the keys themselves\<close>

text \<open>
  The values the encoded keys stand for, how they are encoded (little-endian base 128 lengths, big-endian
  16-bit units, 8-byte doubles) and the order meant on them: by type, then by value, arrays element by
  element and then by length.
\<close>

datatype idb_key =
    KNull
  | KMinKey
  | KString "16 word list"
  | KDate "64 word"
  | KNumber "64 word"
  | KBinary bytes
  | KArray "idb_key list"

fun encode_varint :: "nat \<Rightarrow> bytes" where
  "encode_varint n =
     (if n < 128 then [word_of_nat n] else word_of_nat (n mod 128 + 128) # encode_varint (n div 128))"

declare encode_varint.simps [simp del]

definition encode_unit :: "16 word \<Rightarrow> bytes" where
  "encode_unit u = [ucast (drop_bit 8 u), ucast u]"

definition encode_double :: "64 word \<Rightarrow> bytes" where
  "encode_double w = map (\<lambda>i. ucast (drop_bit (8 * i) w)) [0..<8]"

fun key_type_byte :: "idb_key \<Rightarrow> byte" where
  "key_type_byte KNull = indexedDBKeyNullTypeByte"
| "key_type_byte KMinKey = indexedDBKeyMinKeyTypeByte"
| "key_type_byte (KString _) = indexedDBKeyStringTypeByte"
| "key_type_byte (KDate _) = indexedDBKeyDateTypeByte"
| "key_type_byte (KNumber _) = indexedDBKeyNumberTypeByte"
| "key_type_byte (KBinary _) = indexedDBKeyBinaryTypeByte"
| "key_type_byte (KArray _) = indexedDBKeyArrayTypeByte"

fun encode_key :: "idb_key \<Rightarrow> bytes" and encode_value :: "idb_key \<Rightarrow> bytes" and encode_keys :: "idb_key list \<Rightarrow> bytes" where
  "encode_key k = key_type_byte k # encode_value k"
| "encode_value KNull = []"
| "encode_value KMinKey = []"
| "encode_value (KString us) = encode_varint (length us) @ concat (map encode_unit us)"
| "encode_value (KDate w) = encode_double w"
| "encode_value (KNumber w) = encode_double w"
| "encode_value (KBinary bs) = encode_varint (length bs) @ bs"
| "encode_value (KArray ks) = encode_varint (length ks) @ encode_keys ks"
| "encode_keys [] = []"
| "encode_keys (k # ks) = encode_key k @ encode_keys ks"

fun key_ok :: "idb_key \<Rightarrow> bool" where
  "key_ok (KString us) \<longleftrightarrow> length us < 2 ^ 63"
| "key_ok (KBinary bs) \<longleftrightarrow> length bs < 2 ^ 63"
| "key_ok (KArray ks) \<longleftrightarrow> length ks < 2 ^ 63 \<and> list_all key_ok ks"
| "key_ok _ \<longleftrightarrow> True"

fun units_cmp :: "16 word list \<Rightarrow> 16 word list \<Rightarrow> int" where
  "units_cmp [] [] = 0"
| "units_cmp [] (_ # _) = -1"
| "units_cmp (_ # _) [] = 1"
| "units_cmp (x # xs) (y # ys) = (if x \<noteq> y then cmp_Compare x y else units_cmp xs ys)"

fun key_cmp :: "idb_key \<Rightarrow> idb_key \<Rightarrow> int" and keys_cmp :: "idb_key list \<Rightarrow> idb_key list \<Rightarrow> int" where
  "key_cmp (KString us) (KString vs) = units_cmp us vs"
| "key_cmp (KDate v) (KDate w) = cmp_Compare (float_rank v) (float_rank w)"
| "key_cmp (KNumber v) (KNumber w) = cmp_Compare (float_rank v) (float_rank w)"
| "key_cmp (KBinary xs) (KBinary ys) = bytes_Compare xs ys"
| "key_cmp (KArray xs) (KArray ys) = keys_cmp xs ys"
| "key_cmp x y = cmp_Compare (keyTypeByteToKeyType (key_type_byte x)) (keyTypeByteToKeyType (key_type_byte y))"
| "keys_cmp (x # xs) (y # ys) = (if key_cmp x y \<noteq> 0 then key_cmp x y else keys_cmp xs ys)"
| "keys_cmp xs ys = cmp_Compare (length xs) (length ys)"

lemma low_bits: "ucast ((word_of_nat n :: byte) AND 0x7f) = (word_of_nat (take_bit 7 n) :: 64 word)"
proof -
  have "(word_of_nat n :: byte) AND 0x7f = take_bit 7 (word_of_nat n)"
    by (simp add: take_bit_eq_mask mask_eq_exp_minus_1)
  also have "\<dots> = word_of_nat (take_bit 7 n)" by (simp add: take_bit_of_nat)
  finally show ?thesis by (simp add: unsigned_of_nat)
qed

lemma high_bit: "(word_of_nat n :: byte) AND 0x80 = 0 \<longleftrightarrow> even (n div 128)"
proof -
  have "(word_of_nat n :: byte) AND 0x80 = 0 \<longleftrightarrow> \<not> bit (word_of_nat n :: byte) 7"
    using and_exp_eq_0_iff_not_bit[of "word_of_nat n :: byte" 7] by simp
  also have "bit (word_of_nat n :: byte) 7 = bit n 7" by (simp add: bit_of_nat_iff bit_simps)
  finally show ?thesis by (simp add: bit_iff_odd)
qed

lemma split_low: "(word_of_nat n :: 64 word) = word_of_nat (take_bit 7 n) OR push_bit 7 (word_of_nat (n div 128))"
proof -
  have "n = take_bit 7 n OR push_bit 7 (drop_bit 7 n)"
  proof (rule bit_eqI)
    show "bit n k = bit (take_bit 7 n OR push_bit 7 (drop_bit 7 n)) k" for k
      by (cases "k < 7") (auto simp: bit_simps)
  qed
  then have "(word_of_nat n :: 64 word) = word_of_nat (take_bit 7 n OR push_bit 7 (drop_bit 7 n))" by simp
  also have "\<dots> = word_of_nat (take_bit 7 n) OR push_bit 7 (word_of_nat (drop_bit 7 n))"
    by (simp only: of_nat_or_eq of_nat_push_bit)
  finally show ?thesis by (simp add: drop_bit_eq_div)
qed

lemma decodeVarInt_loop_encode:
  "n < 2 ^ (63 - 7 * i) \<Longrightarrow> i < 9 \<Longrightarrow>
   decodeVarInt_loop i v (encode_varint n @ r) = Some (r, v OR push_bit (7 * i) (word_of_nat n))"
proof (induction n arbitrary: i v rule: encode_varint.induct)
  case (1 n)
  show ?case
  proof (cases "n < 128")
    case True
    then show ?thesis using 1(3)
      by (simp add: encode_varint.simps low_bits high_bit take_bit_nat_eq_self)
  next
    case False
    have i: "Suc i < 9"
    proof (rule ccontr)
      assume "\<not> Suc i < 9"
      then have "63 - 7 * i \<le> 7" by simp
      then have "(2::nat) ^ (63 - 7 * i) \<le> 2 ^ 7" by (intro power_increasing) simp_all
      with 1(2) False show False by simp
    qed
    have e: "63 - 7 * i = (63 - 7 * Suc i) + 7" using i by simp
    have "n < 2 ^ (63 - 7 * Suc i) * 2 ^ 7" using 1(2) unfolding e power_add .
    then have "n < 2 ^ (63 - 7 * Suc i) * 128" by simp
    then have small: "n div 128 < 2 ^ (63 - 7 * Suc i)" by (simp add: less_mult_imp_div_less)
    define b :: byte where "b = word_of_nat (n mod 128 + 128)"
    have "take_bit 7 (n mod 128 + 128) = take_bit 7 n" by (simp add: take_bit_eq_mod)
    then have low: "ucast (b AND 0x7f) = (word_of_nat (take_bit 7 n) :: 64 word)"
      unfolding b_def using low_bits[of "n mod 128 + 128"] by (simp only:)
    have high: "b AND 0x80 \<noteq> 0" unfolding b_def high_bit by (subst div_add_self2) simp_all
    have "encode_varint n = b # encode_varint (n div 128)"
      using False by (simp add: encode_varint.simps[of n] b_def)
    then show ?thesis
      using 1(1)[OF False small i] 1(3) low high
      by (simp add: split_low[of n] or.assoc push_bit_or push_bit_push_bit add.commute)
  qed
qed

lemma decodeVarInt_encode: "n < 2 ^ 63 \<Longrightarrow> decodeVarInt (encode_varint n @ r) = Inr (r, int n)"
proof -
  assume n: "n < 2 ^ 63"
  have "sint (word_of_nat n :: 64 word) = int n"
    using n by (simp add: signed_of_nat signed_take_bit_int_eq_self_iff)
  with n decodeVarInt_loop_encode[of n 0 0 r] show ?thesis by (simp add: decodeVarInt_def)
qed

lemma encode_varint_nonempty [simp]: "encode_varint n \<noteq> []"
  by (simp add: encode_varint.simps[of n])


lemma less_div_mod: "m < n \<longleftrightarrow> m div 256 < n div 256 \<or> m div 256 = n div 256 \<and> m mod 256 < n mod 256"
  for m n :: nat
proof -
  have m: "m = 256 * (m div 256) + m mod 256" "m mod 256 < 256" by simp_all
  have n: "n = 256 * (n div 256) + n mod 256" "n mod 256 < 256" by simp_all
  show ?thesis using m n by linarith
qed

lemma eq_div_mod: "m = n \<longleftrightarrow> m div 256 = n div 256 \<and> m mod 256 = n mod 256" for m n :: nat
  by (metis div_mult_mod_eq)

lemma unit_bytes:
  fixes u v :: "16 word"
  defines "hi \<equiv> \<lambda>w :: 16 word. ucast (drop_bit 8 w) :: byte" and "lo \<equiv> \<lambda>w :: 16 word. ucast w :: byte"
  shows "u < v \<longleftrightarrow> hi u < hi v \<or> hi u = hi v \<and> lo u < lo v" and "u = v \<longleftrightarrow> hi u = hi v \<and> lo u = lo v"
proof -
  have b: "unat w < 65536" for w :: "16 word" using unsigned_less[of w, where ?'a = nat] by simp
  have hi: "unat (hi w) = unat w div 256" for w
    using b[of w] by (simp add: hi_def unsigned_ucast_eq unsigned_drop_bit_eq
        drop_bit_eq_div[where ?'a = nat] take_bit_eq_mod[where ?'a = nat])
  have lo: "unat (lo w) = unat w mod 256" for w
    by (simp add: lo_def unsigned_ucast_eq take_bit_eq_mod)
  show "u < v \<longleftrightarrow> hi u < hi v \<or> hi u = hi v \<and> lo u < lo v"
    unfolding word_less_nat_alt word_unat_eq_iff hi lo by (rule less_div_mod)
  show "u = v \<longleftrightarrow> hi u = hi v \<and> lo u = lo v"
    unfolding word_unat_eq_iff hi lo by (rule eq_div_mod)
qed

lemma bytes_Compare_units:
  "bytes_Compare (concat (map encode_unit us)) (concat (map encode_unit vs)) = units_cmp us vs"
  by (induction us vs rule: units_cmp.induct)
    (auto simp: encode_unit_def cmp_Compare_def unit_bytes)

lemma bit_decodeInt_loop:
  "bit (decodeInt_loop i v bs) k \<longleftrightarrow>
     bit v k \<or> 8 * i \<le> k \<and> k < 64 \<and> k div 8 - i < length bs \<and> bit (bs ! (k div 8 - i)) (k mod 8)"
proof (induction i v bs rule: decodeInt_loop.induct)
  case (2 i v b bs)
  have s: "bit (push_bit (8 * i) (ucast b) :: 64 word) k \<longleftrightarrow> k < 64 \<and> k div 8 = i \<and> bit b (k mod 8)"
  proof -
    have "k - 8 * i < 8 \<and> 8 * i \<le> k \<longleftrightarrow> k div 8 = i" by auto
    moreover have "k div 8 = i \<Longrightarrow> k - 8 * i = k mod 8" by (simp add: modulo_nat_def)
    moreover have "bit b n \<Longrightarrow> n < 8" for n using bit_imp_le_length[of b n] by simp
    ultimately show ?thesis by (auto simp: bit_simps)
  qed
  show ?case
  proof (cases "k div 8 = i")
    case True
    then show ?thesis using 2 by (auto simp: s bit_or_iff)
  next
    case False
    then have "8 * i \<le> k \<longleftrightarrow> 8 * Suc i \<le> k" by auto
    moreover have "8 * Suc i \<le> k \<Longrightarrow> k div 8 - i = Suc (k div 8 - Suc i)" by auto
    ultimately show ?thesis using 2 False by (auto simp: s bit_or_iff)
  qed
qed simp

lemma decodeInt_loop_encode_double: "decodeInt_loop 0 0 (encode_double w) = w"
proof (rule bit_word_eqI)
  fix k assume k: "k < LENGTH(64)"
  then have "k div 8 < 8" by auto
  then have "encode_double w ! (k div 8) = ucast (drop_bit (8 * (k div 8)) w)" by (simp add: encode_double_def)
  with k show "bit (decodeInt_loop 0 0 (encode_double w)) k = bit w k"
    by (auto simp: bit_decodeInt_loop encode_double_def bit_simps)
qed

lemma length_encode_double [simp]: "length (encode_double w) = 8"
  by (simp add: encode_double_def)

lemma compareDouble_encode:
  "compareDouble (encode_double v @ a) (encode_double w @ b) = Inr (a, b, cmp_Compare (float_rank v) (float_rank w))"
  by (simp add: compareDouble_def NativeEndian_Uint64_def decodeInt_loop_encode_double)

lemma compareBinary_encode:
  "length xs < 2 ^ 63 \<Longrightarrow> length ys < 2 ^ 63 \<Longrightarrow>
   compareBinary (encode_varint (length xs) @ xs @ a) (encode_varint (length ys) @ ys @ b) =
     Inr (a, b, bytes_Compare xs ys)"
  by (simp add: compareBinary_slices[OF decodeVarInt_encode decodeVarInt_encode] slices_def Let_def)

lemma length_units [simp]: "length (concat (map encode_unit us)) = 2 * length us"
  by (induction us) (simp_all add: encode_unit_def)

lemma compareString_encode:
  "length us < 2 ^ 63 \<Longrightarrow> length vs < 2 ^ 63 \<Longrightarrow>
   compareStringWithLength (encode_varint (length us) @ concat (map encode_unit us) @ a)
     (encode_varint (length vs) @ concat (map encode_unit vs) @ b) = Inr (a, b, units_cmp us vs)"
  by (simp add: compareStringWithLength_slices[OF decodeVarInt_encode decodeVarInt_encode] slices_def Let_def
      nat_mult_distrib bytes_Compare_units)

text \<open>
  Comparing the encodings of two keys gives their order, and leaves what follows them when they are equal.
\<close>

definition decided :: "bytes \<Rightarrow> bytes \<Rightarrow> int \<Rightarrow> cmp_result option \<Rightarrow> bool" where
  "decided a b r res \<longleftrightarrow> (\<exists>a' b'. res = Some (Inr (a', b', r)) \<and> (r = 0 \<longrightarrow> a' = a \<and> b' = b))"

lemma decided_Some [simp]: "decided a b r (Some (Inr (a', b', r'))) \<longleftrightarrow> r' = r \<and> (r = 0 \<longrightarrow> a' = a \<and> b' = b)"
  by (auto simp: decided_def)

lemma encode_key_nonempty [simp]: "encode_key k \<noteq> []"
  by (cases k) simp_all

lemma key_cmp_types:
  "key_type_byte x \<noteq> key_type_byte y \<Longrightarrow>
     key_cmp x y = cmp_Compare (keyTypeByteToKeyType (key_type_byte x)) (keyTypeByteToKeyType (key_type_byte y)) \<and>
     keyTypeByteToKeyType (key_type_byte x) \<noteq> keyTypeByteToKeyType (key_type_byte y)"
  by (cases x; cases y) (simp_all add: keyTypeByteToKeyType_def idb_consts)

lemma encode_double_nonempty [simp]: "encode_double w \<noteq> []"
  by (simp add: encode_double_def)

lemma enc_keys_encode:
  assumes "\<And>xs ys. x = KArray xs \<Longrightarrow> y = KArray ys \<Longrightarrow>
             decided a b (keys_cmp xs ys) (arr (int (length xs)) (int (length ys)) (encode_keys xs @ a) (encode_keys ys @ b))"
    and "key_ok x" "key_ok y"
  shows "decided a b (key_cmp x y) (enc_keys arr (encode_key x @ a) (encode_key y @ b))"
proof (cases "key_type_byte x = key_type_byte y")
  case False
  from key_cmp_types[OF this] show ?thesis by (simp add: enc_keys_def)
next
  case True
  then have "enc_keys arr (encode_key x @ a) (encode_key y @ b) =
      enc_switch arr (key_type_byte x) (encode_value x @ a) (encode_value y @ b)"
    by (simp add: enc_keys_def)
  moreover have "decided a b (key_cmp x y) (enc_switch arr (key_type_byte x) (encode_value x @ a) (encode_value y @ b))"
    using True assms
    by (cases x; cases y)
      (simp_all add: enc_switch_def idb_consts decodeVarInt_encode compareDouble_encode compareBinary_encode
        compareString_encode)
  ultimately show ?thesis by simp
qed

lemma length_encode_keys_member: "k \<in> set ks \<Longrightarrow> length (encode_key k) \<le> length (encode_keys ks)"
  by (induction ks) auto

lemma length_encode_KArray: "length (encode_keys ks) + 2 \<le> length (encode_key (KArray ks))"
  using encode_varint_nonempty[of "length ks"] by (cases "encode_varint (length ks)") auto

lemma cmp_Compare_lengths: "la - int m = lb - int n \<Longrightarrow> cmp_Compare la lb = cmp_Compare m n"
  by (auto simp: cmp_Compare_def)

lemma keys_cmp_Nil:
  "xs = [] \<or> ys = [] \<Longrightarrow> keys_cmp xs ys = cmp_Compare (length xs) (length ys)"
  by (cases xs; cases ys) auto

lemma enc_array_encode:
  "length (encode_keys xs) < f \<Longrightarrow> list_all key_ok xs \<Longrightarrow> list_all key_ok ys \<Longrightarrow>
   n = min (length xs) (length ys) \<Longrightarrow> la - int (length xs) = lb - int (length ys) \<Longrightarrow>
   decided a b (keys_cmp xs ys) (enc_array f n la lb (encode_keys xs @ a) (encode_keys ys @ b))"
proof (induction f arbitrary: xs ys n la lb a b)
  case (Suc f)
  have arr: "decided a' b' (keys_cmp xs' ys')
      (enc_array f (nat (min (int (length xs')) (int (length ys')))) (int (length xs')) (int (length ys'))
        (encode_keys xs' @ a') (encode_keys ys' @ b'))"
    if "KArray xs' \<in> set xs" "KArray ys' \<in> set ys" for xs' ys' a' b'
  proof (rule Suc.IH)
    show "list_all key_ok xs'" "list_all key_ok ys'" using that Suc.prems(2,3) by (auto simp: list_all_iff)
    show "length (encode_keys xs') < f"
      using length_encode_keys_member[OF that(1)] length_encode_KArray[of xs'] Suc.prems(1) by linarith
  qed simp_all
  show ?case
  proof (cases "xs = [] \<or> ys = []")
    case True
    then show ?thesis
      using Suc.prems(4) cmp_Compare_lengths[OF Suc.prems(5)] by (auto simp: keys_cmp_Nil)
  next
    case False
    then obtain x xs' y ys' where xy: "xs = x # xs'" "ys = y # ys'" by (cases xs; cases ys) auto
    let ?a = "encode_keys xs' @ a" and ?b = "encode_keys ys' @ b"
    have n: "n = Suc (min (length xs') (length ys'))" using Suc.prems(4) xy by simp
    have "decided ?a ?b (key_cmp x y) (enc f (encode_key x @ ?a) (encode_key y @ ?b))"
      using Suc.prems(2,3) xy by (intro enc_keys_encode arr) auto
    moreover have "decided a b (keys_cmp xs' ys') (enc_array f (n - 1) la lb ?a ?b)"
      using Suc.prems xy by (intro Suc.IH) (auto simp: n)
    ultimately show ?thesis
      by (auto simp: xy n decided_def)
  qed
qed simp

lemma compareEncodedIDBKeys_encode:
  assumes "key_ok x" "key_ok y"
  shows "\<exists>a' b'. compareEncodedIDBKeys (encode_key x @ a) (encode_key y @ b) = Inr (a', b', key_cmp x y) \<and>
           (key_cmp x y = 0 \<longrightarrow> a' = a \<and> b' = b)"
proof -
  have "decided a b (key_cmp x y) (enc (length (encode_key x @ a)) (encode_key x @ a) (encode_key y @ b))"
    using assms length_encode_KArray by (intro enc_keys_encode enc_array_encode) force+
  then show ?thesis by (simp add: enc_compareEncodedIDBKeys decided_def)
qed

text \<open>The order on keys is a total preorder.\<close>

definition preorder_at :: "('a \<Rightarrow> 'a \<Rightarrow> int) \<Rightarrow> 'a \<Rightarrow> bool" where
  "preorder_at c x \<longleftrightarrow> (\<forall>y z. c x y \<le> 0 \<longrightarrow> c y z \<le> 0 \<longrightarrow> c x z \<le> 0 \<and> (c x z = 0 \<longleftrightarrow> c x y = 0 \<and> c y z = 0))"

lemma preorder_at_cmp_Compare: "preorder_at (\<lambda>x y. cmp_Compare (f x) (f y)) x"
  by (auto simp: preorder_at_def cmp_Compare_def split: if_splits)

lemma preorder_at_bytes: "preorder_at bytes_Compare xs"
proof (induction xs)
  case Nil
  have "bytes_Compare [] zs \<le> 0 \<and> (bytes_Compare [] zs = 0 \<longleftrightarrow> bytes_Compare [] ys = 0 \<and> bytes_Compare ys zs = 0)"
    if "bytes_Compare ys zs \<le> 0" for ys zs
    using that by (cases ys; cases zs) (simp_all split: if_splits)
  then show ?case unfolding preorder_at_def by blast
next
  case (Cons x xs)
  have "bytes_Compare (x # xs) zs \<le> 0 \<and>
      (bytes_Compare (x # xs) zs = 0 \<longleftrightarrow> bytes_Compare (x # xs) ys = 0 \<and> bytes_Compare ys zs = 0)"
    if le: "bytes_Compare (x # xs) ys \<le> 0" "bytes_Compare ys zs \<le> 0" for ys zs
  proof -
    obtain y ys' where y: "ys = y # ys'" using le(1) by (cases ys) simp_all
    obtain z zs' where z: "zs = z # zs'" using le(2) y by (cases zs) simp_all
    have ord: "x \<le> y" "y \<le> z" using le by (simp_all add: y z not_le[symmetric] split: if_splits)
    show ?thesis
    proof (cases "x = y \<and> y = z")
      case True
      then have "bytes_Compare xs ys' \<le> 0" "bytes_Compare ys' zs' \<le> 0" using le by (simp_all add: y z)
      with Cons have "bytes_Compare xs zs' \<le> 0 \<and>
          (bytes_Compare xs zs' = 0 \<longleftrightarrow> bytes_Compare xs ys' = 0 \<and> bytes_Compare ys' zs' = 0)"
        unfolding preorder_at_def by blast
      with True show ?thesis by (simp add: y z)
    next
      case False
      then have "x < z" using ord by (metis order.not_eq_order_implies_strict order.trans order.antisym)
      then show ?thesis using False by (auto simp: y z)
    qed
  qed
  then show ?case unfolding preorder_at_def by blast
qed

lemma units_cmp_bytes: "units_cmp us vs = bytes_Compare (concat (map encode_unit us)) (concat (map encode_unit vs))"
  by (simp add: bytes_Compare_units)

lemma preorder_at_units: "preorder_at units_cmp us"
  using preorder_at_bytes[of "concat (map encode_unit us)"] unfolding preorder_at_def units_cmp_bytes by blast

lemma preorder_at_keys: "(\<And>x. x \<in> set xs \<Longrightarrow> preorder_at key_cmp x) \<Longrightarrow> preorder_at keys_cmp xs"
proof (induction xs)
  case Nil
  have "keys_cmp [] ys \<le> 0 \<longrightarrow> keys_cmp ys zs \<le> 0 \<longrightarrow>
      keys_cmp [] zs \<le> 0 \<and> (keys_cmp [] zs = 0 \<longleftrightarrow> keys_cmp [] ys = 0 \<and> keys_cmp ys zs = 0)" for ys zs
    by (cases ys; cases zs) (auto simp: cmp_Compare_def)
  then show ?case by (simp add: preorder_at_def)
next
  case (Cons x xs)
  then have x: "preorder_at key_cmp x" and xs: "preorder_at keys_cmp xs" by simp_all
  have "keys_cmp (x # xs) zs \<le> 0 \<and> (keys_cmp (x # xs) zs = 0 \<longleftrightarrow> keys_cmp (x # xs) ys = 0 \<and> keys_cmp ys zs = 0)"
    if le: "keys_cmp (x # xs) ys \<le> 0" "keys_cmp ys zs \<le> 0" for ys zs
  proof -
    obtain y ys' where y: "ys = y # ys'" using le(1) by (cases ys) (auto simp: cmp_Compare_def)
    obtain z zs' where z: "zs = z # zs'" using le(2) y by (cases zs) (auto simp: cmp_Compare_def)
    have xy: "key_cmp x y \<le> 0" "key_cmp y z \<le> 0" using le by (auto simp: y z split: if_splits)
    then have xz: "key_cmp x z \<le> 0 \<and> (key_cmp x z = 0 \<longleftrightarrow> key_cmp x y = 0 \<and> key_cmp y z = 0)"
      using x unfolding preorder_at_def by blast
    show ?thesis
    proof (cases "key_cmp x y = 0 \<and> key_cmp y z = 0")
      case True
      then have "keys_cmp xs ys' \<le> 0" "keys_cmp ys' zs' \<le> 0" using le by (simp_all add: y z)
      then have "keys_cmp xs zs' \<le> 0 \<and> (keys_cmp xs zs' = 0 \<longleftrightarrow> keys_cmp xs ys' = 0 \<and> keys_cmp ys' zs' = 0)"
        using xs unfolding preorder_at_def by blast
      then show ?thesis using True xz by (simp add: y z)
    next
      case False
      then show ?thesis using xz xy by (auto simp: y z)
    qed
  qed
  then show ?case unfolding preorder_at_def by blast
qed

lemma key_cmp_rank:
  "key_cmp x y \<le> 0 \<Longrightarrow> keyTypeByteToKeyType (key_type_byte x) \<le> keyTypeByteToKeyType (key_type_byte y)"
  "key_type_byte x \<noteq> key_type_byte y \<Longrightarrow> key_cmp x y \<noteq> 0"
  using key_cmp_types[of x y]
  by (cases "key_type_byte x = key_type_byte y"; auto simp: cmp_Compare_def split: if_splits)+

lemma preorder_at_key_if:
  assumes same: "\<And>y z. key_type_byte y = key_type_byte x \<Longrightarrow> key_type_byte z = key_type_byte x \<Longrightarrow>
    key_cmp x y \<le> 0 \<Longrightarrow> key_cmp y z \<le> 0 \<Longrightarrow>
    key_cmp x z \<le> 0 \<and> (key_cmp x z = 0 \<longleftrightarrow> key_cmp x y = 0 \<and> key_cmp y z = 0)"
  shows "preorder_at key_cmp x"
  unfolding preorder_at_def
proof (intro allI impI)
  fix y z assume le: "key_cmp x y \<le> 0" "key_cmp y z \<le> 0"
  let ?rank = "\<lambda>k. keyTypeByteToKeyType (key_type_byte k)"
  have ranks: "?rank x \<le> ?rank y" "?rank y \<le> ?rank z" using le by (simp_all add: key_cmp_rank(1))
  show "key_cmp x z \<le> 0 \<and> (key_cmp x z = 0 \<longleftrightarrow> key_cmp x y = 0 \<and> key_cmp y z = 0)"
  proof (cases "key_type_byte y = key_type_byte x \<and> key_type_byte z = key_type_byte x")
    case True
    with same le show ?thesis by blast
  next
    case False
    then have ne: "key_cmp x y \<noteq> 0 \<or> key_cmp y z \<noteq> 0" using key_cmp_rank(2) by metis
    have "?rank x \<noteq> ?rank z"
    proof
      assume "?rank x = ?rank z"
      with ranks have "?rank x = ?rank y" "?rank y = ?rank z" by linarith+
      with False key_cmp_types[of x y] key_cmp_types[of y z] show False by metis
    qed
    with ranks have lt: "?rank x < ?rank z" by linarith
    then have "key_type_byte x \<noteq> key_type_byte z" by auto
    with key_cmp_types[OF this] lt ne show ?thesis by (simp add: cmp_Compare_def)
  qed
qed

lemma key_of_type:
  "key_type_byte y = key_type_byte KNull \<longleftrightarrow> y = KNull"
  "key_type_byte y = key_type_byte KMinKey \<longleftrightarrow> y = KMinKey"
  "key_type_byte y = key_type_byte (KString us) \<longleftrightarrow> (\<exists>w. y = KString w)"
  "key_type_byte y = key_type_byte (KDate d) \<longleftrightarrow> (\<exists>w. y = KDate w)"
  "key_type_byte y = key_type_byte (KNumber d) \<longleftrightarrow> (\<exists>w. y = KNumber w)"
  "key_type_byte y = key_type_byte (KBinary bs) \<longleftrightarrow> (\<exists>w. y = KBinary w)"
  "key_type_byte y = key_type_byte (KArray ks) \<longleftrightarrow> (\<exists>w. y = KArray w)"
  by (cases y; simp add: idb_consts)+

lemma preorder_at_key: "preorder_at key_cmp x"
proof (induction x)
  case (KString us)
  show ?case
    by (rule preorder_at_key_if)
      (use preorder_at_units[of us] in
        \<open>unfold preorder_at_def key_of_type, elim exE, simp only: key_cmp.simps\<close>)
next
  case (KDate d)
  show ?case
    by (rule preorder_at_key_if)
      (use preorder_at_cmp_Compare[of float_rank d] in
        \<open>unfold preorder_at_def key_of_type, elim exE, simp only: key_cmp.simps\<close>)
next
  case (KNumber d)
  show ?case
    by (rule preorder_at_key_if)
      (use preorder_at_cmp_Compare[of float_rank d] in
        \<open>unfold preorder_at_def key_of_type, elim exE, simp only: key_cmp.simps\<close>)
next
  case (KBinary bs)
  show ?case
    by (rule preorder_at_key_if)
      (use preorder_at_bytes[of bs] in
        \<open>unfold preorder_at_def key_of_type, elim exE, simp only: key_cmp.simps\<close>)
next
  case (KArray ks)
  then have "preorder_at keys_cmp ks" by (rule preorder_at_keys)
  then show ?case
    by (intro preorder_at_key_if) (unfold preorder_at_def key_of_type, elim exE, simp only: key_cmp.simps)
qed (rule preorder_at_key_if, auto simp only: key_of_type key_cmp.simps cmp_Compare_refl)+

lemma key_cmp_swap: "key_cmp y x = - key_cmp x y" and keys_cmp_swap: "keys_cmp ys xs = - keys_cmp xs ys"
proof (induction x y and xs ys rule: key_cmp_keys_cmp.induct)
  case (1 us vs)
  show ?case using bytes_Compare_swap[of "concat (map encode_unit vs)" "concat (map encode_unit us)"]
    by (simp add: units_cmp_bytes)
next
  case (4 xs ys)
  show ?case using bytes_Compare_swap[of ys xs] by simp
qed (simp_all add: cmp_Compare_def)

subsection \<open>Properties\<close>

lemma Compare_encoded:
  assumes "decodeKeyPrefix a = Inr (encode_key x, p)" "decodeKeyPrefix b = Inr (encode_key y, p)"
    and "keyPrefix_Type p \<in> {objectStoreData, existsEntry, blobEntry}" and "key_ok x" "key_ok y"
  shows "Compare a b = key_cmp x y"
proof -
  obtain a' b' where r: "compareEncodedIDBKeys (encode_key x) (encode_key y) = Inr (a', b', key_cmp x y)"
    using compareEncodedIDBKeys_encode[OF assms(4,5), of "[]" "[]"] by auto
  have "Compare_result a b = then_keys (encode_key x) (encode_key y) (\<lambda>_ _. Inr 0)"
    using assms(1-3) by (auto simp: Compare_result_def compareKeyPrefix_eq Let_def idb_consts)
  with r show ?thesis by (simp add: Compare_def then_keys_def)
qed

text \<open>C10: on the keys of object stores, exists entries and blob entries that share a prefix, \<open>Compare\<close> of
  the encoded keys is the order of the values they encode: by type, then by value, strings by code
  unit, doubles by their numeric value, and arrays element by element and then by length.
\<close>

theorem idb_compare_refines_order:
  assumes "decodeKeyPrefix a = Inr (encode_key x, p)" and "decodeKeyPrefix b = Inr (encode_key y, p)"
    and "keyPrefix_Type p \<in> {objectStoreData, existsEntry, blobEntry}" and "key_ok x" and "key_ok y"
  shows "Compare a b = key_cmp x y"
  using assms by (rule Compare_encoded)

theorem idb_compare_refines_order_witness:
  "Compare ([0, 1, 1, 1] @ encode_key (KArray [KMinKey, KString [97]]))
           ([0, 1, 1, 1] @ encode_key (KArray [KMinKey, KString [98]])) =
     key_cmp (KArray [KMinKey, KString [97]]) (KArray [KMinKey, KString [98]]) \<and>
   key_cmp (KArray [KMinKey, KString [97]]) (KArray [KMinKey, KString [98]]) = -1"
proof -
  let ?p = "\<lparr>DatabaseId = 1, ObjectStoreId = 1, IndexId = 1\<rparr>"
  have pre: "decodeKeyPrefix ([0, 1, 1, 1] @ bs) = Inr (bs, ?p)" for bs
    by (simp add: decodeKeyPrefix_def decodeInt_def)
  have "keyPrefix_Type ?p \<in> {objectStoreData, existsEntry, blobEntry}"
    by (simp add: keyPrefix_Type_def idb_consts)
  from idb_compare_refines_order[OF pre pre this, of "KArray [KMinKey, KString [97]]" "KArray [KMinKey, KString [98]]"]
  show ?thesis by (simp add: cmp_Compare_def)
qed

text \<open>C32: on such keys \<open>Compare\<close> is a total preorder, which is what the store that sorts by it relies on:
  swapping the arguments negates the result, a key is equal to itself, and the order is transitive.
\<close>

theorem idb_compare_total_preorder:
  assumes "decodeKeyPrefix a = Inr (encode_key x, p)" and "decodeKeyPrefix b = Inr (encode_key y, p)"
    and "decodeKeyPrefix c = Inr (encode_key z, p)"
    and "keyPrefix_Type p \<in> {objectStoreData, existsEntry, blobEntry}" and "key_ok x" and "key_ok y" and "key_ok z"
  shows "Compare b a = - Compare a b \<and> Compare a a = 0 \<and>
         (Compare a b \<le> 0 \<and> Compare b c \<le> 0 \<longrightarrow> Compare a c \<le> 0)"
proof -
  have c: "Compare a b = key_cmp x y" "Compare b a = key_cmp y x" "Compare a a = key_cmp x x"
    "Compare b c = key_cmp y z" "Compare a c = key_cmp x z"
    using assms by (auto intro: Compare_encoded)
  have "key_cmp x y \<le> 0 \<Longrightarrow> key_cmp y z \<le> 0 \<Longrightarrow> key_cmp x z \<le> 0"
    using preorder_at_key[of x] unfolding preorder_at_def by blast
  then show ?thesis using key_cmp_swap[of y x] key_cmp_swap[of x x] by (simp add: c)
qed

theorem idb_compare_total_preorder_witness:
  "Compare ([0, 1, 1, 1] @ encode_key (KNumber 0)) ([0, 1, 1, 1] @ encode_key (KNumber 5)) = -1 \<and>
   Compare ([0, 1, 1, 1] @ encode_key (KNumber 0)) ([0, 1, 1, 1] @ encode_key KMinKey) \<le> 0"
proof -
  let ?p = "\<lparr>DatabaseId = 1, ObjectStoreId = 1, IndexId = 1\<rparr>"
  have pre: "decodeKeyPrefix ([0, 1, 1, 1] @ bs) = Inr (bs, ?p)" for bs
    by (simp add: decodeKeyPrefix_def decodeInt_def)
  have ty: "keyPrefix_Type ?p \<in> {objectStoreData, existsEntry, blobEntry}"
    by (simp add: keyPrefix_Type_def idb_consts)
  have "Compare ([0, 1, 1, 1] @ encode_key (KNumber 0)) ([0, 1, 1, 1] @ encode_key (KNumber 5)) = -1"
    using Compare_encoded[OF pre pre ty, of "KNumber 0" "KNumber 5"]
    by (simp add: cmp_Compare_def float_rank_def)
  moreover have "Compare ([0, 1, 1, 1] @ encode_key (KNumber 5)) ([0, 1, 1, 1] @ encode_key KMinKey) = -1"
    using Compare_encoded[OF pre pre ty, of "KNumber 5" KMinKey]
    by (simp add: cmp_Compare_def keyTypeByteToKeyType_def idb_consts)
  ultimately show ?thesis
    using idb_compare_total_preorder[OF pre pre pre ty, of "KNumber 0" "KNumber 5" KMinKey] by simp
qed

text \<open>C16: on every pair of keys, well-formed or not, metadata and index entries included: when both orders
  of the arguments are decoded without an error, swapping them negates the result.
\<close>

theorem idb_compare_antisymmetric:
  assumes "Compare_result a b = Inr r" and "Compare_result b a = Inr r'"
  shows "Compare a b = - Compare b a"
  using anti_Compare_result[of a b] assms by (simp add: Compare_def)

theorem idb_compare_antisymmetric_witness:
  "Compare [0, 0, 0, 0, 100, 5] [0, 0, 0, 0, 100, 9] = -1 \<and> Compare [0, 0, 0, 0, 100, 9] [0, 0, 0, 0, 100, 5] = 1"
proof -
  have "Compare_result [0, 0, 0, 0, 100, 5] [0, 0, 0, 0, 100, 9] = Inr (-1)"
    "Compare_result [0, 0, 0, 0, 100, 9] [0, 0, 0, 0, 100, 5] = Inr 1"
    by code_simp+
  with idb_compare_antisymmetric[OF this] show ?thesis by (simp add: Compare_def)
qed

text \<open>When one order of the arguments is an error, the error counts as "equal", and the result is not
  antisymmetric: an unknown type byte has the type of a null key, and which of the two bytes the switch
  looks at depends on the order.
\<close>

lemma idb_compare_unknown_type_asymmetric:
  "Compare [0, 1, 1, 30, 0, 5, 5] [0, 1, 1, 30, 7, 5, 1] = 1 \<and>
   Compare [0, 1, 1, 30, 7, 5, 1] [0, 1, 1, 30, 0, 5, 5] = 0"
  by code_simp

text \<open>C33: comparing nested keys ends: with as much fuel as the first key has bytes, or more, the recursion
  returns, always with the result of \<open>compareEncodedIDBKeys\<close>.
\<close>

theorem idb_compare_terminates:
  assumes "length a \<le> fuel"
  shows "enc_keys (\<lambda>lenA lenB. enc_array fuel (nat (min lenA lenB)) lenA lenB) a b = Some (compareEncodedIDBKeys a b)"
  using assms by (rule enc_compareEncodedIDBKeys)

theorem idb_compare_terminates_witness:
  "enc_keys (\<lambda>lenA lenB. enc_array 4 (nat (min lenA lenB)) lenA lenB) [4, 2, 5, 5] [4, 1, 5] = Some (Inr ([5], [], 1))"
proof -
  have "compareEncodedIDBKeys [4, 2, 5, 5] [4, 1, 5] = Inr ([5], [], 1)" by code_simp
  then show ?thesis using idb_compare_terminates[of "[4, 2, 5, 5]" 4 "[4, 1, 5]"] by simp
qed

end
