(* ===== verification/FileSys.thy ===== *)
theory FileSys
  imports Filepath "HOL-Library.Char_ord" "HOL-Library.List_Lexorder"
begin

text \<open>
  The part of Go's \<open>os\<close> package the update library uses, on an explicit file system, and the
  retry helper \<open>backoff.WaitFor\<close> (\<open>pkg/backoff/waitfor.go\<close>).

  A file system maps cleaned paths to directories and files; there are no symbolic links (the
  launcher creates none).  Modes are \<open>fs.FileMode\<close> words.  Two kinds of failures come from outside:
  \<open>faults\<close> says for each operation that changes the file system, in order, whether it fails (no
  space, file in use); \<open>denied\<close> are the paths \<open>os.Stat\<close> fails for with an error that is not
  \<open>os.ErrNotExist\<close>.  An operation that fails for such a reason changes nothing.  \<open>ticks\<close> counts the
  programs run, so that running the same program twice may give two results.
\<close>

unbundle bit_operations_syntax

type_synonym fs_mode = "32 word"

datatype fs_node = FDir fs_mode | FFile fs_mode bytes

record filesys =
  nodes :: "(string \<times> fs_node) list"
  umask :: fs_mode
  faults :: "bool list"
  denied :: "string list"
  ticks :: nat

definition node_at :: "filesys \<Rightarrow> string \<Rightarrow> fs_node option" where
  "node_at fs p = (if Clean p = ''/'' then Some (FDir 0x1ED) else map_of (nodes fs) (Clean p))"

definition is_file :: "filesys \<Rightarrow> string \<Rightarrow> bool" where
  "is_file fs p \<longleftrightarrow> (case node_at fs p of Some (FFile _ _) \<Rightarrow> True | _ \<Rightarrow> False)"

definition is_dir :: "filesys \<Rightarrow> string \<Rightarrow> bool" where
  "is_dir fs p \<longleftrightarrow> (case node_at fs p of Some (FDir _) \<Rightarrow> True | _ \<Rightarrow> False)"

text \<open>A path strictly below a directory; both are clean.\<close>

definition below :: "string \<Rightarrow> string \<Rightarrow> bool" where
  "below d p \<longleftrightarrow> (if d = ''/'' then HasPrefix p ''/'' \<and> p \<noteq> ''/'' else HasPrefix p (d @ ''/''))"

definition pop_fault :: "filesys \<Rightarrow> bool \<times> filesys" where
  "pop_fault fs = (case faults fs of [] \<Rightarrow> (False, fs) | b # bs \<Rightarrow> (b, fs\<lparr>faults := bs\<rparr>))"

definition os_op :: "string \<Rightarrow> (filesys \<Rightarrow> filesys \<times> error option) \<Rightarrow> filesys \<Rightarrow> filesys \<times> error option" where
  "os_op what f fs =
     (case pop_fault fs of
        (failed, fs') \<Rightarrow> if failed then (fs', Some (ErrNew what)) else f fs')"

subsection \<open>Operations\<close>

datatype stat_result = StatOk fs_node | StatNotExist | StatErr

definition os_Stat :: "filesys \<Rightarrow> string \<Rightarrow> stat_result" where
  "os_Stat fs p =
     (if p \<in> set (denied fs) then StatErr
      else case node_at fs p of None \<Rightarrow> StatNotExist | Some n \<Rightarrow> StatOk n)"

definition new_mode :: "filesys \<Rightarrow> fs_mode \<Rightarrow> fs_mode" where
  "new_mode fs perm = perm AND 0x1FF AND NOT (umask fs)"

text \<open>The path and the directories above it, outermost first.\<close>

definition path_and_parents :: "string \<Rightarrow> string list" where
  "path_and_parents p =
     map (\<lambda>n. (if IsAbs p then ''/'' else '''') @ join_sep ''/'' (take n (comps p))) [1..<Suc (length (comps p))]"

fun mkdirs :: "fs_mode \<Rightarrow> string list \<Rightarrow> filesys \<Rightarrow> filesys \<times> error option" where
  "mkdirs perm [] fs = (fs, None)"
| "mkdirs perm (d # ds) fs =
     (case node_at fs d of
        Some (FDir _) \<Rightarrow> mkdirs perm ds fs
      | Some (FFile _ _) \<Rightarrow> (fs, Some (ErrNew ''not a directory''))
      | None \<Rightarrow> mkdirs perm ds (fs\<lparr>nodes := AList.update d (FDir (new_mode fs perm)) (nodes fs)\<rparr>))"

definition os_MkdirAll :: "string \<Rightarrow> fs_mode \<Rightarrow> filesys \<Rightarrow> filesys \<times> error option" where
  "os_MkdirAll p perm = os_op ''mkdir'' (mkdirs perm (path_and_parents p))"

definition remove_tree :: "string \<Rightarrow> filesys \<Rightarrow> filesys" where
  "remove_tree p fs = fs\<lparr>nodes := filter (\<lambda>(q, _). q \<noteq> Clean p \<and> \<not> below (Clean p) q) (nodes fs)\<rparr>"

definition os_RemoveAll :: "string \<Rightarrow> filesys \<Rightarrow> filesys \<times> error option" where
  "os_RemoveAll p = os_op ''unlinkat'' (\<lambda>fs. (remove_tree p fs, None))"

definition os_Chmod :: "string \<Rightarrow> fs_mode \<Rightarrow> filesys \<Rightarrow> filesys \<times> error option" where
  "os_Chmod p mode = os_op ''chmod'' (\<lambda>fs.
     (case node_at fs p of
        None \<Rightarrow> (fs, Some (ErrNew ''no such file or directory''))
      | Some (FDir _) \<Rightarrow> (fs\<lparr>nodes := AList.update (Clean p) (FDir mode) (nodes fs)\<rparr>, None)
      | Some (FFile _ c) \<Rightarrow> (fs\<lparr>nodes := AList.update (Clean p) (FFile mode c) (nodes fs)\<rparr>, None)))"

definition has_children :: "filesys \<Rightarrow> string \<Rightarrow> bool" where
  "has_children fs p \<longleftrightarrow> list_ex (\<lambda>(q, _). below (Clean p) q) (nodes fs)"

definition move_tree :: "string \<Rightarrow> string \<Rightarrow> filesys \<Rightarrow> filesys" where
  "move_tree old new fs =
     (let o1 = Clean old; n1 = Clean new; kept = nodes (remove_tree new (remove_tree old fs));
          moved = filter (\<lambda>(q, _). q = o1 \<or> below o1 q) (nodes fs)
      in fs\<lparr>nodes := map (\<lambda>(q, n). (n1 @ drop (length o1) q, n)) moved @ kept\<rparr>)"

text \<open>A directory replaces a missing or an empty directory only.\<close>

definition os_Rename :: "string \<Rightarrow> string \<Rightarrow> filesys \<Rightarrow> filesys \<times> error option" where
  "os_Rename old new = os_op ''rename'' (\<lambda>fs.
     (case node_at fs old of
        None \<Rightarrow> (fs, Some (ErrNew ''no such file or directory''))
      | Some (FFile _ _) \<Rightarrow>
          if \<not> is_dir fs (Dir new) \<or> is_dir fs new then (fs, Some (ErrNew ''rename'')) else (move_tree old new fs, None)
      | Some (FDir _) \<Rightarrow>
          if \<not> is_dir fs (Dir new) \<or> is_file fs new \<or> has_children fs new \<or>
             Clean new = Clean old \<or> below (Clean old) (Clean new)
          then (fs, Some (ErrNew ''rename'')) else (move_tree old new fs, None)))"

text \<open>
  \<open>os.OpenFile\<close> with \<open>O_CREATE\<close> and \<open>O_TRUNC\<close>, \<open>io.Copy\<close> and \<open>Close\<close>: three operations that may
  fail.  A copy that fails leaves the file empty.
\<close>

definition os_Create :: "string \<Rightarrow> fs_mode \<Rightarrow> filesys \<Rightarrow> filesys \<times> error option" where
  "os_Create p perm = os_op ''open'' (\<lambda>fs.
     if \<not> is_dir fs (Dir p) then (fs, Some (ErrNew ''no such file or directory''))
     else case node_at fs p of
         Some (FDir _) \<Rightarrow> (fs, Some (ErrNew ''is a directory''))
       | Some (FFile m _) \<Rightarrow> (fs\<lparr>nodes := AList.update (Clean p) (FFile m []) (nodes fs)\<rparr>, None)
       | None \<Rightarrow> (fs\<lparr>nodes := AList.update (Clean p) (FFile (new_mode fs perm) []) (nodes fs)\<rparr>, None))"

definition os_Copy :: "string \<Rightarrow> bytes \<Rightarrow> filesys \<Rightarrow> filesys \<times> error option" where
  "os_Copy p content = os_op ''write'' (\<lambda>fs.
     (case node_at fs p of
        Some (FFile m _) \<Rightarrow> (fs\<lparr>nodes := AList.update (Clean p) (FFile m content) (nodes fs)\<rparr>, None)
      | _ \<Rightarrow> (fs, Some (ErrNew ''file already closed''))))"

definition os_Close :: "filesys \<Rightarrow> filesys \<times> error option" where
  "os_Close = os_op ''close'' (\<lambda>fs. (fs, None))"

definition os_ReadFile :: "filesys \<Rightarrow> string \<Rightarrow> error + bytes" where
  "os_ReadFile fs p =
     (case node_at fs p of Some (FFile _ c) \<Rightarrow> Inr c | _ \<Rightarrow> Inl (ErrNew ''open''))"

text \<open>
  \<open>filepath.Glob(dir/*)\<close>: the entries of a directory, sorted by name; the directory holds no
  pattern characters.
\<close>

definition entries :: "filesys \<Rightarrow> string \<Rightarrow> string list" where
  "entries fs d =
     sort (map (\<lambda>q. drop (length (Clean d @ ''/'')) q)
       (filter (\<lambda>q. below (Clean d) q \<and> CHR ''/'' \<notin> set (drop (length (Clean d @ ''/'')) q)) (map fst (nodes fs))))"

subsection \<open>Retries\<close>

text \<open>
  \<open>backoff.WaitFor\<close>: \<open>n\<close> is how often the limiter lets the function run again before the deadline;
  it always runs once.
\<close>

fun WaitFor :: "nat \<Rightarrow> ('s \<Rightarrow> 's \<times> error option) \<Rightarrow> 's \<Rightarrow> 's \<times> error option" where
  "WaitFor n f s =
     (case f s of
        (s', None) \<Rightarrow> (s', None)
      | (s', Some err) \<Rightarrow>
          (case n of 0 \<Rightarrow> (s', Some (ErrWrap ''timeout'' err)) | Suc m \<Rightarrow> WaitFor m f s'))"

subsection \<open>Trees of the file system\<close>

definition in_tree :: "string \<Rightarrow> string \<Rightarrow> bool" where
  "in_tree d q \<longleftrightarrow> q = Clean d \<or> below (Clean d) q"

lemma remove_tree_nodes: "nodes (remove_tree p fs) = filter (\<lambda>(q, _). \<not> in_tree p q) (nodes fs)"
  by (simp add: remove_tree_def in_tree_def)

lemma first_name:
  assumes "v @ r = w @ r'" "CHR ''/'' \<notin> set v" "CHR ''/'' \<notin> set w"
    and "r = '''' \<or> hd r = CHR ''/''" "r' = '''' \<or> hd r' = CHR ''/''"
  shows "v = w"
proof -
  have take: "takeWhile (\<lambda>c. c \<noteq> CHR ''/'') (u @ s) = u"
    if "CHR ''/'' \<notin> set u" "s = '''' \<or> hd s = CHR ''/''" for u s
    using that by (induction u) (cases s; auto)+
  from take[OF assms(2,4)] take[OF assms(3,5)] assms(1) show ?thesis by simp
qed

lemma Join_name_not_root:
  assumes "IsAbs d" "comps d \<noteq> []" "is_name v"
  shows "Clean (Join [d, v]) = Clean d @ ''/'' @ v" "Clean d @ ''/'' @ v \<noteq> ''/''"
proof -
  show "Clean (Join [d, v]) = Clean d @ ''/'' @ v"
    using Join_name(1)[OF assms(1,3)] Join_name_below[OF assms(1,3,2)] by (metis Clean_Clean)
  show "Clean d @ ''/'' @ v \<noteq> ''/''" using assms by (simp add: Clean_abs is_name_def)
qed

lemma in_tree_name:
  assumes "IsAbs d" "comps d \<noteq> []" "is_name v"
  shows "in_tree (Join [d, v]) q \<longleftrightarrow> (\<exists>r. q = Clean d @ ''/'' @ v @ r \<and> (r = '''' \<or> hd r = CHR ''/''))"
proof -
  have "in_tree (Join [d, v]) q \<longleftrightarrow> q = Clean d @ ''/'' @ v \<or> (\<exists>r. q = Clean d @ ''/'' @ v @ ''/'' @ r)"
    using Join_name_not_root[OF assms] by (simp only: in_tree_def below_def HasPrefix_iff if_False append_assoc)
  also have "\<dots> \<longleftrightarrow> (\<exists>r. q = Clean d @ ''/'' @ v @ r \<and> (r = '''' \<or> hd r = CHR ''/''))"
  proof
    assume "\<exists>r. q = Clean d @ ''/'' @ v @ r \<and> (r = '''' \<or> hd r = CHR ''/'')"
    then obtain r where r: "q = Clean d @ ''/'' @ v @ r" "r = '''' \<or> hd r = CHR ''/''" by blast
    then show "q = Clean d @ ''/'' @ v \<or> (\<exists>r. q = Clean d @ ''/'' @ v @ ''/'' @ r)" by (cases r) auto
  qed (auto intro: exI[of _ "''/'' @ _"])
  finally show ?thesis .
qed

lemma in_tree_disjoint:
  assumes "IsAbs d" "comps d \<noteq> []" "is_name v" "is_name w" "v \<noteq> w" "in_tree (Join [d, v]) q"
  shows "\<not> in_tree (Join [d, w]) q"
proof
  assume "in_tree (Join [d, w]) q"
  with assms obtain r r' where "v @ r = w @ r'" "r = '''' \<or> hd r = CHR ''/''" "r' = '''' \<or> hd r' = CHR ''/''"
    by (auto simp: in_tree_name simp del: Join.simps)
  from first_name[OF this(1) _ _ this(2,3)] assms show False by (simp add: is_name_def)
qed

lemma map_of_filter_key: "map_of (filter (\<lambda>(q, _). P q) xs) k = (if P k then map_of xs k else None)"
  by (induction xs) auto

subsection \<open>What the operations change\<close>

text \<open>An operation that may fail changes nothing but the list of faults when it does.\<close>

lemma os_op_cases:
  assumes "os_op what f fs = (fs', err)"
  obtains (fault) "fs' = fs\<lparr>faults := faults fs'\<rparr>" "err \<noteq> None" "faults fs \<noteq> []"
  | (run) g where "f g = (fs', err)" "g = fs\<lparr>faults := faults g\<rparr>" "faults fs = [] \<longrightarrow> g = fs"
proof (cases "faults fs")
  case Nil
  with assms run[of fs] show ?thesis by (simp add: os_op_def pop_fault_def)
next
  case (Cons b bs)
  show ?thesis
  proof (cases b)
    case True
    with assms Cons fault show ?thesis by (auto simp: os_op_def pop_fault_def)
  next
    case False
    with assms Cons run[of "fs\<lparr>faults := bs\<rparr>"] show ?thesis by (auto simp: os_op_def pop_fault_def)
  qed
qed

lemma faults_only:
  assumes "g = fs\<lparr>faults := faults g\<rparr>"
  shows "nodes g = nodes fs" "denied g = denied fs" "umask g = umask fs"
  by (subst assms, simp)+

lemma node_at_nodes: "nodes g = nodes fs \<Longrightarrow> node_at g p = node_at fs p"
  by (simp add: node_at_def)

text \<open>A change inside of the paths that satisfy \<open>P\<close>.\<close>

definition changes_in :: "(string \<Rightarrow> bool) \<Rightarrow> filesys \<Rightarrow> filesys \<Rightarrow> bool" where
  "changes_in P fs fs' \<longleftrightarrow> (\<forall>q. \<not> P q \<longrightarrow> map_of (nodes fs') q = map_of (nodes fs) q)"

lemma changes_in_refl [simp]: "changes_in P fs fs"
  by (simp add: changes_in_def)

lemma changes_in_nodes: "nodes fs' = nodes fs \<Longrightarrow> changes_in P fs fs'"
  by (simp add: changes_in_def)

lemma changes_in_trans: "changes_in P fs fs1 \<Longrightarrow> changes_in P fs1 fs2 \<Longrightarrow> changes_in P fs fs2"
  by (simp add: changes_in_def)

lemma changes_in_mono: "changes_in P fs fs' \<Longrightarrow> (\<And>q. P q \<Longrightarrow> Q q) \<Longrightarrow> changes_in Q fs fs'"
  by (auto simp: changes_in_def)

lemma changes_in_update: "P p \<Longrightarrow> changes_in P fs (fs\<lparr>nodes := AList.update p n (nodes fs)\<rparr>)"
  by (auto simp: changes_in_def update_conv')

lemma changes_in_op:
  assumes "os_op what f fs = (fs', err)" and "\<And>g r. f g = r \<Longrightarrow> changes_in P g (fst r)"
  shows "changes_in P fs fs'"
  using assms(1)
proof (cases rule: os_op_cases)
  case fault
  then show ?thesis by (intro changes_in_nodes faults_only(1))
next
  case (run g)
  have "changes_in P fs g" using run(2) by (intro changes_in_nodes faults_only(1))
  moreover have "changes_in P g fs'" using assms(2)[OF run(1)] by simp
  ultimately show ?thesis by (rule changes_in_trans)
qed

lemma os_RemoveAll_changes: "os_RemoveAll p fs = (fs', err) \<Longrightarrow> changes_in (in_tree p) fs fs'"
  unfolding os_RemoveAll_def
  by (erule changes_in_op) (auto simp: changes_in_def remove_tree_nodes map_of_filter_key)

lemma os_Chmod_changes: "os_Chmod p m fs = (fs', err) \<Longrightarrow> changes_in (\<lambda>q. q = Clean p) fs fs'"
  unfolding os_Chmod_def
  by (erule changes_in_op) (auto simp: changes_in_update split: option.splits fs_node.splits)

lemma os_Create_changes: "os_Create p m fs = (fs', err) \<Longrightarrow> changes_in (\<lambda>q. q = Clean p) fs fs'"
  unfolding os_Create_def
  by (erule changes_in_op) (auto simp: changes_in_update split: option.splits fs_node.splits)

lemma os_Copy_changes: "os_Copy p c fs = (fs', err) \<Longrightarrow> changes_in (\<lambda>q. q = Clean p) fs fs'"
  unfolding os_Copy_def
  by (erule changes_in_op) (auto simp: changes_in_update split: option.splits fs_node.splits)

lemma os_Close_changes: "os_Close fs = (fs', err) \<Longrightarrow> changes_in P fs fs'"
  unfolding os_Close_def by (erule changes_in_op) auto

declare WaitFor.simps [simp del]

lemma WaitFor_changes:
  assumes "\<And>s s' e. f s = (s', e) \<Longrightarrow> changes_in P s s'"
  shows "WaitFor n f fs = (fs', err) \<Longrightarrow> changes_in P fs fs'"
proof (induction n arbitrary: fs)
  case 0
  then show ?case using assms by (auto simp: WaitFor.simps[of 0] split: prod.splits option.splits)
next
  case (Suc n)
  obtain s e where "f fs = (s, e)" by (cases "f fs")
  with Suc.prems Suc.IH[of s] assms show ?case
    by (cases e) (auto simp: WaitFor.simps[of "Suc n"] intro: changes_in_trans)
qed

text \<open>With no faults left an operation succeeds or fails for its own reasons.\<close>

lemma os_op_no_faults: "faults fs = [] \<Longrightarrow> os_op what f fs = f fs"
  by (simp add: os_op_def pop_fault_def)

lemma os_RemoveAll_no_faults: "faults fs = [] \<Longrightarrow> os_RemoveAll p fs = (remove_tree p fs, None)"
  by (simp add: os_RemoveAll_def os_op_no_faults)


lemma WaitFor_Ok:
  "WaitFor n f fs = (fs', None) \<Longrightarrow> \<exists>s. f s = (fs', None) \<and>
     (\<forall>I. I fs \<longrightarrow> (\<forall>t t' e. I t \<longrightarrow> f t = (t', Some e) \<longrightarrow> I t') \<longrightarrow> I s)"
proof (induction n arbitrary: fs)
  case 0
  then show ?case by (auto simp: WaitFor.simps[of 0] split: prod.splits option.splits)
next
  case (Suc n)
  obtain s e where f: "f fs = (s, e)" by (cases "f fs")
  show ?case
  proof (cases e)
    case None
    with f Suc.prems show ?thesis by (auto simp: WaitFor.simps[of "Suc n"])
  next
    case (Some err)
    with f Suc.prems have "WaitFor n f s = (fs', None)" by (simp add: WaitFor.simps[of "Suc n"])
    from Suc.IH[OF this] obtain t where t: "f t = (fs', None)"
      "\<forall>I. I s \<longrightarrow> (\<forall>t t' e. I t \<longrightarrow> f t = (t', Some e) \<longrightarrow> I t') \<longrightarrow> I t" by blast
    with f Some show ?thesis by metis
  qed
qed

text \<open>Making a directory whose parents exist changes at most its own entry.\<close>

lemma path_and_parents_Join:
  assumes "IsAbs d" "is_name n"
  shows "path_and_parents (Join [d, n]) = path_and_parents d @ [Join [d, n]]"
proof -
  have "Join [d, n] = ''/'' @ join_sep ''/'' (comps d @ [n])"
    using Join_name[OF assms] Clean_abs[of "Join [d, n]"] by (metis Clean_Clean)
  then show ?thesis using Join_name(2,3)[OF assms] assms(1)
    by (auto simp: path_and_parents_def simp del: Join.simps)
qed

lemma mkdirs_existing: "\<forall>d \<in> set ds. is_dir fs d \<Longrightarrow> mkdirs perm (ds @ es) fs = mkdirs perm es fs"
  by (induction ds) (auto simp: is_dir_def split: option.splits fs_node.splits)

definition dirs_exist :: "filesys \<Rightarrow> string \<Rightarrow> bool" where
  "dirs_exist fs d \<longleftrightarrow> (\<forall>p \<in> set (path_and_parents d). is_dir fs p)"

lemma os_MkdirAll_changes:
  assumes "os_MkdirAll (Join [d, n]) perm fs = (fs', err)" "IsAbs d" "is_name n" "dirs_exist fs d"
  shows "changes_in (\<lambda>q. q = Clean (Join [d, n])) fs fs'"
  using assms(1) unfolding os_MkdirAll_def
proof (cases rule: os_op_cases)
  case fault
  then show ?thesis by (intro changes_in_nodes faults_only(1))
next
  case (run g)
  have g: "nodes g = nodes fs" by (rule faults_only(1)[OF run(2)])
  have "\<forall>p \<in> set (path_and_parents d). is_dir g p"
    using assms(4) by (simp add: dirs_exist_def is_dir_def node_at_nodes[OF g])
  then have m: "mkdirs perm [Join [d, n]] g = (fs', err)"
    using run(1) by (simp add: path_and_parents_Join[OF assms(2,3)] mkdirs_existing del: Join.simps mkdirs.simps)
  have c: "Join [d, n] = Clean (Join [d, n])" using Join_name(1)[OF assms(2,3)] by simp
  have "changes_in (\<lambda>q. q = Clean (Join [d, n])) g fs'"
    using m c by (auto simp: changes_in_def update_conv' simp del: Join.simps split: option.splits fs_node.splits)
  with changes_in_nodes[OF g] show ?thesis by (rule changes_in_trans)
qed

lemma os_Rename_err:
  assumes "os_Rename old new fs = (fs', Some e)"
  shows "nodes fs' = nodes fs"
  using assms unfolding os_Rename_def
proof (cases rule: os_op_cases)
  case fault
  then show ?thesis by (intro faults_only(1))
next
  case (run g)
  then have "fs' = g" by (auto split: option.splits fs_node.splits if_splits)
  with faults_only(1)[OF run(2)] show ?thesis by simp
qed

lemma below_prefix: "below d q \<Longrightarrow> \<exists>r. q = d @ r"
  by (auto simp: below_def HasPrefix_iff split: if_splits)

lemma map_of_moved:
  "\<forall>(q, n) \<in> set xs. \<exists>r. q = o1 @ r \<Longrightarrow>
   map_of (map (\<lambda>(q, n). (n1 @ drop (length o1) q, n)) xs) (n1 @ r) = map_of xs (o1 @ r)"
  by (induction xs) auto

lemma below_append: "d \<noteq> ''/'' \<Longrightarrow> below d (d @ ''/'' @ s)"
  by (auto simp: below_def HasPrefix_iff)

lemma move_tree_lookup:
  assumes "Clean old \<noteq> ''/''" "map_of (nodes fs) (Clean old @ ''/'' @ s) = Some n"
  shows "map_of (nodes (move_tree old new fs)) (Clean new @ ''/'' @ s) = Some n"
proof -
  let ?o = "Clean old" and ?moved = "filter (\<lambda>(q, _). q = Clean old \<or> below (Clean old) q) (nodes fs)"
  have "map_of (map (\<lambda>(q, n). (Clean new @ drop (length ?o) q, n)) ?moved) (Clean new @ ''/'' @ s) = map_of ?moved (?o @ ''/'' @ s)"
    by (rule map_of_moved) (auto dest: below_prefix)
  also have "\<dots> = Some n"
    using assms below_append[OF assms(1), of s] by (simp add: map_of_filter_key)
  finally show ?thesis by (simp add: move_tree_def Let_def map_add_Some_iff)
qed

lemma os_Rename_Ok:
  assumes "os_Rename old new fs = (fs', None)"
  shows "\<exists>g. nodes g = nodes fs \<and> fs' = move_tree old new g"
  using assms unfolding os_Rename_def
proof (cases rule: os_op_cases)
  case (run g)
  then have "fs' = move_tree old new g" by (auto split: option.splits fs_node.splits if_splits)
  with faults_only(1)[OF run(2)] show ?thesis by blast
qed simp

lemma WaitFor_Rename_lookup:
  assumes "WaitFor n (os_Rename old new) fs = (fs', None)" "Clean old \<noteq> ''/''"
    and "map_of (nodes fs) (Clean old @ ''/'' @ s) = Some nd"
  shows "map_of (nodes fs') (Clean new @ ''/'' @ s) = Some nd"
proof -
  obtain t where t: "os_Rename old new t = (fs', None)"
    "\<forall>I. I fs \<longrightarrow> (\<forall>t t' e. I t \<longrightarrow> os_Rename old new t = (t', Some e) \<longrightarrow> I t') \<longrightarrow> I t"
    using WaitFor_Ok[OF assms(1)] by blast
  have "nodes t = nodes fs"
    using t(2)[rule_format, of "\<lambda>s. nodes s = nodes fs"] os_Rename_err by metis
  with os_Rename_Ok[OF t(1)] assms show ?thesis by (metis move_tree_lookup)
qed

end
