(* ===== verification/TufLibrary.thy ===== *)
theory TufLibrary
  imports FileSys Tuf_Version
begin

text \<open>
  The update library of the autoupdater: \<open>ee/tuf/library_manager.go\<close>, \<open>ee/tuf/util.go\<close>,
  \<open>ee/tuf/util_linux.go\<close>, \<open>ee/tuf/finalize_linux.go\<close>.

  The library lives in the explicit file system of theory \<open>FileSys\<close>; every operation takes and
  returns it.  What the code calls outside of the repository is in the record \<open>ulm_ext\<close>: the HTTP
  client, the metadata functions of go-tuf, the reader of gzipped tar archives, running a program and
  \<open>patchelf\<close>.  The operations of one binary's library exclude one another by a mutex, so they are
  modelled one at a time.  An error of the archive reader ends the list of whole entries: an error inside the data of
  an entry, after which the code leaves a file with the part it read, is one before that entry.  The code is that of Linux.
\<close>

subsection \<open>What the code calls\<close>

record TargetFileMeta =
  tf_Length :: int
  tf_Hashes :: "(string \<times> string) list"
  tf_Custom :: "string option"

datatype exec_out = ExecOk | ExecBusy | ExecFail error

text \<open>\<open>header.Name\<close>, \<open>header.FileInfo().Mode()\<close> and the data of an archive entry.\<close>

record tar_entry =
  hdr_Name :: string
  hdr_Mode :: fs_mode
  hdr_Data :: bytes

text \<open>
  \<open>http_get\<close>: the body that arrives and the error that ends it early, if any.
  \<open>read_archive\<close>: the entries of a gzipped tar archive and the error that ends it early, if any.
  \<open>run_version\<close>: running a file with \<open>--version\<close>, which may end differently every time.
\<close>

record ulm_ext =
  GOOS :: string
  GOARCH :: string
  selfPath :: string
  IsNixOS :: bool
  http_get :: "string \<Rightarrow> error + (bytes \<times> error option)"
  HashAlgorithms :: "TargetFileMeta \<Rightarrow> string list"
  GenerateTargetFileMeta :: "bytes \<Rightarrow> string list \<Rightarrow> error + TargetFileMeta"
  TargetFileMetaEqual :: "TargetFileMeta \<Rightarrow> TargetFileMeta \<Rightarrow> error option"
  read_archive :: "bytes \<Rightarrow> error + (tar_entry list \<times> error option)"
  run_version :: "bytes \<Rightarrow> nat \<Rightarrow> exec_out"
  patchelf_print_interpreter :: "string \<Rightarrow> error + string"
  patchelf_set_interpreter :: "string \<Rightarrow> string \<Rightarrow> filesys \<Rightarrow> filesys \<times> error option"

text \<open>The functions of the semantic version package the library uses besides those of \<open>semver\<close>.\<close>

record 'v semver_lib = "'v semver" +
  Prerelease :: "'v \<Rightarrow> string"
  SetPrerelease :: "'v \<Rightarrow> string \<Rightarrow> 'v option"
  Original :: "'v \<Rightarrow> string"
  SortCollection :: "'v list \<Rightarrow> 'v list"

record updateLibraryManager =
  mirrorUrl :: string
  baseDir :: string

subsection \<open>Executables\<close>

definition executableLocation :: "string \<Rightarrow> autoupdatableBinary \<Rightarrow> string" where
  "executableLocation updateDirectory binary = Join [updateDirectory, binary_string binary]"

definition checkExecutablePermissions :: "filesys \<Rightarrow> string \<Rightarrow> error option" where
  "checkExecutablePermissions fs potentialBinary =
     (if potentialBinary = '''' then Some (ErrNew ''empty string is not executable'')
      else case os_Stat fs potentialBinary of
          StatNotExist \<Rightarrow> Some (ErrNew ''no such file'')
        | StatErr \<Rightarrow> Some (ErrWrap ''statting file'' (ErrNew ''stat''))
        | StatOk (FDir _) \<Rightarrow> Some (ErrNew ''is a directory'')
        | StatOk (FFile mode _) \<Rightarrow> if mode AND 0x49 = 0 then Some (ErrNew ''not executable'') else None)"

definition runExecutableCheck :: "ulm_ext \<Rightarrow> string \<Rightarrow> filesys \<Rightarrow> filesys \<times> exec_out" where
  "runExecutableCheck x potentialBinary fs =
     (fs\<lparr>ticks := Suc (ticks fs)\<rparr>,
      case node_at fs potentialBinary of
        Some (FFile _ content) \<Rightarrow> run_version x content (ticks fs)
      | _ \<Rightarrow> ExecFail (ErrNew ''no such file or directory''))"

fun CheckExecutable_tries :: "nat \<Rightarrow> ulm_ext \<Rightarrow> string \<Rightarrow> filesys \<Rightarrow> filesys \<times> error option" where
  "CheckExecutable_tries 0 x potentialBinary fs =
     (fs, Some (ErrNew ''could not exec despite retries due to text file busy''))"
| "CheckExecutable_tries (Suc i) x potentialBinary fs =
     (case runExecutableCheck x potentialBinary fs of
        (fs', ExecOk) \<Rightarrow> (fs', None)
      | (fs', ExecBusy) \<Rightarrow> CheckExecutable_tries i x potentialBinary fs'
      | (fs', ExecFail err) \<Rightarrow> (fs', Some (ErrWrap ''running executable check'' err)))"

definition CheckExecutable :: "ulm_ext \<Rightarrow> string \<Rightarrow> filesys \<Rightarrow> filesys \<times> error option" where
  "CheckExecutable x potentialBinary fs =
     (case checkExecutablePermissions fs potentialBinary of
        Some err \<Rightarrow> (fs, Some (ErrWrap ''checking executable permissions'' err))
      | None \<Rightarrow>
          if Clean (selfPath x) = Clean potentialBinary then (fs, None)
          else CheckExecutable_tries 3 x potentialBinary fs)"

definition getInterpreter :: "ulm_ext \<Rightarrow> error + string" where
  "getInterpreter x =
     (case patchelf_print_interpreter x (selfPath x) of
        Inl err \<Rightarrow> Inl (ErrWrap ''running patchelf'' err)
      | Inr out \<Rightarrow> Inr (TrimSpace out))"

definition patchExecutable :: "ulm_ext \<Rightarrow> string \<Rightarrow> filesys \<Rightarrow> filesys \<times> error option" where
  "patchExecutable x executable fs =
     (if \<not> IsNixOS x then (fs, None)
      else case getInterpreter x of
          Inl err \<Rightarrow> (fs, Some (ErrWrap ''getting interpreter'' err))
        | Inr interpreter \<Rightarrow>
            (case patchelf_set_interpreter x interpreter executable fs of
               (fs', Some err) \<Rightarrow> (fs', Some (ErrWrap ''running patchelf'' err))
             | (fs', None) \<Rightarrow> (fs', None)))"

subsection \<open>Locations\<close>

definition ArchForPlatform :: "string \<Rightarrow> string \<Rightarrow> string" where
  "ArchForPlatform platform arch = (if platform = ''darwin'' then ''universal'' else arch)"

definition PlatformArch :: "ulm_ext \<Rightarrow> string" where
  "PlatformArch x = ArchForPlatform (GOOS x) (GOARCH x)"

definition updatesDirectory :: "autoupdatableBinary \<Rightarrow> string \<Rightarrow> string" where
  "updatesDirectory binary baseUpdateDirectory = Join [baseUpdateDirectory, binary_string binary]"

definition pathToTargetVersionExecutable :: "autoupdatableBinary \<Rightarrow> string \<Rightarrow> string \<Rightarrow> string \<times> string" where
  "pathToTargetVersionExecutable binary targetFilename baseUpdateDirectory =
     (let targetVersion = versionFromTarget binary targetFilename;
          versionDir = Join [updatesDirectory binary baseUpdateDirectory, targetVersion]
      in (executableLocation versionDir binary, targetVersion))"

definition binaries :: "autoupdatableBinary list" where
  "binaries = [binaryLauncher, binaryOsqueryd]"

fun newUpdateLibraryManager_dirs ::
  "string \<Rightarrow> autoupdatableBinary list \<Rightarrow> filesys \<Rightarrow> filesys \<times> error option" where
  "newUpdateLibraryManager_dirs base [] fs = (fs, None)"
| "newUpdateLibraryManager_dirs base (binary # bs) fs =
     (case os_MkdirAll (updatesDirectory binary base) 0x1ED fs of
        (fs', Some err) \<Rightarrow> (fs', Some (ErrWrap ''could not make updates directory'' err))
      | (fs', None) \<Rightarrow> newUpdateLibraryManager_dirs base bs fs')"

definition newUpdateLibraryManager ::
  "string \<Rightarrow> string \<Rightarrow> filesys \<Rightarrow> filesys \<times> (error + updateLibraryManager)" where
  "newUpdateLibraryManager url base fs =
     (case os_MkdirAll base 0x1ED fs of
        (fs1, Some err) \<Rightarrow> (fs1, Inl (ErrWrap ''could not make base directory for updates library'' err))
      | (fs1, None) \<Rightarrow>
          (case newUpdateLibraryManager_dirs base binaries fs1 of
             (fs2, Some err) \<Rightarrow> (fs2, Inl err)
           | (fs2, None) \<Rightarrow> (fs2, Inr \<lparr>mirrorUrl = url, baseDir = base\<rparr>)))"

definition Available ::
  "ulm_ext \<Rightarrow> updateLibraryManager \<Rightarrow> autoupdatableBinary \<Rightarrow> string \<Rightarrow> filesys \<Rightarrow> filesys \<times> bool" where
  "Available x ulm binary targetFilename fs =
     (let executablePath = fst (pathToTargetVersionExecutable binary targetFilename (baseDir ulm))
      in if os_Stat fs executablePath = StatNotExist then (fs, False)
         else case CheckExecutable x executablePath fs of (fs', err) \<Rightarrow> (fs', err = None))"

definition tempDir ::
  "updateLibraryManager \<Rightarrow> autoupdatableBinary \<Rightarrow> string \<Rightarrow> int \<Rightarrow> filesys \<Rightarrow> filesys \<times> (error + string)" where
  "tempDir ulm binary pattern unixMicro fs =
     (let directory = Join [updatesDirectory binary (baseDir ulm), pattern @ ''-'' @ FormatInt unixMicro]
      in case os_MkdirAll directory 0x1ED fs of
           (fs', Some err) \<Rightarrow> (fs', Inl (ErrWrap ''making dir'' err))
         | (fs', None) \<Rightarrow> (fs', Inr directory))"

subsection \<open>Downloading\<close>

text \<open>
  What the limited reader delivers of the body, and whether reading ended with an error: the error is
  met only when the body is shorter than the length allowed.
\<close>

definition limited_read :: "int \<Rightarrow> bytes \<times> error option \<Rightarrow> error + bytes" where
  "limited_read n body =
     (case snd body of
        Some err \<Rightarrow> if int (length (fst body)) < n then Inl err else Inr (take (nat n) (fst body))
      | None \<Rightarrow> Inr (take (nat n) (fst body)))"

definition downloadPath :: "ulm_ext \<Rightarrow> autoupdatableBinary \<Rightarrow> string \<Rightarrow> string" where
  "downloadPath x binary targetFilename =
     Join [''/'', ''kolide'', binary_string binary, GOOS x, PlatformArch x, targetFilename]"

text \<open>The bytes downloaded and verified against the metadata.\<close>

definition download_verified ::
  "ulm_ext \<Rightarrow> updateLibraryManager \<Rightarrow> autoupdatableBinary \<Rightarrow> string \<Rightarrow> TargetFileMeta \<Rightarrow> error + bytes" where
  "download_verified x ulm binary targetFilename localTargetMetadata =
     (case http_get x (mirrorUrl ulm @ downloadPath x binary targetFilename) of
        Inl err \<Rightarrow> Inl (ErrWrap ''could not make request to download target'' err)
      | Inr body \<Rightarrow>
          (case limited_read (tf_Length localTargetMetadata) body of
             Inl err \<Rightarrow> Inl (ErrWrap ''could not write downloaded target and compute its metadata'' err)
           | Inr fileBuffer \<Rightarrow>
               (case GenerateTargetFileMeta x fileBuffer (HashAlgorithms x localTargetMetadata) of
                  Inl err \<Rightarrow> Inl (ErrWrap ''could not write downloaded target and compute its metadata'' err)
                | Inr actualTargetMeta \<Rightarrow>
                    (case TargetFileMetaEqual x actualTargetMeta localTargetMetadata of
                       Some err \<Rightarrow> Inl (ErrWrap ''verification failed for target'' err)
                     | None \<Rightarrow> Inr fileBuffer))))"

text \<open>The path is returned with most errors too, so that the caller can remove its directory.\<close>

definition stageAndVerifyUpdate ::
  "ulm_ext \<Rightarrow> updateLibraryManager \<Rightarrow> autoupdatableBinary \<Rightarrow> string \<Rightarrow> TargetFileMeta \<Rightarrow> int \<Rightarrow> filesys \<Rightarrow>
   filesys \<times> string \<times> error option" where
  "stageAndVerifyUpdate x ulm binary targetFilename localTargetMetadata unixMicro fs =
     (case tempDir ulm binary (''staged-updates-'' @ versionFromTarget binary targetFilename) unixMicro fs of
        (fs1, Inl err) \<Rightarrow> (fs1, '''', Some (ErrWrap ''could not create temporary directory for downloading target'' err))
      | (fs1, Inr stagingDir) \<Rightarrow>
          let stagedUpdatePath = Join [stagingDir, targetFilename]
          in (case download_verified x ulm binary targetFilename localTargetMetadata of
                Inl err \<Rightarrow> (fs1, stagedUpdatePath, Some err)
              | Inr fileBuffer \<Rightarrow>
                  (case os_Create stagedUpdatePath 0x1AD fs1 of
                     (fs2, Some err) \<Rightarrow> (fs2, '''', Some (ErrWrap ''could not create file'' err))
                   | (fs2, None) \<Rightarrow>
                       (case os_Copy stagedUpdatePath fileBuffer fs2 of
                          (fs3, Some err) \<Rightarrow>
                            (case os_Close fs3 of
                               (fs4, Some err') \<Rightarrow>
                                 (fs4, stagedUpdatePath, Some (ErrWrap ''could not write downloaded target and could not close file'' err'))
                             | (fs4, None) \<Rightarrow> (fs4, stagedUpdatePath, Some (ErrWrap ''could not write downloaded target'' err)))
                        | (fs3, None) \<Rightarrow>
                            (case os_Close fs3 of
                               (fs4, Some err) \<Rightarrow>
                                 (fs4, stagedUpdatePath, Some (ErrWrap ''could not close downloaded target file'' err))
                             | (fs4, None) \<Rightarrow> (fs4, stagedUpdatePath, None))))))"

subsection \<open>Unpacking\<close>

definition sanitizeExtractPath :: "string \<Rightarrow> string \<Rightarrow> error option" where
  "sanitizeExtractPath filePath destination =
     (let destpath = Join [destination, filePath]
      in if \<not> HasPrefix destpath (Clean destination @ ''/'') then Some (ErrNew ''illegal file path'') else None)"

text \<open>
  \<open>fs.ModeType\<close>: directory, symbolic link, device, named pipe, socket, character device, irregular.
\<close>

definition ModeDir :: fs_mode where
  "ModeDir = 0x80000000"

definition ModeType :: fs_mode where
  "ModeType = ModeDir OR 0x8000000 OR 0x4000000 OR 0x2000000 OR 0x1000000 OR 0x200000 OR 0x80000"

definition allowedPermissionBits :: fs_mode where
  "allowedPermissionBits = ModeType OR 0x1ED"

definition sanitizePermissions :: "fs_mode \<Rightarrow> fs_mode" where
  "sanitizePermissions mode = mode AND allowedPermissionBits"

definition writeBundleFile :: "string \<Rightarrow> fs_mode \<Rightarrow> bytes \<Rightarrow> filesys \<Rightarrow> filesys \<times> error option" where
  "writeBundleFile destPath perm content fs =
     (case os_Create destPath perm fs of
        (fs1, Some err) \<Rightarrow> (fs1, Some (ErrWrap ''opening'' err))
      | (fs1, None) \<Rightarrow>
          (case os_Copy destPath content fs1 of
             (fs2, Some err) \<Rightarrow>
               (case os_Close fs2 of
                  (fs3, Some closeErr) \<Rightarrow> (fs3, Some (ErrWrap ''copying, close error'' closeErr))
                | (fs3, None) \<Rightarrow> (fs3, Some (ErrWrap ''copying'' err)))
           | (fs2, None) \<Rightarrow>
               (case os_Close fs2 of
                  (fs3, Some err) \<Rightarrow> (fs3, Some (ErrWrap ''closing'' err))
                | (fs3, None) \<Rightarrow> (fs3, None))))"

fun untar_loop :: "string \<Rightarrow> error option \<Rightarrow> tar_entry list \<Rightarrow> filesys \<Rightarrow> filesys \<times> error option" where
  "untar_loop destinationDir tail [] fs = (fs, map_option (ErrWrap ''reading tar file'') tail)"
| "untar_loop destinationDir tail (header # rest) fs =
     (case sanitizeExtractPath destinationDir (hdr_Name header) of
        Some err \<Rightarrow> (fs, Some (ErrWrap ''checking filename'' err))
      | None \<Rightarrow>
          let destPath = Join [destinationDir, hdr_Name header];
              perm = sanitizePermissions (hdr_Mode header)
          in if hdr_Mode header AND ModeDir \<noteq> 0
             then (case os_MkdirAll destPath perm fs of
                     (fs', Some err) \<Rightarrow> (fs', Some (ErrWrap ''creating directory for tar file'' err))
                   | (fs', None) \<Rightarrow> untar_loop destinationDir tail rest fs')
             else (case writeBundleFile destPath perm (hdr_Data header) fs of
                     (fs', Some err) \<Rightarrow> (fs', Some (ErrWrap ''writing file'' err))
                   | (fs', None) \<Rightarrow> untar_loop destinationDir tail rest fs'))"

definition untar :: "ulm_ext \<Rightarrow> string \<Rightarrow> string \<Rightarrow> filesys \<Rightarrow> filesys \<times> error option" where
  "untar x destinationDir source fs =
     (case os_ReadFile fs source of
        Inl err \<Rightarrow> (fs, Some (ErrWrap ''opening source'' err))
      | Inr content \<Rightarrow>
          (case read_archive x content of
             Inl err \<Rightarrow> (fs, Some (ErrWrap ''creating gzip reader'' err))
           | Inr (headers, tail) \<Rightarrow> untar_loop destinationDir tail headers fs))"

subsection \<open>Adding an update\<close>

text \<open>
  How often the retried operations run again before their deadlines: removing the staged version,
  checking the executable, renaming, removing the download.
\<close>

record retries =
  retry_cleanup :: nat
  retry_check :: nat
  retry_rename :: nat
  retry_download_cleanup :: nat

text \<open>The steps of \<open>moveVerifiedUpdate\<close> between creating the directory and the deferred cleanup.\<close>

definition moveVerifiedUpdate_steps ::
  "ulm_ext \<Rightarrow> updateLibraryManager \<Rightarrow> retries \<Rightarrow> autoupdatableBinary \<Rightarrow> string \<Rightarrow> string \<Rightarrow> string \<Rightarrow> filesys \<Rightarrow>
   filesys \<times> error option" where
  "moveVerifiedUpdate_steps x ulm rt binary targetVersion stagedVersionedDirectory stagedUpdate fs =
     (let executable = executableLocation stagedVersionedDirectory binary;
          newUpdateDirectory = Join [updatesDirectory binary (baseDir ulm), targetVersion]
      in case untar x stagedVersionedDirectory stagedUpdate fs of
        (fs1, Some err) \<Rightarrow> (fs1, Some (ErrWrap ''could not untar update'' err))
      | (fs1, None) \<Rightarrow>
          (case os_Chmod executable 0x1ED fs1 of
             (fs2, Some err) \<Rightarrow> (fs2, Some (ErrWrap ''could not set +x permissions on executable'' err))
           | (fs2, None) \<Rightarrow>
               (case patchExecutable x executable fs2 of
                  (fs3, Some err) \<Rightarrow> (fs3, Some (ErrWrap ''could not patch executable'' err))
                | (fs3, None) \<Rightarrow>
                    (case WaitFor (retry_check rt) (CheckExecutable x executable) fs3 of
                       (fs4, Some err) \<Rightarrow> (fs4, Some (ErrWrap ''could not verify executable after retries'' err))
                     | (fs4, None) \<Rightarrow>
                         (case WaitFor (retry_rename rt) (os_Rename stagedVersionedDirectory newUpdateDirectory) fs4 of
                            (fs5, Some err) \<Rightarrow> (fs5, Some (ErrWrap ''could not move staged target after retries'' err))
                          | (fs5, None) \<Rightarrow>
                              (case os_Chmod newUpdateDirectory 0x1ED fs5 of
                                 (fs6, Some err) \<Rightarrow> (fs6, Some (ErrWrap ''could not chmod'' err))
                               | (fs6, None) \<Rightarrow> (fs6, None)))))))"

definition moveVerifiedUpdate ::
  "ulm_ext \<Rightarrow> updateLibraryManager \<Rightarrow> retries \<Rightarrow> autoupdatableBinary \<Rightarrow> string \<Rightarrow> string \<Rightarrow> int \<Rightarrow> filesys \<Rightarrow>
   filesys \<times> error option" where
  "moveVerifiedUpdate x ulm rt binary targetFilename stagedUpdate unixMicro fs =
     (let targetVersion = versionFromTarget binary targetFilename
      in case tempDir ulm binary targetVersion unixMicro fs of
        (fs1, Inl err) \<Rightarrow>
          (fs1, Some (ErrWrap ''could not create temporary directory for untarring and validating new update'' err))
      | (fs1, Inr stagedVersionedDirectory) \<Rightarrow>
          (case moveVerifiedUpdate_steps x ulm rt binary targetVersion stagedVersionedDirectory stagedUpdate fs1 of
             (fs2, err) \<Rightarrow>
               if os_Stat fs2 stagedVersionedDirectory \<noteq> StatNotExist
               then (fst (WaitFor (retry_cleanup rt) (os_RemoveAll stagedVersionedDirectory) fs2), err)
               else (fs2, err)))"

definition AddToLibrary ::
  "ulm_ext \<Rightarrow> updateLibraryManager \<Rightarrow> retries \<Rightarrow> int \<Rightarrow> int \<Rightarrow> autoupdatableBinary \<Rightarrow> string \<Rightarrow> string \<Rightarrow> TargetFileMeta \<Rightarrow>
   filesys \<Rightarrow> filesys \<times> error option" where
  "AddToLibrary x ulm rt micro1 micro2 binary currentVersion targetFilename targetMetadata fs =
     (if currentVersion = versionFromTarget binary targetFilename then (fs, None)
      else case Available x ulm binary targetFilename fs of
          (fs1, True) \<Rightarrow> (fs1, None)
        | (fs1, False) \<Rightarrow>
            (case stageAndVerifyUpdate x ulm binary targetFilename targetMetadata micro1 fs1 of
               (fs2, stagedUpdatePath, err) \<Rightarrow>
                 let cleanup = (\<lambda>fs. if stagedUpdatePath = '''' then fs
                        else fst (WaitFor (retry_download_cleanup rt) (os_RemoveAll (Dir stagedUpdatePath)) fs))
                 in (case err of
                       Some e \<Rightarrow> (cleanup fs2, Some (ErrWrap ''could not stage update'' e))
                     | None \<Rightarrow>
                         (case moveVerifiedUpdate x ulm rt binary targetFilename stagedUpdatePath micro2 fs2 of
                            (fs3, Some e) \<Rightarrow> (cleanup fs3, Some (ErrWrap ''could not move verified update'' e))
                          | (fs3, None) \<Rightarrow> (cleanup fs3, None)))))"

subsection \<open>Tidying\<close>

definition removeUpdate :: "updateLibraryManager \<Rightarrow> autoupdatableBinary \<Rightarrow> string \<Rightarrow> filesys \<Rightarrow> filesys" where
  "removeUpdate ulm binary binaryVersion fs =
     fst (os_RemoveAll (Join [updatesDirectory binary (baseDir ulm), binaryVersion]) fs)"

text \<open>The prerelease with its hyphens, or periods, exchanged; unchanged when the package refuses it.\<close>

definition swap_prerelease :: "('v, 'z) semver_lib_scheme \<Rightarrow> string \<Rightarrow> string \<Rightarrow> 'v \<Rightarrow> 'v" where
  "swap_prerelease sv old new v =
     (if Prerelease sv v \<noteq> '''' then
        (case SetPrerelease sv v (ReplaceAll (Prerelease sv v) old new) of None \<Rightarrow> v | Some v' \<Rightarrow> v')
      else v)"

fun sortedVersions_loop ::
  "ulm_ext \<Rightarrow> ('v, 'z) semver_lib_scheme \<Rightarrow> autoupdatableBinary \<Rightarrow> string \<Rightarrow> string list \<Rightarrow>
   'v list \<Rightarrow> string list \<Rightarrow> filesys \<Rightarrow> filesys \<times> 'v list \<times> string list" where
  "sortedVersions_loop x sv binary base [] versionsInLibrary invalidVersions fs = (fs, versionsInLibrary, invalidVersions)"
| "sortedVersions_loop x sv binary base (rawVersion # rest) versionsInLibrary invalidVersions fs =
     (case NewVersion sv rawVersion of
        None \<Rightarrow> sortedVersions_loop x sv binary base rest versionsInLibrary (invalidVersions @ [rawVersion]) fs
      | Some v \<Rightarrow>
          (case CheckExecutable x (executableLocation (Join [updatesDirectory binary base, rawVersion]) binary) fs of
             (fs', Some err) \<Rightarrow>
               sortedVersions_loop x sv binary base rest versionsInLibrary (invalidVersions @ [rawVersion]) fs'
           | (fs', None) \<Rightarrow>
               sortedVersions_loop x sv binary base rest
                 (versionsInLibrary @ [swap_prerelease sv ''-'' ''.'' v]) invalidVersions fs'))"

definition sortedVersionsInLibrary ::
  "ulm_ext \<Rightarrow> ('v, 'z) semver_lib_scheme \<Rightarrow> autoupdatableBinary \<Rightarrow> string \<Rightarrow> filesys \<Rightarrow>
   filesys \<times> string list \<times> string list" where
  "sortedVersionsInLibrary x sv binary base fs =
     (case sortedVersions_loop x sv binary base (entries fs (updatesDirectory binary base)) [] [] fs of
        (fs', versions, invalid) \<Rightarrow>
          (fs', map (\<lambda>v. Original sv (swap_prerelease sv ''.'' ''-'' v)) (SortCollection sv versions), invalid))"

definition numberOfVersionsToKeep :: nat where
  "numberOfVersionsToKeep = 2"

fun removeUpdates :: "updateLibraryManager \<Rightarrow> autoupdatableBinary \<Rightarrow> string list \<Rightarrow> filesys \<Rightarrow> filesys" where
  "removeUpdates ulm binary [] fs = fs"
| "removeUpdates ulm binary (v # vs) fs = removeUpdates ulm binary vs (removeUpdate ulm binary v fs)"

text \<open>The loop goes from the newest version to the oldest: the list is the versions in that order.\<close>

fun Tidy_loop :: "updateLibraryManager \<Rightarrow> autoupdatableBinary \<Rightarrow> string \<Rightarrow> string list \<Rightarrow> nat \<Rightarrow> filesys \<Rightarrow> filesys" where
  "Tidy_loop ulm binary currentVersion [] kept fs = fs"
| "Tidy_loop ulm binary currentVersion (v # vs) kept fs =
     (if v = currentVersion then Tidy_loop ulm binary currentVersion vs kept fs
      else if kept \<ge> numberOfVersionsToKeep - 1
      then Tidy_loop ulm binary currentVersion vs kept (removeUpdate ulm binary v fs)
      else Tidy_loop ulm binary currentVersion vs (kept + 1) fs)"

definition TidyLibrary ::
  "ulm_ext \<Rightarrow> ('v, 'z) semver_lib_scheme \<Rightarrow> updateLibraryManager \<Rightarrow> autoupdatableBinary \<Rightarrow> string \<Rightarrow> filesys \<Rightarrow> filesys" where
  "TidyLibrary x sv ulm binary currentVersion fs =
     (if currentVersion = '''' then fs
      else case sortedVersionsInLibrary x sv binary (baseDir ulm) fs of
          (fs1, versionsInLibrary, invalidVersionsInLibrary) \<Rightarrow>
            let fs2 = removeUpdates ulm binary invalidVersionsInLibrary fs1
            in if length versionsInLibrary \<le> numberOfVersionsToKeep then fs2
               else Tidy_loop ulm binary currentVersion (rev versionsInLibrary) 0 fs2)"

subsection \<open>The check of archive names\<close>

lemma split_clean_abs:
  assumes "IsAbs d" "Clean d = d" "comps d \<noteq> []"
  shows "split_sep (CHR ''/'') d = '''' # comps d"
proof -
  have d: "d = CHR ''/'' # join_sep ''/'' (comps d)" using Clean_abs[OF assms(1)] assms(2) by simp
  have "split_sep (CHR ''/'') (join_sep ''/'' (comps d)) = comps d"
    using assms(3) comps_no_slash by (intro split_join) auto
  then show ?thesis by (subst d) simp
qed

lemma Clean_cases: "Clean p = (if IsAbs p then ''/'' else '''') @ join_sep ''/'' (comps p)" if "comps p \<noteq> []"
  using that by (simp add: Clean_def)

text \<open>
  The destination and the name are passed in the wrong order: the check is that the destination does
  not leave the directory the archive names, which holds for every name that is not empty after cleaning,
  wherever it leads.
\<close>

lemma sanitizeExtractPath_swapped:
  assumes "IsAbs d" "Clean d = d" "comps d \<noteq> []" "comps name \<noteq> []"
  shows "sanitizeExtractPath d name = None"
proof -
  have n: "name \<noteq> ''''" using assms(4) by (auto simp: comps_def)
  have c: "comps (name @ ''/'' @ d) = comps name @ comps d"
    using comps_abs[OF assms(1)] by (simp only: comps_Join2[OF n] split_clean_abs[OF assms(1-3)]) (simp add: clean_comps_names)
  have "Join [name, d] = (if IsAbs name then ''/'' else '''') @ join_sep ''/'' (comps name @ comps d)"
    using n c assms(4) Clean_cases[of "name @ ''/'' @ d"] by (simp add: IsAbs_append)
  also have "\<dots> = Clean name @ ''/'' @ join_sep ''/'' (comps d)"
    using assms(3,4) by (simp add: Clean_cases join_sep_append)
  finally show ?thesis unfolding sanitizeExtractPath_def Let_def HasPrefix_iff by simp
qed

lemma sanitizeExtractPath_empty:
  assumes "IsAbs d" "Clean d = d" "comps d \<noteq> []" "comps name = []"
  shows "sanitizeExtractPath d name = Some (ErrNew ''illegal file path'')"
proof -
  obtain a w cs where cs: "comps d = (a # w) # cs" "a # w \<noteq> ''.''" "CHR ''/'' \<notin> set (a # w)"
    using assms(3) comps_no_slash[of "hd (comps d)" d] by (cases "comps d"; cases "hd (comps d)") auto
  obtain r where j: "join_sep ''/'' (comps d) = a # w @ r" "r = '''' \<or> hd r = CHR ''/''"
    using cs(1) by (cases cs) auto
  have "\<not> HasPrefix (Join [name, d]) (Clean name @ ''/'')"
  proof (cases "name = ''''")
    case True
    have "IsAbs (Clean d)" using assms(1) by simp
    with True show ?thesis by (cases "Clean d") (auto simp: HasPrefix_iff Clean_def[of "''''"] comps_def[of "''''"])
  next
    case False
    have "comps (name @ ''/'' @ d) = comps d"
      using comps_abs[OF assms(1)] assms(4)
      by (simp only: comps_Join2[OF False] split_clean_abs[OF assms(1-3)]) (simp add: clean_comps_names)
    then have "Join [name, d] = (if IsAbs name then ''/'' else '''') @ a # w @ r"
      using False assms(3) Clean_cases[of "name @ ''/'' @ d"] by (simp add: IsAbs_append j(1))
    moreover have "Clean name = (if IsAbs name then ''/'' else ''.'')" using assms(4) by (simp add: Clean_def)
    ultimately show ?thesis using cs(2,3) j(2) by (cases w; cases r) (auto simp: HasPrefix_iff)
  qed
  then show ?thesis by (simp add: sanitizeExtractPath_def Let_def del: Join.simps)
qed

text \<open>C38: the protection of \<open>untar\<close> against archives that write outside of the destination has no effect,
  because the arguments of \<open>sanitizeExtractPath\<close> are exchanged: an entry is refused exactly when its name is
  empty after cleaning (such as \<open>./\<close>), and every other entry is unpacked to where its name leads, also when
  that is outside of the destination.\<close>

theorem untar_path_check_ignores_destination:
  assumes "IsAbs destinationDir" and "Clean destinationDir = destinationDir" and "comps destinationDir \<noteq> []"
  shows "untar_loop destinationDir tail (header # rest) fs =
    (if comps (hdr_Name header) = [] then (fs, Some (ErrWrap ''checking filename'' (ErrNew ''illegal file path'')))
     else if hdr_Mode header AND ModeDir \<noteq> 0
     then (case os_MkdirAll (Join [destinationDir, hdr_Name header]) (sanitizePermissions (hdr_Mode header)) fs of
             (fs', Some err) \<Rightarrow> (fs', Some (ErrWrap ''creating directory for tar file'' err))
           | (fs', None) \<Rightarrow> untar_loop destinationDir tail rest fs')
     else (case writeBundleFile (Join [destinationDir, hdr_Name header]) (sanitizePermissions (hdr_Mode header))
                  (hdr_Data header) fs of
             (fs', Some err) \<Rightarrow> (fs', Some (ErrWrap ''writing file'' err))
           | (fs', None) \<Rightarrow> untar_loop destinationDir tail rest fs'))"
  using sanitizeExtractPath_swapped[OF assms] sanitizeExtractPath_empty[OF assms] by (simp add: Let_def del: Join.simps)

theorem untar_path_check_ignores_destination_witness:
  "(let fs = \<lparr>nodes = [(''/u'', FDir 0x1ED), (''/u/v'', FDir 0x1ED), (''/etc'', FDir 0x1ED)], umask = 0, faults = [],
              denied = [], ticks = 0\<rparr>;
        r = untar_loop ''/u/v'' None [\<lparr>hdr_Name = ''../../etc/x'', hdr_Mode = 0x1FF, hdr_Data = [1]\<rparr>] fs
    in snd r = None \<and> node_at (fst r) ''/etc/x'' = Some (FFile 0x1ED [1]) \<and> \<not> below ''/u/v'' ''/etc/x'')"
proof -
  have "IsAbs ''/u/v''" "Clean ''/u/v'' = ''/u/v''" "comps ''/u/v'' \<noteq> []" by code_simp+
  note untar_path_check_ignores_destination[OF this]
  then show ?thesis unfolding Let_def by (simp only:) code_simp
qed

subsection \<open>Tidying\<close>

lemma CheckExecutable_tries_fs: "fst (CheckExecutable_tries n x p fs) = fs\<lparr>ticks := ticks (fst (CheckExecutable_tries n x p fs))\<rparr>"
proof (induction n arbitrary: fs)
  case (Suc n)
  show ?case
    using Suc[of "fs\<lparr>ticks := Suc (ticks fs)\<rparr>"]
    by (auto simp: runExecutableCheck_def split: exec_out.splits)
qed simp

lemma CheckExecutable_fs: "fst (CheckExecutable x p fs) = fs\<lparr>ticks := ticks (fst (CheckExecutable x p fs))\<rparr>"
  using CheckExecutable_tries_fs[of 3 x p fs] by (simp add: CheckExecutable_def split: option.splits)

lemma CheckExecutable_nodes:
  assumes "CheckExecutable x p fs = (fs', err)"
  shows "nodes fs' = nodes fs" "faults fs' = faults fs" "denied fs' = denied fs" "umask fs' = umask fs"
proof -
  have "fs' = fs\<lparr>ticks := ticks fs'\<rparr>" using CheckExecutable_fs[of x p fs] assms by simp
  then show "nodes fs' = nodes fs" "faults fs' = faults fs" "denied fs' = denied fs" "umask fs' = umask fs"
    by (cases fs; cases fs'; simp)+
qed

lemma sortedVersions_loop_nodes:
  assumes "sortedVersions_loop x sv binary base raws vs ivs fs = (fs', vs', ivs')"
  shows "nodes fs' = nodes fs \<and> faults fs' = faults fs"
  using assms
proof (induction x sv binary base raws vs ivs fs rule: sortedVersions_loop.induct)
  case (2 x sv binary base raw rest vs ivs fs)
  show ?case
  proof (cases "NewVersion sv raw")
    case None
    with 2 show ?thesis by simp
  next
    case (Some v)
    let ?p = "executableLocation (Join [updatesDirectory binary base, raw]) binary"
    obtain fs1 err where c: "CheckExecutable x ?p fs = (fs1, err)" by (cases "CheckExecutable x ?p fs")
    from CheckExecutable_nodes[OF c] 2 Some c show ?thesis by (cases err) (simp_all del: Join.simps)
  qed
qed simp

lemma sortedVersionsInLibrary_nodes:
  "sortedVersionsInLibrary x sv binary base fs = (fs', vs, ivs) \<Longrightarrow> nodes fs' = nodes fs \<and> faults fs' = faults fs"
  by (auto simp: sortedVersionsInLibrary_def split: prod.splits dest: sortedVersions_loop_nodes)

text \<open>Which versions tidying removes, and the tree of a version.\<close>

definition tidy_removed :: "string \<Rightarrow> string list \<Rightarrow> string list \<Rightarrow> string set" where
  "tidy_removed currentVersion valid invalid =
     set invalid \<union>
     (if length valid \<le> numberOfVersionsToKeep then {} else set (drop 1 (filter (\<lambda>v. v \<noteq> currentVersion) (rev valid))))"

abbreviation version_dir :: "updateLibraryManager \<Rightarrow> autoupdatableBinary \<Rightarrow> string \<Rightarrow> string" where
  "version_dir ulm binary v \<equiv> Join [updatesDirectory binary (baseDir ulm), v]"

text \<open>A file system that lost nothing but trees of the versions in \<open>vs\<close>, and all of them when nothing failed.\<close>

definition lost_only :: "updateLibraryManager \<Rightarrow> autoupdatableBinary \<Rightarrow> string set \<Rightarrow> filesys \<Rightarrow> filesys \<Rightarrow> bool" where
  "lost_only ulm binary vs fs fs' \<longleftrightarrow>
     (\<forall>q. (\<forall>v \<in> vs. \<not> in_tree (version_dir ulm binary v) q) \<longrightarrow> map_of (nodes fs') q = map_of (nodes fs) q) \<and>
     (faults fs = [] \<longrightarrow> faults fs' = [] \<and>
        (\<forall>q. (\<exists>v \<in> vs. in_tree (version_dir ulm binary v) q) \<longrightarrow> map_of (nodes fs') q = None))"

lemma lost_only_refl: "lost_only ulm binary {} fs fs"
  by (simp add: lost_only_def)

lemma lost_only_trans:
  assumes "lost_only ulm binary A fs fs1" "lost_only ulm binary B fs1 fs2"
  shows "lost_only ulm binary (A \<union> B) fs fs2"
  unfolding lost_only_def
proof (intro conjI impI allI)
  fix q assume "\<forall>v \<in> A \<union> B. \<not> in_tree (version_dir ulm binary v) q"
  with assms show "map_of (nodes fs2) q = map_of (nodes fs) q" unfolding lost_only_def by simp
next
  assume f: "faults fs = []"
  then show f2: "faults fs2 = []" using assms unfolding lost_only_def by blast
  fix q assume q: "\<exists>v \<in> A \<union> B. in_tree (version_dir ulm binary v) q"
  have f1: "faults fs1 = []" using assms f unfolding lost_only_def by blast
  show "map_of (nodes fs2) q = None"
  proof (cases "\<exists>v \<in> B. in_tree (version_dir ulm binary v) q")
    case True
    with assms(2) f1 show ?thesis unfolding lost_only_def by blast
  next
    case False
    with assms q f show ?thesis unfolding lost_only_def by (metis Un_iff)
  qed
qed

lemma remove_tree_faults: "faults (remove_tree p fs) = faults fs"
  by (simp add: remove_tree_def)

lemma removeUpdate_lost: "lost_only ulm binary {v} fs (removeUpdate ulm binary v fs)"
  by (auto simp: lost_only_def removeUpdate_def os_RemoveAll_def os_op_def pop_fault_def remove_tree_nodes
      map_of_filter_key remove_tree_faults simp del: Join.simps split: list.splits)

lemma removeUpdates_lost: "lost_only ulm binary (set vs) fs (removeUpdates ulm binary vs fs)"
proof (induction vs arbitrary: fs)
  case (Cons v vs)
  from lost_only_trans[OF removeUpdate_lost Cons] show ?case by simp
qed (simp add: lost_only_refl)

lemma Tidy_loop_lost:
  "lost_only ulm binary (set (drop (1 - kept) (filter (\<lambda>v. v \<noteq> cur) vs))) fs (Tidy_loop ulm binary cur vs kept fs)"
proof (induction vs arbitrary: kept fs)
  case (Cons v vs)
  consider "v = cur" | "v \<noteq> cur" "kept = 0" | "v \<noteq> cur" "kept \<ge> 1" by linarith
  then show ?case
  proof cases
    case 2
    with Cons[of 1 fs] show ?thesis by (simp add: numberOfVersionsToKeep_def)
  next
    case 3
    from lost_only_trans[OF removeUpdate_lost Cons[of kept "removeUpdate ulm binary v fs"]] 3 show ?thesis
      by (simp add: numberOfVersionsToKeep_def)
  qed (use Cons in simp)
qed (simp add: lost_only_refl)

lemma TidyLibrary_lost:
  assumes "sortedVersionsInLibrary x sv binary (baseDir ulm) fs = (fs1, valid, invalid)" "currentVersion \<noteq> ''''"
  shows "lost_only ulm binary (tidy_removed currentVersion valid invalid) fs (TidyLibrary x sv ulm binary currentVersion fs)"
proof -
  have same: "lost_only ulm binary {} fs fs1"
    using sortedVersionsInLibrary_nodes[OF assms(1)] by (simp add: lost_only_def)
  note inv = lost_only_trans[OF same removeUpdates_lost[of ulm binary invalid fs1]]
  show ?thesis
  proof (cases "length valid \<le> numberOfVersionsToKeep")
    case True
    with inv assms show ?thesis by (simp add: TidyLibrary_def tidy_removed_def)
  next
    case False
    with lost_only_trans[OF inv Tidy_loop_lost[of ulm binary 0 currentVersion "rev valid"]] assms
    show ?thesis by (simp add: TidyLibrary_def tidy_removed_def)
  qed
qed

lemma is_name_binary [simp]: "is_name (binary_string binary)"
  by (cases binary) (simp_all add: is_name_def)

lemma updatesDirectory_abs:
  "IsAbs base \<Longrightarrow> IsAbs (updatesDirectory binary base)" "IsAbs base \<Longrightarrow> comps (updatesDirectory binary base) \<noteq> []"
  using Join_name(2,3)[of base "binary_string binary"] by (simp_all add: updatesDirectory_def del: Join.simps)

lemma hd_filter_rev: "distinct xs \<Longrightarrow> xs \<noteq> [] \<Longrightarrow> last xs \<notin> set (drop 1 (filter P (rev xs)))"
proof -
  assume a: "distinct xs" "xs \<noteq> []"
  then obtain ys y where xs: "xs = ys @ [y]" by (metis rev_exhaust)
  have "set (drop 1 (filter P (rev xs))) \<subseteq> set ys" by (auto simp: xs dest: in_set_dropD)
  with a xs show ?thesis by auto
qed

text \<open>C5: tidying leaves the directory of every version it does not remove as it was, whatever file operations
  fail; removes the others when none fails; and removes neither the running version, when it passed
  its check, nor the newest version that passed.\<close>

theorem tidy_removes_exactly:
  assumes "IsAbs (baseDir ulm)" and "currentVersion \<noteq> ''''"
    and "sortedVersionsInLibrary x sv binary (baseDir ulm) fs = (fs1, valid, invalid)"
    and "list_all is_name (valid @ invalid)" and "distinct valid" and "set valid \<inter> set invalid = {}"
  shows "(\<forall>v. is_name v \<and> v \<notin> tidy_removed currentVersion valid invalid \<longrightarrow>
            (\<forall>q. in_tree (Join [updatesDirectory binary (baseDir ulm), v]) q \<longrightarrow>
               map_of (nodes (TidyLibrary x sv ulm binary currentVersion fs)) q = map_of (nodes fs) q)) \<and>
         (faults fs = [] \<longrightarrow> (\<forall>v \<in> tidy_removed currentVersion valid invalid. \<forall>q.
            in_tree (Join [updatesDirectory binary (baseDir ulm), v]) q \<longrightarrow>
              map_of (nodes (TidyLibrary x sv ulm binary currentVersion fs)) q = None)) \<and>
         (currentVersion \<in> set valid \<longrightarrow> currentVersion \<notin> tidy_removed currentVersion valid invalid) \<and>
         (valid \<noteq> [] \<longrightarrow> last valid \<notin> tidy_removed currentVersion valid invalid)"
proof (intro conjI allI impI)
  note lost = TidyLibrary_lost[OF assms(3,2)]
  have removed: "w \<in> set valid \<union> set invalid" if "w \<in> tidy_removed currentVersion valid invalid" for w
    using that by (auto simp: tidy_removed_def split: if_splits dest!: in_set_dropD)
  show "map_of (nodes (TidyLibrary x sv ulm binary currentVersion fs)) q = map_of (nodes fs) q"
    if v: "is_name v \<and> v \<notin> tidy_removed currentVersion valid invalid"
      and q: "in_tree (version_dir ulm binary v) q" for v q
  proof -
    have "\<not> in_tree (version_dir ulm binary w) q" if "w \<in> tidy_removed currentVersion valid invalid" for w
    proof -
      have "is_name w" using removed[OF that] assms(4) by (auto simp: list_all_iff)
      moreover have "v \<noteq> w" using v that by blast
      ultimately show ?thesis using in_tree_disjoint[OF updatesDirectory_abs[OF assms(1)]] v q by blast
    qed
    with lost show ?thesis unfolding lost_only_def by blast
  qed
  show "\<forall>v \<in> tidy_removed currentVersion valid invalid. \<forall>q. in_tree (version_dir ulm binary v) q \<longrightarrow>
      map_of (nodes (TidyLibrary x sv ulm binary currentVersion fs)) q = None" if "faults fs = []"
    using lost that unfolding lost_only_def by blast
  show "currentVersion \<notin> tidy_removed currentVersion valid invalid" if "currentVersion \<in> set valid"
    using that assms(6) by (auto simp: tidy_removed_def split: if_splits dest!: in_set_dropD)
  show "last valid \<notin> tidy_removed currentVersion valid invalid" if "valid \<noteq> []"
  proof -
    have "last valid \<in> set valid" using that by simp
    then show ?thesis using hd_filter_rev[OF assms(5) that, of "\<lambda>v. v \<noteq> currentVersion"] assms(6)
      by (auto simp: tidy_removed_def)
  qed
qed

lemma sortedVersions_loop_keeps: "set ivs \<subseteq> set (snd (snd (sortedVersions_loop x sv binary base raws vs ivs fs)))"
proof (induction x sv binary base raws vs ivs fs rule: sortedVersions_loop.induct)
  case (2 x sv binary base raw rest vs ivs fs)
  let ?p = "executableLocation (Join [updatesDirectory binary base, raw]) binary"
  obtain fs1 err where c: "CheckExecutable x ?p fs = (fs1, err)" by (cases "CheckExecutable x ?p fs")
  show ?case
  proof (cases "NewVersion sv raw")
    case None
    with 2(1) show ?thesis by simp
  next
    case (Some v)
    with 2(2,3)[OF Some c[symmetric]] c show ?thesis by (cases err) (auto simp del: Join.simps)
  qed
qed simp

lemma sortedVersions_loop_last:
  "raw \<in> set (snd (snd (sortedVersions_loop x sv binary base raws vs (ivs @ [raw]) fs)))"
  using sortedVersions_loop_keeps[of "ivs @ [raw]" x sv binary base raws vs fs] by auto

lemma sortedVersions_loop_invalid:
  assumes "raw \<in> set raws"
    and "\<forall>n. snd (CheckExecutable x (executableLocation (Join [updatesDirectory binary base, raw]) binary) (fs\<lparr>ticks := n\<rparr>)) \<noteq> None"
  shows "raw \<in> set (snd (snd (sortedVersions_loop x sv binary base raws vs ivs fs)))"
  using assms
proof (induction raws arbitrary: vs ivs fs)
  case (Cons r rs)
  let ?p = "executableLocation (Join [updatesDirectory binary base, r]) binary"
  obtain fs1 err where c: "CheckExecutable x ?p fs = (fs1, err)" by (cases "CheckExecutable x ?p fs")
  have fs1: "fs1 = fs\<lparr>ticks := ticks fs1\<rparr>" using CheckExecutable_fs[of x ?p fs] c by simp
  then have ticks1: "fs1\<lparr>ticks := n\<rparr> = fs\<lparr>ticks := n\<rparr>" for n by (metis filesys.update_convs(5) filesys.surjective filesys.fold_congs(5))
  show ?case
  proof (cases "r = raw")
    case True
    have "fs\<lparr>ticks := ticks fs\<rparr> = fs" by simp
    then have "err \<noteq> None" using Cons.prems(2) c True by (metis snd_conv)
    then show ?thesis using c True
      by (auto simp: sortedVersions_loop_last simp del: Join.simps split: option.splits)
  next
    case False
    then have "raw \<in> set rs" using Cons.prems(1) by simp
    with Cons.IH[of fs] Cons.IH[of fs1] Cons.prems(2) c show ?thesis
      by (auto simp add: ticks1 simp del: Join.simps split: option.splits)
  qed
qed simp

text \<open>C39: tidying removes the running version when the check of its executable fails, for instance because it
  timed out, although the running version is the one to be preserved always.\<close>

theorem tidy_removes_running_version:
  assumes "currentVersion \<noteq> ''''" and "faults fs = []"
    and "currentVersion \<in> set (entries fs (updatesDirectory binary (baseDir ulm)))"
    and "\<forall>n. snd (CheckExecutable x (executableLocation (Join [updatesDirectory binary (baseDir ulm), currentVersion]) binary)
               (fs\<lparr>ticks := n\<rparr>)) \<noteq> None"
  shows "in_tree (Join [updatesDirectory binary (baseDir ulm), currentVersion]) q \<longrightarrow>
         map_of (nodes (TidyLibrary x sv ulm binary currentVersion fs)) q = None"
proof -
  obtain fs1 valid invalid where s: "sortedVersionsInLibrary x sv binary (baseDir ulm) fs = (fs1, valid, invalid)"
    by (cases "sortedVersionsInLibrary x sv binary (baseDir ulm) fs") auto
  have "currentVersion \<in> set invalid"
    using sortedVersions_loop_invalid[OF assms(3,4), of sv "[]" "[]"] s
    by (auto simp: sortedVersionsInLibrary_def split: prod.splits)
  then have "currentVersion \<in> tidy_removed currentVersion valid invalid" by (simp add: tidy_removed_def)
  with TidyLibrary_lost[OF s assms(1)] assms(2) show ?thesis unfolding lost_only_def by blast
qed

text \<open>A library of three osqueryd versions, for the witnesses: the second one does not run.\<close>

definition example_ext :: ulm_ext where
  "example_ext = \<lparr>GOOS = ''linux'', GOARCH = ''amd64'', selfPath = ''/opt/launcher'', IsNixOS = False,
     http_get = (\<lambda>_. Inr ([1], None)), HashAlgorithms = (\<lambda>_. []),
     GenerateTargetFileMeta = (\<lambda>b _. Inr \<lparr>tf_Length = int (length b), tf_Hashes = [], tf_Custom = None\<rparr>),
     TargetFileMetaEqual = (\<lambda>a b. if tf_Length a = tf_Length b then None else Some (ErrNew ''wrong length'')),
     read_archive = (\<lambda>_. Inr ([\<lparr>hdr_Name = ''osqueryd'', hdr_Mode = 0x1ED, hdr_Data = [9]\<rparr>], None)),
     run_version = (\<lambda>c _. if c = [2] then ExecFail (ErrNew ''timeout'') else ExecOk),
     patchelf_print_interpreter = (\<lambda>_. Inr ''''), patchelf_set_interpreter = (\<lambda>_ _ fs. (fs, None))\<rparr>"

definition example_semver :: "string semver_lib" where
  "example_semver = \<lparr>NewVersion = (\<lambda>s. if s = '''' then None else Some s), MustParse = (\<lambda>s. s),
     LessThan = (\<lambda>_ _. False), GreaterThan = (\<lambda>_ _. True), VersionEqual = (\<lambda>a b. a = b), Prerelease = (\<lambda>_. ''''),
     SetPrerelease = (\<lambda>_ _. None), Original = (\<lambda>v. v), SortCollection = (\<lambda>vs. vs)\<rparr>"

definition example_fs :: filesys where
  "example_fs = \<lparr>nodes =
     [(''/u'', FDir 0x1ED), (''/u/osqueryd'', FDir 0x1ED),
      (''/u/osqueryd/1'', FDir 0x1ED), (''/u/osqueryd/1/osqueryd'', FFile 0x1ED [1]),
      (''/u/osqueryd/2'', FDir 0x1ED), (''/u/osqueryd/2/osqueryd'', FFile 0x1ED [2]),
      (''/u/osqueryd/3'', FDir 0x1ED), (''/u/osqueryd/3/osqueryd'', FFile 0x1ED [3]),
      (''/u/osqueryd/4'', FDir 0x1ED), (''/u/osqueryd/4/osqueryd'', FFile 0x1ED [4])],
     umask = 0, faults = [], denied = [], ticks = 0\<rparr>"

definition example_ulm :: updateLibraryManager where
  "example_ulm = \<lparr>mirrorUrl = ''https://dl'', baseDir = ''/u''\<rparr>"

theorem tidy_removes_exactly_witness:
  "map_of (nodes (TidyLibrary example_ext example_semver example_ulm binaryOsqueryd ''1'' example_fs)) ''/u/osqueryd/3'' = None \<and>
   map_of (nodes (TidyLibrary example_ext example_semver example_ulm binaryOsqueryd ''1'' example_fs)) ''/u/osqueryd/1/osqueryd'' =
     Some (FFile 0x1ED [1])"
proof -
  have s: "sortedVersionsInLibrary example_ext example_semver binaryOsqueryd (baseDir example_ulm) example_fs =
      (example_fs\<lparr>ticks := 4\<rparr>, [''1'', ''3'', ''4''], [''2''])" by code_simp
  have "IsAbs (baseDir example_ulm)" "''1'' \<noteq> ''''" "list_all is_name ([''1'', ''3'', ''4''] @ [''2''])"
    "distinct [''1'', ''3'', ''4'']" "set [''1'', ''3'', ''4''] \<inter> set [''2''] = {}" by code_simp+
  note exact = tidy_removes_exactly[OF this(1,2) s this(3-5)]
  have r: "''3'' \<in> tidy_removed ''1'' [''1'', ''3'', ''4''] [''2'']" "''1'' \<notin> tidy_removed ''1'' [''1'', ''3'', ''4''] [''2'']"
    by code_simp+
  have t: "in_tree (Join [updatesDirectory binaryOsqueryd (baseDir example_ulm), ''3'']) ''/u/osqueryd/3''"
    "in_tree (Join [updatesDirectory binaryOsqueryd (baseDir example_ulm), ''1'']) ''/u/osqueryd/1/osqueryd''"
    "is_name ''1''" "faults example_fs = []"
    "map_of (nodes example_fs) ''/u/osqueryd/1/osqueryd'' = Some (FFile 0x1ED [1])" by code_simp+
  show ?thesis using exact r t by metis
qed

theorem tidy_removes_running_version_witness:
  "map_of (nodes (TidyLibrary example_ext example_semver example_ulm binaryOsqueryd ''2'' example_fs)) ''/u/osqueryd/2/osqueryd'' = None"
proof -
  have "snd (CheckExecutable example_ext (executableLocation (Join [updatesDirectory binaryOsqueryd (baseDir example_ulm), ''2'']) binaryOsqueryd)
               (example_fs\<lparr>ticks := n\<rparr>)) \<noteq> None" for n
  proof -
    have p: "executableLocation (Join [updatesDirectory binaryOsqueryd (baseDir example_ulm), ''2'']) binaryOsqueryd = ''/u/osqueryd/2/osqueryd''"
      "Clean ''/opt/launcher'' \<noteq> ''/u/osqueryd/2/osqueryd''"
      "Clean ''/u/osqueryd/2/osqueryd'' = ''/u/osqueryd/2/osqueryd''" by code_simp+
    show ?thesis unfolding p
      by (simp add: CheckExecutable_def p checkExecutablePermissions_def os_Stat_def node_at_def example_fs_def
          numeral_3_eq_3 runExecutableCheck_def example_ext_def)
  qed
  then have "\<forall>n. snd (CheckExecutable example_ext (executableLocation (Join [updatesDirectory binaryOsqueryd (baseDir example_ulm), ''2'']) binaryOsqueryd)
               (example_fs\<lparr>ticks := n\<rparr>)) \<noteq> None" by blast
  moreover have "''2'' \<noteq> ''''" "faults example_fs = []"
    "''2'' \<in> set (entries example_fs (updatesDirectory binaryOsqueryd (baseDir example_ulm)))"
    "in_tree (Join [updatesDirectory binaryOsqueryd (baseDir example_ulm), ''2'']) ''/u/osqueryd/2/osqueryd''" by code_simp+
  ultimately show ?thesis using tidy_removes_running_version[of "''2''" example_fs binaryOsqueryd example_ulm example_ext] by blast
qed

subsection \<open>Adding\<close>

definition runnable :: "filesys \<Rightarrow> string \<Rightarrow> bool" where
  "runnable fs p \<longleftrightarrow> (case node_at fs p of Some (FFile mode _) \<Rightarrow> mode AND 0x49 \<noteq> 0 | _ \<Rightarrow> False)"

lemma runnable_nodes: "nodes fs' = nodes fs \<Longrightarrow> runnable fs' p = runnable fs p"
  by (simp add: runnable_def node_at_def)

text \<open>The contents of files, and what the operations do to them.\<close>

definition file_at :: "filesys \<Rightarrow> string \<Rightarrow> bytes \<Rightarrow> bool" where
  "file_at fs p c \<longleftrightarrow> (\<exists>mode. node_at fs p = Some (FFile mode c))"

lemma file_at_unique: "file_at fs p c \<Longrightarrow> file_at fs p c' \<Longrightarrow> c = c'"
  by (auto simp: file_at_def)

lemma file_at_nodes: "nodes fs' = nodes fs \<Longrightarrow> file_at fs' p c = file_at fs p c"
  by (simp add: file_at_def node_at_def)

lemma file_at_changes: "changes_in P fs fs' \<Longrightarrow> \<not> P (Clean p) \<Longrightarrow> file_at fs' p c = file_at fs p c"
  by (simp add: file_at_def node_at_def changes_in_def)

lemma file_at_Clean: "Clean q = Clean p \<Longrightarrow> file_at fs q c = file_at fs p c"
  by (simp add: file_at_def node_at_def)

lemma mkdirs_files: "mkdirs perm ds fs = (fs', err) \<Longrightarrow> file_at fs' p c = file_at fs p c"
proof (induction perm ds fs arbitrary: fs' rule: mkdirs.induct)
  case (2 perm d ds fs)
  show ?case
  proof (cases "node_at fs d")
    case None
    let ?fs = "fs\<lparr>nodes := AList.update d (FDir (new_mode fs perm)) (nodes fs)\<rparr>"
    have "file_at ?fs p c = file_at fs p c"
    proof (cases "Clean p = d")
      case True
      then have "node_at fs p = None" using None by (metis Clean_Clean node_at_def)
      with True show ?thesis by (auto simp: file_at_def node_at_def update_conv' split: if_splits)
    qed (simp add: file_at_def node_at_def update_conv')
    with 2 None show ?thesis by simp
  qed (use 2 in \<open>auto split: fs_node.splits\<close>)
qed simp

lemma os_MkdirAll_files:
  assumes "os_MkdirAll d perm fs = (fs', err)"
  shows "file_at fs' p c = file_at fs p c"
  using assms unfolding os_MkdirAll_def
proof (cases rule: os_op_cases)
  case fault
  then show ?thesis by (intro file_at_nodes faults_only(1))
next
  case (run g)
  with mkdirs_files file_at_nodes[OF faults_only(1)[OF run(2)]] show ?thesis by metis
qed

lemma os_Copy_file:
  assumes "os_Copy p data fs = (fs', None)"
  shows "file_at fs' p data"
  using assms unfolding os_Copy_def
  by (cases rule: os_op_cases) (auto simp: file_at_def node_at_def update_conv' split: option.splits fs_node.splits if_splits)

lemma os_Chmod_files:
  assumes "os_Chmod d mode fs = (fs', err)" "file_at fs' p c"
  shows "file_at fs p c"
  using assms(1) unfolding os_Chmod_def
proof (cases rule: os_op_cases)
  case fault
  then show ?thesis using assms(2) file_at_nodes[OF faults_only(1)] by blast
next
  case (run g)
  have "file_at g p c"
    using run(1) assms(2)
    by (auto simp: file_at_def node_at_def update_conv' split: option.splits fs_node.splits if_splits)
  then show ?thesis using file_at_nodes[OF faults_only(1)[OF run(2)]] by blast
qed

lemma written_file:
  assumes "os_Create p perm fs = (fs1, None)" "os_Copy p data fs1 = (fs2, None)" "os_Close fs2 = (fs3, err)"
  shows "file_at fs3 p data" "file_at fs3 q c \<Longrightarrow> file_at fs q c \<or> c = data"
    "Clean q \<noteq> Clean p \<Longrightarrow> file_at fs3 q c = file_at fs q c"
proof -
  have c: "file_at fs3 q c = file_at fs2 q c" for q c
    using file_at_changes[OF os_Close_changes[OF assms(3), of "\<lambda>_. False"]] by simp
  show p: "file_at fs3 p data" using os_Copy_file[OF assms(2)] c by simp
  show o: "Clean q \<noteq> Clean p \<Longrightarrow> file_at fs3 q c = file_at fs q c" for q
    using c file_at_changes[OF os_Copy_changes[OF assms(2)]] file_at_changes[OF os_Create_changes[OF assms(1)]] by simp
  show "file_at fs3 q c \<Longrightarrow> file_at fs q c \<or> c = data"
    using o p file_at_unique file_at_Clean by metis
qed

lemma untar_loop_files:
  "untar_loop d tail hs fs = (fs', None) \<Longrightarrow> file_at fs' q c \<Longrightarrow> file_at fs q c \<or> c \<in> hdr_Data ` set hs"
proof (induction hs arbitrary: fs)
  case (Cons h hs)
  let ?p = "Join [d, hdr_Name h]" and ?perm = "sanitizePermissions (hdr_Mode h)"
  obtain fs1 where u: "untar_loop d tail hs fs1 = (fs', None)"
    and w: "os_MkdirAll ?p ?perm fs = (fs1, None) \<or> writeBundleFile ?p ?perm (hdr_Data h) fs = (fs1, None)"
    using Cons.prems(1) by (auto simp: Let_def simp del: Join.simps split: option.splits if_splits prod.splits)
  have "file_at fs1 q c \<Longrightarrow> file_at fs q c \<or> c = hdr_Data h"
    using w
  proof
    assume "writeBundleFile ?p ?perm (hdr_Data h) fs = (fs1, None)"
    then obtain g1 g2 where "os_Create ?p ?perm fs = (g1, None)" "os_Copy ?p (hdr_Data h) g1 = (g2, None)" "os_Close g2 = (fs1, None)"
      by (auto simp: writeBundleFile_def simp del: Join.simps split: prod.splits option.splits)
    then show "file_at fs1 q c \<Longrightarrow> file_at fs q c \<or> c = hdr_Data h" by (rule written_file(2))
  qed (use os_MkdirAll_files in blast)
  with Cons.IH[OF u Cons.prems(2)] show ?case by auto
qed simp

lemma runnable_file: "runnable fs p \<Longrightarrow> \<exists>c. file_at fs p c"
  by (auto simp: runnable_def file_at_def split: option.splits fs_node.splits)

lemma runnable_changes:
  "runnable fs p \<Longrightarrow> changes_in P fs fs' \<Longrightarrow> \<not> P (Clean p) \<Longrightarrow> runnable fs' p"
  by (simp add: runnable_def node_at_def changes_in_def split: if_splits)

lemma CheckExecutable_runnable:
  assumes "CheckExecutable x p fs = (fs', None)"
  shows "runnable fs' p"
proof -
  have "checkExecutablePermissions fs p = None"
    using assms by (auto simp: CheckExecutable_def split: option.splits)
  then have "runnable fs p"
    by (auto simp: checkExecutablePermissions_def runnable_def os_Stat_def
        split: if_splits option.splits fs_node.splits)
  with runnable_nodes[OF CheckExecutable_nodes(1)[OF assms]] show ?thesis by simp
qed

lemma WaitFor_nodes:
  assumes "\<And>s s' e. f s = (s', e) \<Longrightarrow> nodes s' = nodes s"
  shows "WaitFor n f fs = (fs', err) \<Longrightarrow> nodes fs' = nodes fs"
proof (induction n arbitrary: fs)
  case 0
  then show ?case using assms by (auto simp: WaitFor.simps[of 0] split: prod.splits option.splits)
next
  case (Suc n)
  obtain s e where "f fs = (s, e)" by (cases "f fs")
  with Suc.prems Suc.IH[of s] assms[of fs s e] show ?case
    by (cases e) (auto simp: WaitFor.simps[of "Suc n"])
qed

lemma WaitFor_CheckExecutable: "WaitFor n (CheckExecutable x p) fs = (fs', None) \<Longrightarrow> runnable fs' p"
  using WaitFor_Ok CheckExecutable_runnable by metis

lemma Dir_Join_name:
  assumes "IsAbs d" "comps d \<noteq> []" "is_name n"
  shows "Dir (Join [d, n]) = Clean d"
proof -
  have p: "Join [d, n] = Clean d @ ''/'' @ n" by (rule Join_name_below[OF assms(1,3,2)])
  have n: "\<forall>c \<in> set (rev n). c \<noteq> CHR ''/''" using assms(3) by (auto simp: is_name_def)
  have "rev (Join [d, n]) = rev n @ CHR ''/'' # rev (Clean d)" by (simp only: p) simp
  moreover have "dropWhile (\<lambda>c. c \<noteq> CHR ''/'') (rev n @ CHR ''/'' # rev (Clean d)) = CHR ''/'' # rev (Clean d)"
    using n by (subst dropWhile_append2) auto
  ultimately have "Dir (Join [d, n]) = Clean (Clean d @ ''/'')" by (simp add: Dir_def del: Join.simps)
  also have "\<dots> = Clean d"
  proof -
    have ne: "Clean d \<noteq> ''''" using assms(1) IsAbs_Clean[of d] by (metis IsAbs_Nil)
    have "comps (Clean d @ ''/'' @ '''') = comps d"
      using comps_Join2[OF ne, of "''''"] by simp
    then show ?thesis using assms(1) ne by (simp add: Clean_abs IsAbs_append)
  qed
  finally show ?thesis .
qed

lemma is_name_temp: "CHR ''/'' \<notin> set pattern \<Longrightarrow> is_name (pattern @ ''-'' @ FormatInt m)"
proof -
  assume a: "CHR ''/'' \<notin> set pattern"
  have "is_digit c \<Longrightarrow> c \<noteq> CHR ''/''" for c by (auto simp: is_digit_def)
  then have "CHR ''/'' \<notin> set (FormatInt m)"
    using nat_digits_all by (auto simp: FormatInt_def list_all_iff split: if_splits)
  moreover have "CHR ''-'' \<in> set (pattern @ ''-'' @ FormatInt m)" "CHR ''-'' \<notin> set ''.''" "CHR ''-'' \<notin> set ''..''"
    by simp_all
  then have "pattern @ ''-'' @ FormatInt m \<noteq> ''.''" "pattern @ ''-'' @ FormatInt m \<noteq> ''..''" by metis+
  ultimately show ?thesis using a unfolding is_name_def by simp
qed

text \<open>Where the executable of a version is.\<close>

lemma exe_path:
  assumes "IsAbs d" "comps d \<noteq> []" "is_name v"
  shows "Clean (executableLocation (Join [d, v]) binary) = Clean (Join [d, v]) @ ''/'' @ binary_string binary"
    "in_tree (Join [d, v]) (Clean (executableLocation (Join [d, v]) binary))"
    "Clean (executableLocation (Join [d, v]) binary) \<noteq> Clean (Join [d, v])"
    "Clean (executableLocation (Join [d, v]) binary) \<noteq> ''/''"
    "Clean (Join [d, v]) \<noteq> ''/''"
proof -
  have j: "IsAbs (Join [d, v])" "comps (Join [d, v]) \<noteq> []" using Join_name(2,3)[OF assms(1,3)] by simp_all
  show p: "Clean (executableLocation (Join [d, v]) binary) = Clean (Join [d, v]) @ ''/'' @ binary_string binary"
    unfolding executableLocation_def by (rule Join_name_not_root(1)[OF j is_name_binary])
  show r: "Clean (Join [d, v]) \<noteq> ''/''" using Join_name_not_root[OF assms] by (simp del: Join.simps)
  show "in_tree (Join [d, v]) (Clean (executableLocation (Join [d, v]) binary))"
    unfolding p in_tree_def using below_append[OF r] by blast
  show "Clean (executableLocation (Join [d, v]) binary) \<noteq> Clean (Join [d, v])" unfolding p by simp
  show "Clean (executableLocation (Join [d, v]) binary) \<noteq> ''/''" unfolding p
    using is_name_binary[of binary] by (cases "Clean (Join [d, v])") (auto simp: is_name_def simp del: is_name_binary)
qed

text \<open>
  Where the content of the executable comes from: an entry of the archive that was unpacked, unless there was such a
  file in the directory it was unpacked to.
\<close>

definition from_archive :: "ulm_ext \<Rightarrow> bytes \<Rightarrow> bytes \<Rightarrow> bool" where
  "from_archive x archive c \<longleftrightarrow> (\<exists>headers tail. read_archive x archive = Inr (headers, tail) \<and> c \<in> hdr_Data ` set headers)"

lemma unpacked_executable:
  assumes "untar x d staged fs = (fs1, None)" "os_Chmod exe 0x1ED fs1 = (fs2, None)"
    and "patchExecutable x exe fs2 = (fs3, None)" "\<not> IsNixOS x" "file_at fs staged data" "file_at fs3 exe c"
  shows "file_at fs exe c \<or> from_archive x data c"
proof -
  have "os_ReadFile fs staged = Inr data" using assms(5) by (auto simp: file_at_def os_ReadFile_def)
  then obtain headers tail where r: "read_archive x data = Inr (headers, tail)" "untar_loop d tail headers fs = (fs1, None)"
    using assms(1) by (auto simp: untar_def split: sum.splits prod.splits)
  have "file_at fs1 exe c" using assms(3,4,6) os_Chmod_files[OF assms(2)] by (simp add: patchExecutable_def)
  from untar_loop_files[OF r(2) this] r(1) show ?thesis by (auto simp: from_archive_def)
qed

lemma moveVerifiedUpdate_steps_Ok:
  assumes "moveVerifiedUpdate_steps x ulm rt binary v (Join [updatesDirectory binary (baseDir ulm), t]) staged fs = (fs', None)"
    and "IsAbs (baseDir ulm)" "is_name v" "is_name t"
  shows "runnable fs' (executableLocation (version_dir ulm binary v) binary)"
    and "\<not> IsNixOS x \<Longrightarrow> file_at fs staged data \<Longrightarrow> file_at fs' (executableLocation (version_dir ulm binary v) binary) c \<Longrightarrow>
      file_at fs (executableLocation (Join [updatesDirectory binary (baseDir ulm), t]) binary) c \<or> from_archive x data c"
proof -
  let ?U = "updatesDirectory binary (baseDir ulm)"
  let ?old = "Join [?U, t]" and ?new = "Join [?U, v]"
  note U = updatesDirectory_abs[OF assms(2), of binary]
  obtain fs1 fs2 fs3 fs4 fs5 where un: "untar x ?old staged fs = (fs1, None)" "os_Chmod (executableLocation ?old binary) 0x1ED fs1 = (fs2, None)"
      "patchExecutable x (executableLocation ?old binary) fs2 = (fs3, None)"
    and c: "WaitFor (retry_check rt) (CheckExecutable x (executableLocation ?old binary)) fs3 = (fs4, None)"
    and r: "WaitFor (retry_rename rt) (os_Rename ?old ?new) fs4 = (fs5, None)"
    and m: "os_Chmod ?new 0x1ED fs5 = (fs', None)"
    using assms(1) unfolding moveVerifiedUpdate_steps_def Let_def by (auto simp del: Join.simps split: prod.splits option.splits)
  obtain mode content where n: "node_at fs4 (executableLocation ?old binary) = Some (FFile mode content)" "mode AND 0x49 \<noteq> 0"
    using WaitFor_CheckExecutable[OF c] unfolding runnable_def by (auto split: option.splits fs_node.splits)
  have "map_of (nodes fs4) (Clean ?old @ ''/'' @ binary_string binary) = Some (FFile mode content)"
    using n(1) exe_path(1,4)[OF U assms(4), of binary] by (simp add: node_at_def del: Join.simps)
  from WaitFor_Rename_lookup[OF r exe_path(5)[OF U assms(4)] this]
  have "map_of (nodes fs5) (Clean (executableLocation ?new binary)) = Some (FFile mode content)"
    by (simp only: exe_path(1)[OF U assms(3)])
  then have n5: "node_at fs5 (executableLocation ?new binary) = Some (FFile mode content)"
    using exe_path(4)[OF U assms(3), of binary] by (simp add: node_at_def)
  then have "runnable fs5 (executableLocation ?new binary)" using n(2) by (simp add: runnable_def)
  from runnable_changes[OF this os_Chmod_changes[OF m]]
  show "runnable fs' (executableLocation ?new binary)" using exe_path(3)[OF U assms(3)] by blast
  assume a: "\<not> IsNixOS x" "file_at fs staged data" "file_at fs' (executableLocation ?new binary) c"
  have "file_at fs5 (executableLocation ?new binary) c" by (rule os_Chmod_files[OF m a(3)])
  with n5 have "content = c" by (auto simp: file_at_def)
  with n(1) have "file_at fs4 (executableLocation ?old binary) c" by (auto simp: file_at_def)
  moreover have "nodes fs4 = nodes fs3"
    using WaitFor_nodes[OF _ c] CheckExecutable_nodes(1) by blast
  ultimately have "file_at fs3 (executableLocation ?old binary) c" using file_at_nodes by blast
  from unpacked_executable[OF un a(1,2) this]
  show "file_at fs (executableLocation ?old binary) c \<or> from_archive x data c" .
qed

lemma tempDir_path:
  "tempDir ulm binary pattern m fs = (fs', Inr d) \<Longrightarrow>
     d = Join [updatesDirectory binary (baseDir ulm), pattern @ ''-'' @ FormatInt m]"
  by (auto simp: tempDir_def Let_def simp del: Join.simps split: prod.splits option.splits)

lemma moveVerifiedUpdate_Ok:
  assumes "moveVerifiedUpdate x ulm rt binary targetFilename staged m fs = (fs', None)"
    and "IsAbs (baseDir ulm)" "is_name (versionFromTarget binary targetFilename)"
  shows "runnable fs' (executableLocation (version_dir ulm binary (versionFromTarget binary targetFilename)) binary)"
    and "\<not> IsNixOS x \<Longrightarrow> file_at fs staged data \<Longrightarrow>
      file_at fs' (executableLocation (version_dir ulm binary (versionFromTarget binary targetFilename)) binary) c \<Longrightarrow>
      file_at fs (executableLocation (Join [updatesDirectory binary (baseDir ulm),
        versionFromTarget binary targetFilename @ ''-'' @ FormatInt m]) binary) c \<or> from_archive x data c"
proof -
  let ?v = "versionFromTarget binary targetFilename"
  let ?t = "?v @ ''-'' @ FormatInt m"
  note U = updatesDirectory_abs[OF assms(2), of binary]
  have t: "is_name ?t" using assms(3) by (intro is_name_temp) (simp add: is_name_def)
  let ?d = "Join [updatesDirectory binary (baseDir ulm), ?t]" and ?exe = "executableLocation (version_dir ulm binary ?v) binary"
  obtain fs1 fs2 where td: "os_MkdirAll ?d 0x1ED fs = (fs1, None)"
    and s: "moveVerifiedUpdate_steps x ulm rt binary ?v ?d staged fs1 = (fs2, None)"
    and f: "fs' = fs2 \<or> fs' = fst (WaitFor (retry_cleanup rt) (os_RemoveAll ?d) fs2)"
    using assms(1) unfolding moveVerifiedUpdate_def tempDir_def Let_def
    by (auto simp del: Join.simps split: prod.splits sum.splits option.splits if_splits)
  note ok = moveVerifiedUpdate_steps_Ok[OF s assms(2,3) t]
  have ch: "changes_in (in_tree ?d) fs2 fs'"
    using f WaitFor_changes[of "os_RemoveAll ?d" "in_tree ?d" "retry_cleanup rt" fs2] os_RemoveAll_changes
    by (metis changes_in_refl prod.collapse)
  have "?v \<noteq> ?t" by simp
  then have out: "\<not> in_tree ?d (Clean ?exe)"
    using in_tree_disjoint[OF U assms(3) t] exe_path(2)[OF U assms(3)] by blast
  show "runnable fs' ?exe" using runnable_changes[OF ok(1) ch out] .
  assume a: "\<not> IsNixOS x" "file_at fs staged data" "file_at fs' ?exe c"
  have "file_at fs2 ?exe c" using a(3) file_at_changes[OF ch out] by blast
  from ok(2)[OF a(1) _ this, of data] a(2) os_MkdirAll_files[OF td]
  show "file_at fs (executableLocation ?d binary) c \<or> from_archive x data c" by blast
qed

lemma Available_fs:
  assumes "Available x ulm binary targetFilename fs = (fs', b)"
  shows "nodes fs' = nodes fs" "faults fs' = faults fs"
    "b \<Longrightarrow> runnable fs' (executableLocation (version_dir ulm binary (versionFromTarget binary targetFilename)) binary)"
proof -
  let ?p = "fst (pathToTargetVersionExecutable binary targetFilename (baseDir ulm))"
  obtain fs1 e where c: "CheckExecutable x ?p fs = (fs1, e)" by (cases "CheckExecutable x ?p fs")
  show "nodes fs' = nodes fs" "faults fs' = faults fs"
    using assms CheckExecutable_nodes[OF c] c by (auto simp: Available_def Let_def split: if_splits)
  assume b
  then have "e = None \<and> fs' = fs1" using assms c by (auto simp: Available_def Let_def split: if_splits)
  with CheckExecutable_runnable[of x ?p fs fs1] c
  show "runnable fs' (executableLocation (version_dir ulm binary (versionFromTarget binary targetFilename)) binary)"
    by (simp add: pathToTargetVersionExecutable_def Let_def del: Join.simps)
qed

lemma Available_runs:
  assumes "snd (Available x ulm binary targetFilename fs)"
  shows "runnable fs (executableLocation (version_dir ulm binary (versionFromTarget binary targetFilename)) binary)"
  using Available_fs(1,3)[of x ulm binary targetFilename fs] assms by (metis prod.collapse runnable_nodes)

abbreviation staging_dir :: "updateLibraryManager \<Rightarrow> autoupdatableBinary \<Rightarrow> string \<Rightarrow> int \<Rightarrow> string" where
  "staging_dir ulm binary targetFilename m \<equiv>
     Join [updatesDirectory binary (baseDir ulm),
       (''staged-updates-'' @ versionFromTarget binary targetFilename) @ ''-'' @ FormatInt m]"

lemma is_name_staging:
  "is_name (versionFromTarget binary targetFilename) \<Longrightarrow>
   is_name ((''staged-updates-'' @ versionFromTarget binary targetFilename) @ ''-'' @ FormatInt m)"
  by (rule is_name_temp) (simp add: is_name_def)

lemma stageAndVerifyUpdate_Ok:
  assumes "stageAndVerifyUpdate x ulm binary targetFilename meta m fs = (fs', p, None)"
  shows "p = Join [staging_dir ulm binary targetFilename m, targetFilename]"
    and "\<exists>data. download_verified x ulm binary targetFilename meta = Inr data \<and> file_at fs' p data \<and>
      (\<forall>q c. Clean q \<noteq> Clean p \<longrightarrow> file_at fs' q c = file_at fs q c)"
proof -
  let ?sd = "staging_dir ulm binary targetFilename m"
  obtain fs1 r where t: "tempDir ulm binary (''staged-updates-'' @ versionFromTarget binary targetFilename) m fs = (fs1, r)"
    by (meson surj_pair)
  have r: "r = Inr ?sd"
  proof (cases r)
    case (Inr b)
    with tempDir_path[OF t[unfolded Inr]] show ?thesis by (simp only:)
  qed (use assms t in \<open>simp add: stageAndVerifyUpdate_def del: Join.simps\<close>)
  note td = t[unfolded r]
  obtain data where d: "download_verified x ulm binary targetFilename meta = Inr data"
    using assms td by (cases "download_verified x ulm binary targetFilename meta")
      (simp_all add: stageAndVerifyUpdate_def del: Join.simps)
  define q where "q = Join [?sd, targetFilename]"
  note st = assms[unfolded stageAndVerifyUpdate_def td prod.case sum.case Let_def d, folded q_def]
  obtain fs2 e2 where e2: "os_Create q 0x1AD fs1 = (fs2, e2)" by (meson surj_pair)
  then have n2: "e2 = None" using st by (cases e2) simp_all
  obtain fs3 e3 where e3: "os_Copy q data fs2 = (fs3, e3)" by (meson surj_pair)
  obtain fs4 e4 where e4: "os_Close fs3 = (fs4, e4)" by (meson surj_pair)
  have "e3 = None" "e4 = None" "q = p" "fs4 = fs'"
    using st e2 e3 e4 n2 by (cases e3; cases e4; simp)+
  with e2 e3 e4 n2 have w: "os_Create p 0x1AD fs1 = (fs2, None)" "os_Copy p data fs2 = (fs3, None)" "os_Close fs3 = (fs', None)"
    and p: "p = Join [?sd, targetFilename]" by (simp_all add: q_def del: Join.simps)
  show "p = Join [staging_dir ulm binary targetFilename m, targetFilename]" by (rule p)
  have "file_at fs1 q c = file_at fs q c" for q c
    using td os_MkdirAll_files unfolding tempDir_def Let_def
    by (auto simp del: Join.simps split: prod.splits option.splits)
  then show "\<exists>data. download_verified x ulm binary targetFilename meta = Inr data \<and> file_at fs' p data \<and>
      (\<forall>q c. Clean q \<noteq> Clean p \<longrightarrow> file_at fs' q c = file_at fs q c)"
    using d written_file(1,3)[OF w] by blast
qed

text \<open>The directory of the download is not one of those versions are unpacked to.\<close>

lemma FormatInt_digits:
  obtains k where "takeWhile (\<lambda>c. c \<noteq> CHR ''-'') (rev (a @ ''-'' @ FormatInt m)) = rev (nat_digits k)"
    "length (nat_digits k) \<le> length (FormatInt m)" "length (FormatInt m) \<le> Suc (length (nat_digits k))"
proof -
  have tw: "takeWhile (\<lambda>c. c \<noteq> CHR ''-'') (rev (nat_digits k) @ CHR ''-'' # r) = rev (nat_digits k)" for k r
  proof -
    have "\<forall>c \<in> set (rev (nat_digits k)). c \<noteq> CHR ''-''"
      using nat_digits_all[of k] digit_not_sign by (auto simp: list_all_iff)
    then show ?thesis by (subst takeWhile_append2) auto
  qed
  show ?thesis
  proof (cases "m < 0")
    case True
    then show ?thesis using tw[of "nat (- m)" "CHR ''-'' # rev a"] by (intro that[of "nat (- m)"]) (simp_all add: FormatInt_def)
  next
    case False
    then show ?thesis using tw[of "nat m" "rev a"] by (intro that[of "nat m"]) (simp_all add: FormatInt_def)
  qed
qed

lemma staging_name_differs: "v @ ''-'' @ FormatInt m \<noteq> (''staged-updates-'' @ v) @ ''-'' @ FormatInt m'"
proof
  assume eq: "v @ ''-'' @ FormatInt m = (''staged-updates-'' @ v) @ ''-'' @ FormatInt m'"
  obtain k where k: "takeWhile (\<lambda>c. c \<noteq> CHR ''-'') (rev (v @ ''-'' @ FormatInt m)) = rev (nat_digits k)"
    "length (FormatInt m) \<le> Suc (length (nat_digits k))" by (rule FormatInt_digits)
  obtain k' where k': "takeWhile (\<lambda>c. c \<noteq> CHR ''-'') (rev ((''staged-updates-'' @ v) @ ''-'' @ FormatInt m')) = rev (nat_digits k')"
    "length (nat_digits k') \<le> length (FormatInt m')" by (rule FormatInt_digits)
  have "nat_digits k = nat_digits k'" using k(1) k'(1) unfolding eq by simp
  moreover have "length (v @ ''-'' @ FormatInt m) = length ((''staged-updates-'' @ v) @ ''-'' @ FormatInt m')" using eq by simp
  ultimately show False using k(2) k'(2) by simp
qed

lemma cleanup_changes:
  assumes "IsAbs (baseDir ulm)" "is_name targetFilename" "is_name (versionFromTarget binary targetFilename)"
  shows "changes_in (in_tree (staging_dir ulm binary targetFilename m)) fs
    (fst (WaitFor n (os_RemoveAll (Dir (Join [staging_dir ulm binary targetFilename m, targetFilename]))) fs))"
proof -
  let ?d = "staging_dir ulm binary targetFilename m"
  note U = updatesDirectory_abs[OF assms(1), of binary]
  note j = Join_name(2,3)[OF U(1) is_name_staging[OF assms(3), of m]]
  have "Dir (Join [?d, targetFilename]) = Clean ?d" using j by (intro Dir_Join_name assms(2)) simp_all
  moreover have "in_tree (Clean ?d) = in_tree ?d" by (simp add: in_tree_def fun_eq_iff del: Join.simps)
  ultimately show ?thesis
    using WaitFor_changes[of "os_RemoveAll (Clean ?d)" "in_tree ?d" n fs] os_RemoveAll_changes
    by (metis prod.collapse)
qed

text \<open>
  When adding a target succeeds, and it is not the running version, its executable is in its place, can
  run, and unless it was there before comes out of an archive that was downloaded and verified (NixOS, where
  executables are patched, and a directory left over from unpacking the version in the same microsecond
  excepted).
\<close>

definition unpack_dirs_clear :: "updateLibraryManager \<Rightarrow> autoupdatableBinary \<Rightarrow> string \<Rightarrow> filesys \<Rightarrow> bool" where
  "unpack_dirs_clear ulm binary v fs \<longleftrightarrow>
     (\<forall>m c. \<not> file_at fs (executableLocation (Join [updatesDirectory binary (baseDir ulm), v @ ''-'' @ FormatInt m]) binary) c)"

lemma unpack_dirs_clear_nodes:
  assumes "nodes fs' = nodes fs"
  shows "unpack_dirs_clear ulm binary v fs' = unpack_dirs_clear ulm binary v fs"
  unfolding unpack_dirs_clear_def file_at_nodes[OF assms] ..

lemma unpack_dirs_clear_no_files:
  "\<forall>(q, n) \<in> set (nodes fs). \<exists>mode. n = FDir mode \<Longrightarrow> unpack_dirs_clear ulm binary v fs"
  by (auto simp: unpack_dirs_clear_def file_at_def node_at_def simp del: Join.simps split: if_splits dest!: map_of_SomeD)

lemma add_comes_from_download:
  assumes "IsAbs (baseDir ulm)" "is_name targetFilename" "is_name (versionFromTarget binary targetFilename)"
    and st: "stageAndVerifyUpdate x ulm binary targetFilename meta m1 fs1 = (fs2, p, None)"
    and mv: "moveVerifiedUpdate x ulm rt binary targetFilename p m2 fs2 = (fs3, None)"
    and "\<not> IsNixOS x" "unpack_dirs_clear ulm binary (versionFromTarget binary targetFilename) fs1"
    and "download_verified x ulm binary targetFilename meta = Inr data"
    and "file_at fs3 (executableLocation (version_dir ulm binary (versionFromTarget binary targetFilename)) binary) c"
  shows "from_archive x data c"
proof -
  let ?v = "versionFromTarget binary targetFilename" and ?U = "updatesDirectory binary (baseDir ulm)"
  let ?t = "?v @ ''-'' @ FormatInt m2" and ?st = "(''staged-updates-'' @ ?v) @ ''-'' @ FormatInt m1"
  let ?exe = "executableLocation (Join [?U, ?t]) binary"
  note U = updatesDirectory_abs[OF assms(1), of binary]
  have t: "is_name ?t" using assms(3) by (intro is_name_temp) (simp add: is_name_def)
  note s = is_name_staging[OF assms(3), of m1]
  note stg = stageAndVerifyUpdate_Ok[OF st]
  have "in_tree (Join [?U, ?st]) (Clean p)"
  proof -
    have "Clean p = Clean (Join [?U, ?st]) @ ''/'' @ targetFilename"
      unfolding stg(1) by (rule Join_name_not_root(1)[OF _ _ assms(2)]) (use Join_name(2,3)[OF U(1) s] in simp_all)
    moreover have "Clean (Join [?U, ?st]) \<noteq> ''/''" using exe_path(5)[OF U s] .
    ultimately show ?thesis unfolding in_tree_def using below_append by metis
  qed
  then have "\<not> in_tree (Join [?U, ?t]) (Clean p)"
    using in_tree_disjoint[OF U s t] staging_name_differs by metis
  then have "Clean ?exe \<noteq> Clean p" using exe_path(2)[OF U t] by metis
  with stg(2) assms(7,8) have "file_at fs2 p data" "\<not> file_at fs2 ?exe c"
    by (auto simp: unpack_dirs_clear_def simp del: Join.simps)
  with moveVerifiedUpdate_Ok(2)[OF mv assms(1,3,6)] assms(9) show ?thesis by blast
qed

lemma AddToLibrary_installs:
  assumes "IsAbs (baseDir ulm)" and "is_name targetFilename" and "is_name (versionFromTarget binary targetFilename)"
    and "currentVersion \<noteq> versionFromTarget binary targetFilename"
    and "AddToLibrary x ulm rt micro1 micro2 binary currentVersion targetFilename meta fs = (fs', None)"
  shows "runnable fs' (executableLocation (Join [updatesDirectory binary (baseDir ulm),
             versionFromTarget binary targetFilename]) binary) \<and>
         (snd (Available x ulm binary targetFilename fs) \<or>
          (\<exists>data actual. download_verified x ulm binary targetFilename meta = Inr data \<and> length data \<le> nat (tf_Length meta) \<and>
             GenerateTargetFileMeta x data (HashAlgorithms x meta) = Inr actual \<and> TargetFileMetaEqual x actual meta = None \<and>
             (\<not> IsNixOS x \<and> unpack_dirs_clear ulm binary (versionFromTarget binary targetFilename) fs \<longrightarrow>
                (\<exists>c. file_at fs' (executableLocation (Join [updatesDirectory binary (baseDir ulm),
                        versionFromTarget binary targetFilename]) binary) c \<and> from_archive x data c))))"
proof -
  let ?v = "versionFromTarget binary targetFilename"
  let ?exe = "executableLocation (version_dir ulm binary ?v) binary"
  note U = updatesDirectory_abs[OF assms(1), of binary]
  obtain fs1 b where a: "Available x ulm binary targetFilename fs = (fs1, b)"
    by (cases "Available x ulm binary targetFilename fs")
  show ?thesis
  proof (cases b)
    case True
    with assms(4,5) a have "fs' = fs1" by (simp add: AddToLibrary_def)
    with Available_fs(3)[OF a] True a show ?thesis by simp
  next
    case False
    then obtain fs2 p fs3 where st: "stageAndVerifyUpdate x ulm binary targetFilename meta micro1 fs1 = (fs2, p, None)"
      and mv: "moveVerifiedUpdate x ulm rt binary targetFilename p micro2 fs2 = (fs3, None)"
      and cl: "fs' = fs3 \<or> fs' = fst (WaitFor (retry_download_cleanup rt) (os_RemoveAll (Dir p)) fs3)"
      using assms(4,5) a by (auto simp: AddToLibrary_def Let_def split: prod.splits option.splits if_splits)
    obtain data where p: "p = Join [staging_dir ulm binary targetFilename micro1, targetFilename]"
      and d: "download_verified x ulm binary targetFilename meta = Inr data"
      using stageAndVerifyUpdate_Ok[OF st] by blast
    have ch: "changes_in (in_tree (staging_dir ulm binary targetFilename micro1)) fs3 fs'"
      using cl cleanup_changes[OF assms(1-3)] p by (metis changes_in_refl)
    have "length ?v < length ((''staged-updates-'' @ ?v) @ ''-'' @ FormatInt micro1)" by simp
    then have "?v \<noteq> (''staged-updates-'' @ ?v) @ ''-'' @ FormatInt micro1" by (metis less_irrefl)
    then have out: "\<not> in_tree (staging_dir ulm binary targetFilename micro1) (Clean ?exe)"
      using in_tree_disjoint[OF U assms(3) is_name_staging[OF assms(3), of micro1]] exe_path(2)[OF U assms(3)] by blast
    have r: "runnable fs' ?exe" using runnable_changes[OF moveVerifiedUpdate_Ok(1)[OF mv assms(1,3)] ch out] .
    obtain c where "file_at fs' ?exe c" using runnable_file[OF r] by blast
    moreover note unpack_dirs_clear_nodes[OF Available_fs(1)[OF a], of ulm binary ?v]
    ultimately have "\<not> IsNixOS x \<and> unpack_dirs_clear ulm binary ?v fs \<longrightarrow> (\<exists>c. file_at fs' ?exe c \<and> from_archive x data c)"
      using add_comes_from_download[OF assms(1-3) st mv _ _ d] file_at_changes[OF ch out] by blast
    moreover have "\<exists>actual. length data \<le> nat (tf_Length meta) \<and>
        GenerateTargetFileMeta x data (HashAlgorithms x meta) = Inr actual \<and> TargetFileMetaEqual x actual meta = None"
      using d by (auto simp: download_verified_def limited_read_def split: sum.splits option.splits if_splits)
    ultimately show ?thesis using d r by blast
  qed
qed

lemma in_tree_Clean: "in_tree (Clean d) q = in_tree d q"
  by (simp add: in_tree_def)

lemma tempDir_changes:
  assumes "tempDir ulm binary pattern m fs = (fs', r)" "IsAbs (baseDir ulm)" "CHR ''/'' \<notin> set pattern"
    and "dirs_exist fs (updatesDirectory binary (baseDir ulm))"
  shows "changes_in (in_tree (Join [updatesDirectory binary (baseDir ulm), pattern @ ''-'' @ FormatInt m])) fs fs'"
    "faults fs = [] \<Longrightarrow> faults fs' = []"
    "faults fs = [] \<Longrightarrow> r = Inl e \<Longrightarrow> nodes fs' = nodes fs"
proof -
  let ?d = "Join [updatesDirectory binary (baseDir ulm), pattern @ ''-'' @ FormatInt m]"
  note U = updatesDirectory_abs(1)[OF assms(2), of binary] is_name_temp[OF assms(3), of m]
  obtain err where mk: "os_MkdirAll ?d 0x1ED fs = (fs', err)" and e: "err = None \<longleftrightarrow> r = Inr ?d"
    using assms(1) by (auto simp: tempDir_def Let_def simp del: Join.simps split: prod.splits option.splits)
  show "changes_in (in_tree ?d) fs fs'"
    using os_MkdirAll_changes[OF mk U assms(4)] by (rule changes_in_mono) (simp add: in_tree_def del: Join.simps)
  assume f: "faults fs = []"
  have m: "mkdirs 0x1ED [?d] fs = (fs', err)"
    using mk mkdirs_existing[OF assms(4)[unfolded dirs_exist_def], of "0x1ED" "[?d]"]
    unfolding os_MkdirAll_def os_op_no_faults[OF f] path_and_parents_Join[OF U] by (simp only:)
  then show "faults fs' = []" using f by (auto simp del: Join.simps split: option.splits fs_node.splits)
  assume "r = Inl e"
  with m \<open>err = None \<longleftrightarrow> r = Inr ?d\<close> show "nodes fs' = nodes fs"
    by (auto simp del: Join.simps split: option.splits fs_node.splits)
qed

lemma WaitFor_RemoveAll_no_faults: "faults fs = [] \<Longrightarrow> WaitFor n (os_RemoveAll p) fs = (remove_tree p fs, None)"
  by (simp add: WaitFor.simps os_RemoveAll_no_faults)

text \<open>C35: a download that is not what the metadata says, or fails, is an error that leaves the library as it was: only
  the staging directory may have changed, and when no file operation fails that one is gone too.\<close>

theorem add_unverified_leaves_no_trace:
  assumes "IsAbs (baseDir ulm)" and "is_name targetFilename" and "is_name (versionFromTarget binary targetFilename)"
    and "currentVersion \<noteq> versionFromTarget binary targetFilename"
    and "\<not> snd (Available x ulm binary targetFilename fs)"
    and "dirs_exist fs (updatesDirectory binary (baseDir ulm))"
    and "download_verified x ulm binary targetFilename meta = Inl e"
    and "AddToLibrary x ulm rt micro1 micro2 binary currentVersion targetFilename meta fs = (fs', err)"
  shows "err \<noteq> None \<and>
    changes_in (in_tree (Join [updatesDirectory binary (baseDir ulm),
       (''staged-updates-'' @ versionFromTarget binary targetFilename) @ ''-'' @ FormatInt micro1])) fs fs' \<and>
    (faults fs = [] \<and> (\<forall>q. in_tree (Join [updatesDirectory binary (baseDir ulm),
         (''staged-updates-'' @ versionFromTarget binary targetFilename) @ ''-'' @ FormatInt micro1]) q \<longrightarrow>
           map_of (nodes fs) q = None) \<longrightarrow> map_of (nodes fs') = map_of (nodes fs))"
proof -
  let ?v = "versionFromTarget binary targetFilename"
  let ?pattern = "''staged-updates-'' @ ?v" and ?d = "staging_dir ulm binary targetFilename micro1"
  obtain fs1 where a: "Available x ulm binary targetFilename fs = (fs1, False)"
    using assms(5) by (cases "Available x ulm binary targetFilename fs") auto
  note av = Available_fs(1,2)[OF a]
  obtain fs2 r where t: "tempDir ulm binary ?pattern micro1 fs1 = (fs2, r)"
    by (cases "tempDir ulm binary ?pattern micro1 fs1")
  have ns: "CHR ''/'' \<notin> set ?pattern" using assms(3) by (simp add: is_name_def)
  have de: "dirs_exist fs1 (updatesDirectory binary (baseDir ulm))"
    using assms(6) by (simp add: dirs_exist_def is_dir_def node_at_nodes[OF av(1)])
  note tc = tempDir_changes[OF t assms(1) ns de]
  note base = changes_in_trans[OF changes_in_nodes[OF av(1)] tc(1)]
  show ?thesis
  proof (cases r)
    case (Inl e')
    then have "fs' = fs2 \<and> err \<noteq> None"
      using assms(4,8) a t by (auto simp: AddToLibrary_def stageAndVerifyUpdate_def Let_def simp del: Join.simps)
    with base av tc(3)[OF _ Inl] show ?thesis by simp
  next
    case (Inr d)
    have j: "IsAbs ?d" "comps ?d \<noteq> []"
      using Join_name(2,3)[OF updatesDirectory_abs(1)[OF assms(1), of binary] is_name_staging[OF assms(3), of micro1]]
      by simp_all
    have d: "d = ?d" by (rule tempDir_path[OF t[unfolded Inr]])
    have ne: "Join [?d, targetFilename] \<noteq> ''''"
      using Join_name(3)[OF j(1) assms(2)] by (metis IsAbs_Nil)
    have fs': "fs' = fst (WaitFor (retry_download_cleanup rt) (os_RemoveAll (Dir (Join [?d, targetFilename]))) fs2)"
      and err: "err \<noteq> None"
      using assms(4,7,8) a t Inr ne d by (auto simp: AddToLibrary_def stageAndVerifyUpdate_def Let_def simp del: Join.simps)
    have ch: "changes_in (in_tree ?d) fs fs'"
      using changes_in_trans[OF base cleanup_changes[OF assms(1-3)]] fs' by simp
    moreover have "map_of (nodes fs') = map_of (nodes fs)"
      if f: "faults fs = []" and q: "\<forall>q. in_tree ?d q \<longrightarrow> map_of (nodes fs) q = None"
    proof
      fix q
      have f2: "faults fs2 = []" using tc(2) f av(2) by simp
      have "fs' = remove_tree (Clean ?d) fs2"
        unfolding fs' WaitFor_RemoveAll_no_faults[OF f2] Dir_Join_name[OF j assms(2)] by simp
      then have "in_tree ?d q \<Longrightarrow> map_of (nodes fs') q = None"
        by (simp only: remove_tree_nodes map_of_filter_key in_tree_Clean if_False not_True_eq_False)
      with q ch show "map_of (nodes fs') q = map_of (nodes fs) q" unfolding changes_in_def by metis
    qed
    ultimately show ?thesis using err by blast
  qed
qed

theorem add_unverified_leaves_no_trace_witness:
  "map_of (nodes (fst (AddToLibrary example_ext example_ulm
       \<lparr>retry_cleanup = 0, retry_check = 0, retry_rename = 0, retry_download_cleanup = 0\<rparr>
       7 8 binaryOsqueryd ''4'' ''osqueryd-5.tar.gz'' \<lparr>tf_Length = 2, tf_Hashes = [], tf_Custom = None\<rparr> example_fs))) =
   map_of (nodes example_fs)"
proof -
  let ?rt = "\<lparr>retry_cleanup = 0, retry_check = 0, retry_rename = 0, retry_download_cleanup = 0\<rparr>"
  let ?meta = "\<lparr>tf_Length = 2, tf_Hashes = [], tf_Custom = None\<rparr>"
  let ?d = "Join [updatesDirectory binaryOsqueryd (baseDir example_ulm),
       (''staged-updates-'' @ versionFromTarget binaryOsqueryd ''osqueryd-5.tar.gz'') @ ''-'' @ FormatInt 7]"
  obtain fs' err where r: "AddToLibrary example_ext example_ulm ?rt 7 8 binaryOsqueryd ''4'' ''osqueryd-5.tar.gz'' ?meta example_fs =
      (fs', err)" by (metis surj_pair)
  have "is_err (download_verified example_ext example_ulm binaryOsqueryd ''osqueryd-5.tar.gz'' ?meta)" by code_simp
  then obtain e where e: "download_verified example_ext example_ulm binaryOsqueryd ''osqueryd-5.tar.gz'' ?meta = Inl e"
    by (auto simp: is_err_iff)
  have "IsAbs (baseDir example_ulm)" "is_name ''osqueryd-5.tar.gz''"
    "is_name (versionFromTarget binaryOsqueryd ''osqueryd-5.tar.gz'')"
    "''4'' \<noteq> versionFromTarget binaryOsqueryd ''osqueryd-5.tar.gz''"
    "\<not> snd (Available example_ext example_ulm binaryOsqueryd ''osqueryd-5.tar.gz'' example_fs)"
    "dirs_exist example_fs (updatesDirectory binaryOsqueryd (baseDir example_ulm))" by code_simp+
  note no_trace = add_unverified_leaves_no_trace[OF this e r]
  have "list_all (\<lambda>q. \<not> in_tree ?d q) (map fst (nodes example_fs))" by code_simp
  then have "\<forall>q. in_tree ?d q \<longrightarrow> map_of (nodes example_fs) q = None"
    unfolding list_all_iff map_of_eq_None_iff by (simp only: set_map) blast
  moreover have "faults example_fs = []" by code_simp
  ultimately have "map_of (nodes fs') = map_of (nodes example_fs)" using no_trace by blast
  then show ?thesis unfolding r by simp
qed

end
