(* ===== verification/TufLookup.thy ===== *)
theory TufLookup
  imports TufLibrary
begin

text \<open>
  Selecting a release and looking up its executable: the functions on TUF targets of
  \<open>ee/tuf/autoupdate.go\<close> and \<open>ee/tuf/library_lookup.go\<close>.

  The targets are a Go map from names to metadata, ranged over in the order a seed selects.  Decoding
  the custom metadata of a release file, the flag and config file parsers, the startup settings and
  the TUF client that reads the local repository are parameters.
\<close>

subsection \<open>Selecting a target\<close>

record ReleaseFileCustomMetadata =
  Target :: string
  PromoteTime :: int

type_synonym TargetFiles = "(string \<times> TargetFileMeta) list"

text \<open>\<open>json.Unmarshal\<close> of custom metadata.\<close>

type_synonym custom_decoder = "string \<Rightarrow> error + ReleaseFileCustomMetadata"

definition targetNameForVersion :: "ulm_ext \<Rightarrow> autoupdatableBinary \<Rightarrow> string \<Rightarrow> string" where
  "targetNameForVersion x binary binaryVersion =
     Join [binary_string binary, GOOS x, PlatformArch x, binary_string binary @ ''-'' @ binaryVersion @ ''.tar.gz'']"

definition targetReleaseFile :: "ulm_ext \<Rightarrow> autoupdatableBinary \<Rightarrow> string \<Rightarrow> string" where
  "targetReleaseFile x binary channel =
     Join [binary_string binary, GOOS x, PlatformArch x, channel, ''release.json'']"

text \<open>The loops \<open>for targetName, target := range targets\<close> that skip every other name.\<close>

definition range_find :: "nat list \<Rightarrow> TargetFiles \<Rightarrow> string \<Rightarrow> (string \<times> TargetFileMeta) option" where
  "range_find seed targets name = find (\<lambda>(targetName, target). targetName = name) (go_range seed targets)"

definition findTargetByVersion ::
  "ulm_ext \<Rightarrow> nat list \<Rightarrow> autoupdatableBinary \<Rightarrow> TargetFiles \<Rightarrow> string \<Rightarrow> error + (string \<times> TargetFileMeta)" where
  "findTargetByVersion x seed binary targets binaryVersion =
     (case range_find seed targets (targetNameForVersion x binary binaryVersion) of
        Some (targetName, target) \<Rightarrow> Inr (Base targetName, target)
      | None \<Rightarrow> Inl (ErrNew ''could not find metadata for binary and version''))"

definition findRelease_target ::
  "ulm_ext \<Rightarrow> custom_decoder \<Rightarrow> nat list \<Rightarrow> autoupdatableBinary \<Rightarrow> TargetFiles \<Rightarrow> string \<Rightarrow> error + string" where
  "findRelease_target x dec seed binary targets channel =
     (case range_find seed targets (targetReleaseFile x binary channel) of
        None \<Rightarrow> Inr ''''
      | Some (targetName, target) \<Rightarrow>
          (case tf_Custom target of
             None \<Rightarrow> Inl (ErrNew ''release file missing custom metadata'')
           | Some raw \<Rightarrow>
               (case dec raw of
                  Inl err \<Rightarrow> Inl (ErrWrap ''could not unmarshal release file custom metadata'' err)
                | Inr custom \<Rightarrow> Inr (Target custom))))"

definition findRelease ::
  "ulm_ext \<Rightarrow> custom_decoder \<Rightarrow> nat list \<Rightarrow> nat list \<Rightarrow> autoupdatableBinary \<Rightarrow> TargetFiles \<Rightarrow> string \<Rightarrow>
   error + (string \<times> TargetFileMeta)" where
  "findRelease x dec seed1 seed2 binary targets channel =
     (case findRelease_target x dec seed1 binary targets channel of
        Inl err \<Rightarrow> Inl err
      | Inr releaseTarget \<Rightarrow>
          if releaseTarget = '''' then Inl (ErrNew ''expected release file to be in targets but it was not'')
          else (case range_find seed2 targets releaseTarget of
                  Some (targetName, target) \<Rightarrow> Inr (Base releaseTarget, target)
                | None \<Rightarrow> Inl (ErrNew ''could not find metadata for release target'')))"

definition findTarget ::
  "ulm_ext \<Rightarrow> custom_decoder \<Rightarrow> nat list \<Rightarrow> nat list \<Rightarrow> autoupdatableBinary \<Rightarrow> TargetFiles \<Rightarrow> string \<Rightarrow> string \<Rightarrow>
   error + (string \<times> TargetFileMeta)" where
  "findTarget x dec seed1 seed2 binary targets pinnedVersion channel =
     (if pinnedVersion \<noteq> '''' then
        (case findTargetByVersion x seed1 binary targets pinnedVersion of
           Inr found \<Rightarrow> Inr found
         | Inl err \<Rightarrow> findRelease x dec seed1 seed2 binary targets channel)
      else findRelease x dec seed1 seed2 binary targets channel)"

definition findReleasePromoteTime ::
  "ulm_ext \<Rightarrow> custom_decoder \<Rightarrow> nat list \<Rightarrow> autoupdatableBinary \<Rightarrow> TargetFiles \<Rightarrow> string \<Rightarrow> int" where
  "findReleasePromoteTime x dec seed binary targets channel =
     (case range_find seed targets (targetReleaseFile x binary channel) of
        None \<Rightarrow> 0
      | Some (targetName, target) \<Rightarrow>
          (case tf_Custom target of
             None \<Rightarrow> 0
           | Some raw \<Rightarrow> (case dec raw of Inl err \<Rightarrow> 0 | Inr custom \<Rightarrow> PromoteTime custom)))"

subsection \<open>Looking up the executable\<close>

record BinaryUpdateInfo =
  bui_Path :: string
  bui_Version :: string

definition LocalTufDirectory :: "string \<Rightarrow> string" where
  "LocalTufDirectory rootDirectory = Join [rootDirectory, ''tuf'']"

definition DefaultLibraryDirectory :: "string \<Rightarrow> string" where
  "DefaultLibraryDirectory rootDirectory = Join [rootDirectory, ''updates'']"

text \<open>\<open>strings.Fields\<close>: the maximal runs of characters that are not white space.\<close>

fun Fields :: "string \<Rightarrow> string list" where
  "Fields [] = []"
| "Fields (c # s) =
     (if is_space c then Fields s
      else (case s of
              [] \<Rightarrow> [[c]]
            | d # _ \<Rightarrow> if is_space d then [c] # Fields s
                       else (case Fields s of [] \<Rightarrow> [[c]] | w # ws \<Rightarrow> (c # w) # ws)))"

definition trimVersionString :: "string \<Rightarrow> string" where
  "trimVersionString version =
     (let parts = Fields version in if length parts > 0 then last parts else version)"

text \<open>
  \<open>local_targets\<close> is what the read-only TUF client finds in the local repository: an error when the
  repository is missing or cannot be read.
\<close>

definition findExecutable ::
  "ulm_ext \<Rightarrow> custom_decoder \<Rightarrow> nat list \<Rightarrow> nat list \<Rightarrow> (string \<Rightarrow> error + TargetFiles) \<Rightarrow> autoupdatableBinary \<Rightarrow> string \<Rightarrow>
   string \<Rightarrow> string \<Rightarrow> string \<Rightarrow> filesys \<Rightarrow> filesys \<times> (error + BinaryUpdateInfo)" where
  "findExecutable x dec seed1 seed2 local_targets binary tufRepositoryLocation pinnedVersion channel baseUpdateDirectory fs =
     (case local_targets tufRepositoryLocation of
        Inl err \<Rightarrow> (fs, Inl (ErrWrap ''could not get targets'' err))
      | Inr targets \<Rightarrow>
          if length targets = 0 then (fs, Inl (ErrNew ''no local TUF metadata available''))
          else (case findTarget x dec seed1 seed2 binary targets pinnedVersion channel of
                  Inl err \<Rightarrow> (fs, Inl (ErrWrap ''could not find release'' err))
                | Inr (targetName, _) \<Rightarrow>
                    (case pathToTargetVersionExecutable binary targetName baseUpdateDirectory of
                       (targetPath, targetVersion) \<Rightarrow>
                         if os_Stat fs targetPath = StatNotExist
                         then (fs, Inl (ErrNew ''version is either originally installed version or not yet downloaded''))
                         else (case CheckExecutable x targetPath fs of
                                 (fs', Some err) \<Rightarrow> (fs', Inl (ErrWrap ''version is corrupted'' err))
                               | (fs', None) \<Rightarrow>
                                   (fs', Inr \<lparr>bui_Path = targetPath, bui_Version = trimVersionString targetVersion\<rparr>)))))"

definition mostRecentVersion ::
  "ulm_ext \<Rightarrow> 'v semver_lib \<Rightarrow> autoupdatableBinary \<Rightarrow> string \<Rightarrow> string \<Rightarrow> filesys \<Rightarrow>
   filesys \<times> (error + BinaryUpdateInfo)" where
  "mostRecentVersion x sv binary baseUpdateDirectory channel fs =
     (case sortedVersionsInLibrary x sv binary baseUpdateDirectory fs of
        (fs', validVersionsInLibrary, _) \<Rightarrow>
          if length validVersionsInLibrary < 1 then (fs', Inl (ErrNew ''no versions in library''))
          else let raw = last validVersionsInLibrary;
                   found = \<lparr>bui_Path = executableLocation (Join [updatesDirectory binary baseUpdateDirectory, raw]) binary,
                            bui_Version = trimVersionString raw\<rparr>
               in if binary = binaryLauncher \<and> channel = ''stable''
                  then (case launcherVersionSupportsTuf (semver.truncate sv) raw of
                          Inl err \<Rightarrow> (fs', Inl (ErrWrap ''could not determine if launcher version supports TUF'' err))
                        | Inr supportsTuf \<Rightarrow>
                            if \<not> supportsTuf
                            then (fs', Inl (ErrNew ''most recent version for binary launcher is not newer than required''))
                            else (fs', Inr found))
                  else (fs', Inr found))"

definition CheckOutLatest ::
  "ulm_ext \<Rightarrow> custom_decoder \<Rightarrow> 'v semver_lib \<Rightarrow> nat list \<Rightarrow> nat list \<Rightarrow> (string \<Rightarrow> error + TargetFiles) \<Rightarrow> autoupdatableBinary \<Rightarrow>
   string \<Rightarrow> string \<Rightarrow> string \<Rightarrow> string \<Rightarrow> filesys \<Rightarrow> filesys \<times> (error + BinaryUpdateInfo)" where
  "CheckOutLatest x dec sv seed1 seed2 local_targets binary rootDirectory updateDirectory pinnedVersion channel fs =
     (let updateDirectory' = (if updateDirectory = '''' then DefaultLibraryDirectory rootDirectory else updateDirectory)
      in case findExecutable x dec seed1 seed2 local_targets binary (LocalTufDirectory rootDirectory) pinnedVersion channel
                updateDirectory' fs of
           (fs', Inr update) \<Rightarrow> (fs', Inr update)
         | (fs', Inl err) \<Rightarrow> mostRecentVersion x sv binary updateDirectory' channel fs')"

subsection \<open>Configuration\<close>

text \<open>\<open>None\<close> is the panic of \<open>ConfigFilePath\<close>.\<close>

record autoupdateConfig =
  rootDirectory :: string
  updateDirectory :: string
  channel :: string
  localDevelopmentPath :: string
  hostname :: string
  cfg_identifier :: string

text \<open>The values the flag package finds; a flag that is not given is the empty string.\<close>

record autoupdate_flags =
  flConfigFilePath :: string
  flRootDirectory :: string
  flUpdateDirectory :: string
  flUpdateChannel :: string
  flLocalDevelopmentPath :: string
  flHostname :: string
  flIdentifier :: string

definition argsToParse :: "string list \<Rightarrow> string list" where
  "argsToParse args = map (\<lambda>arg. if HasPrefix arg ''-'' \<and> \<not> HasPrefix arg ''--'' then ''-'' @ arg else arg) args"

definition config_entry :: "string \<times> string \<Rightarrow> autoupdateConfig \<Rightarrow> autoupdateConfig" where
  "config_entry e cfg =
     (case e of (name, v) \<Rightarrow>
        if name = ''root_directory'' then cfg\<lparr>rootDirectory := v\<rparr>
        else if name = ''update_directory'' then cfg\<lparr>updateDirectory := v\<rparr>
        else if name = ''update_channel'' then cfg\<lparr>channel := v\<rparr>
        else if name = ''localdev_path'' then cfg\<lparr>localDevelopmentPath := v\<rparr>
        else if name = ''hostname'' then cfg\<lparr>hostname := v\<rparr>
        else if name = ''identifier'' then cfg\<lparr>cfg_identifier := v\<rparr>
        else cfg)"

text \<open>\<open>read_config\<close> opens and parses a config file into its lines, in order.\<close>

definition getAutoupdateConfigFromFile ::
  "(string \<Rightarrow> error + (string \<times> string) list) \<Rightarrow> string \<Rightarrow> error + autoupdateConfig" where
  "getAutoupdateConfigFromFile read_config configFilePath =
     (case read_config configFilePath of
        Inl err \<Rightarrow> Inl (ErrWrap ''could not parse config file'' err)
      | Inr lines \<Rightarrow>
          Inr (fold config_entry lines
                 \<lparr>rootDirectory = '''', updateDirectory = '''', channel = '''', localDevelopmentPath = '''',
                  hostname = '''', cfg_identifier = ''''\<rparr>))"

definition getAutoupdateConfig ::
  "string \<Rightarrow> (string list \<Rightarrow> error + autoupdate_flags) \<Rightarrow> (string \<Rightarrow> error + (string \<times> string) list) \<Rightarrow>
   string list \<Rightarrow> (error + autoupdateConfig) option" where
  "getAutoupdateConfig goos parse_flags read_config args =
     (case parse_flags (argsToParse args) of
        Inl err \<Rightarrow> Some (Inl (ErrWrap ''parsing command-line flags'' err))
      | Inr fl \<Rightarrow>
          if flConfigFilePath fl = '''' \<and> flRootDirectory fl = '''' \<and> flUpdateChannel fl = ''''
          then map_option (getAutoupdateConfigFromFile read_config) (ConfigFilePath goos (argsToParse args))
          else if flConfigFilePath fl \<noteq> '''' then Some (getAutoupdateConfigFromFile read_config (flConfigFilePath fl))
          else Some (Inr \<lparr>rootDirectory = flRootDirectory fl, updateDirectory = flUpdateDirectory fl,
                    channel = flUpdateChannel fl, localDevelopmentPath = flLocalDevelopmentPath fl,
                    hostname = '''', cfg_identifier = flIdentifier fl\<rparr>))"

text \<open>
  \<open>settings\<close> opens the startup settings of a root directory: an error, or the lookup by key (a missing
  key or a failed read is the empty string).
\<close>

definition getUpdateSettingsFromStartupSettings ::
  "(string \<Rightarrow> error + (string \<Rightarrow> string)) \<Rightarrow> autoupdatableBinary \<Rightarrow> string \<Rightarrow> error + (string \<times> string)" where
  "getUpdateSettingsFromStartupSettings settings binary root =
     (case settings root of
        Inl err \<Rightarrow> Inl (ErrWrap ''opening startupsettings reader'' err)
      | Inr get \<Rightarrow>
          Inr (case binary of
                 binaryLauncher \<Rightarrow> get ''pinned_launcher_version''
               | binaryOsqueryd \<Rightarrow> get ''pinned_osqueryd_version'',
               get ''update_channel''))"

definition CheckOutLatestWithoutConfig ::
  "ulm_ext \<Rightarrow> custom_decoder \<Rightarrow> 'v semver_lib \<Rightarrow> nat list \<Rightarrow> nat list \<Rightarrow> (string \<Rightarrow> error + TargetFiles) \<Rightarrow>
   (string \<Rightarrow> file_stat) \<Rightarrow> (string \<Rightarrow> error + (string \<Rightarrow> string)) \<Rightarrow> (error + autoupdateConfig) \<Rightarrow>
   autoupdatableBinary \<Rightarrow> filesys \<Rightarrow> filesys \<times> (error + BinaryUpdateInfo)" where
  "CheckOutLatestWithoutConfig x dec sv seed1 seed2 local_targets launcher_db settings config binary fs =
     (case config of
        Inl err \<Rightarrow> (fs, Inl (ErrWrap ''could not get autoupdate config'' err))
      | Inr cfg \<Rightarrow>
          if binary = binaryLauncher \<and> localDevelopmentPath cfg \<noteq> ''''
          then (fs, Inr \<lparr>bui_Path = localDevelopmentPath cfg, bui_Version = ''''\<rparr>)
          else let root = DetermineRootDirectoryOverride (GOOS x = ''windows'') launcher_db (rootDirectory cfg) (hostname cfg) (cfg_identifier cfg);
                   (pinnedVersion, updateChannel) =
                     (case getUpdateSettingsFromStartupSettings settings binary root of
                        Inl err \<Rightarrow> ('''', '''') | Inr found \<Rightarrow> found);
                   updateChannel' = (if updateChannel = '''' then channel cfg else updateChannel)
               in CheckOutLatest x dec sv seed1 seed2 local_targets binary root (updateDirectory cfg) pinnedVersion
                    updateChannel' fs)"

subsection \<open>Which target is selected\<close>

lemma find_map_of: "find (\<lambda>(k, v). k = name) m = map_option (\<lambda>v. (name, v)) (map_of m name)"
  by (induction m) auto

lemma range_find_map_of:
  "distinct (map fst targets) \<Longrightarrow> range_find seed targets name = map_option (\<lambda>v. (name, v)) (map_of targets name)"
  by (simp add: range_find_def find_map_of)

lemma comps_names:
  assumes "list_all is_name ns" "ns \<noteq> []"
  shows "comps (join_sep ''/'' ns) = ns" "\<not> IsAbs (join_sep ''/'' ns)" "Clean (join_sep ''/'' ns) = join_sep ''/'' ns"
proof -
  obtain c cs where ns: "ns = c # cs" using assms(2) by (cases ns) auto
  show a: "\<not> IsAbs (join_sep ''/'' ns)" unfolding ns by (rule IsAbs_join) (use assms(1) ns in \<open>auto simp: is_name_def\<close>)
  have "split_sep (CHR ''/'') (join_sep ''/'' ns) = ns"
    using split_join[OF assms(2), of "CHR ''/''"] assms(1) by (simp add: list_all_iff is_name_def)
  then show "comps (join_sep ''/'' ns) = ns" using clean_comps_names[OF assms(1), of _ "[]"] by (simp add: comps_def)
  with a assms(2) show "Clean (join_sep ''/'' ns) = join_sep ''/'' ns" by (simp add: Clean_def)
qed

lemma Join_names:
  assumes "list_all is_name ns" "ns \<noteq> []"
  shows "Join ns = join_sep ''/'' ns"
proof -
  obtain c cs where ns: "ns = c # cs" using assms(2) by (cases ns) auto
  then have "c \<noteq> ''''" using assms(1) by (auto simp: is_name_def)
  then show ?thesis using comps_names(3)[OF assms] ns by simp
qed

lemma Base_names:
  assumes "list_all is_name ns" "ns \<noteq> []"
  shows "Base (join_sep ''/'' ns) = last ns"
proof -
  obtain cs n where ns: "ns = cs @ [n]" using assms(2) by (metis rev_exhaust)
  have nm: "is_name n" using assms(1) ns by simp
  then obtain n' c where n: "n = n' @ [c]" by (cases n rule: rev_cases) (auto simp: is_name_def)
  with nm have "c \<noteq> CHR ''/''" by (auto simp: is_name_def)
  note n = n this
  have l: "\<exists>p. join_sep ''/'' ns = p @ n"
    using join_sep_append[of cs "[n]" "''/''"] ns by (cases "cs = []") auto
  then obtain p where p: "join_sep ''/'' ns = p @ n" by blast
  then have s: "strip_slashes (join_sep ''/'' ns) = join_sep ''/'' ns" using n by (simp add: strip_slashes_def)
  have "split_sep (CHR ''/'') (join_sep ''/'' ns) = ns"
    using split_join[OF assms(2), of "CHR ''/''"] assms(1) by (simp add: list_all_iff is_name_def)
  then show ?thesis unfolding Base_def s using p n by simp
qed

lemma is_name_target: "CHR ''/'' \<notin> set v \<Longrightarrow> is_name (binary_string b @ ''-'' @ v @ ''.tar.gz'')"
  by (cases b) (auto simp: is_name_def)

text \<open>The release the channel of the targets names, when the targets have it.\<close>

definition channel_release ::
  "ulm_ext \<Rightarrow> custom_decoder \<Rightarrow> autoupdatableBinary \<Rightarrow> TargetFiles \<Rightarrow> string \<Rightarrow> (string \<times> TargetFileMeta) option" where
  "channel_release x dec binary targets updateChannel =
     Option.bind (map_of targets (targetReleaseFile x binary updateChannel)) (\<lambda>release.
     Option.bind (tf_Custom release) (\<lambda>raw.
       case dec raw of
         Inl err \<Rightarrow> None
       | Inr custom \<Rightarrow>
           if Target custom = '''' then None
           else map_option (\<lambda>meta. (Base (Target custom), meta)) (map_of targets (Target custom))))"

lemma findRelease_channel:
  assumes "distinct (map fst targets)"
  shows "(case findRelease x dec seed1 seed2 binary targets updateChannel of Inl _ \<Rightarrow> None | Inr found \<Rightarrow> Some found) =
    channel_release x dec binary targets updateChannel"
  by (auto simp: findRelease_def findRelease_target_def channel_release_def range_find_map_of[OF assms]
      split: option.splits sum.splits)

text \<open>C37: whatever order the map of targets is ranged over in, the target for a binary is the one of its
  pinned version when there is a pinned version and the targets have it, under the file name of that
  version, and otherwise the release of the channel; there is an error exactly when there is neither.\<close>

theorem findTarget_pinned_or_release:
  assumes "distinct (map fst targets)" and "is_name (GOOS x)" and "is_name (PlatformArch x)"
    and "CHR ''/'' \<notin> set pinnedVersion"
  shows "(case findTarget x dec seed1 seed2 binary targets pinnedVersion updateChannel of Inl _ \<Rightarrow> None | Inr found \<Rightarrow> Some found) =
    (case (if pinnedVersion = '''' then None else map_of targets (targetNameForVersion x binary pinnedVersion)) of
       Some meta \<Rightarrow> Some (binary_string binary @ ''-'' @ pinnedVersion @ ''.tar.gz'', meta)
     | None \<Rightarrow> channel_release x dec binary targets updateChannel)"
proof -
  let ?ns = "[binary_string binary, GOOS x, PlatformArch x, binary_string binary @ ''-'' @ pinnedVersion @ ''.tar.gz'']"
  have "list_all is_name ?ns" using assms(2,3) is_name_target[OF assms(4)] by simp
  then have "Base (targetNameForVersion x binary pinnedVersion) = last ?ns"
    unfolding targetNameForVersion_def by (simp only: Join_names Base_names list.simps simp_thms)
  then show ?thesis
    by (auto simp: findTarget_def findTargetByVersion_def range_find_map_of[OF assms(1)] findRelease_channel[OF assms(1)]
        split: option.splits)
qed

theorem findTarget_pinned_or_release_witness:
  "findTarget example_ext (\<lambda>_. Inl (ErrNew ''json'')) [1] [0] binaryOsqueryd
      [(''osqueryd/linux/amd64/osqueryd-5.1.tar.gz'', \<lparr>tf_Length = 1, tf_Hashes = [], tf_Custom = None\<rparr>),
       (''osqueryd/linux/amd64/osqueryd-5.2.tar.gz'', \<lparr>tf_Length = 2, tf_Hashes = [], tf_Custom = None\<rparr>)] ''5.2'' ''stable'' =
   Inr (''osqueryd-5.2.tar.gz'', \<lparr>tf_Length = 2, tf_Hashes = [], tf_Custom = None\<rparr>)"
proof -
  let ?ts = "[(''osqueryd/linux/amd64/osqueryd-5.1.tar.gz'', \<lparr>tf_Length = 1, tf_Hashes = [], tf_Custom = None\<rparr>),
       (''osqueryd/linux/amd64/osqueryd-5.2.tar.gz'', \<lparr>tf_Length = 2, tf_Hashes = [], tf_Custom = None\<rparr>)] :: TargetFiles"
  have h: "distinct (map fst ?ts)" "is_name (GOOS example_ext)" "is_name (PlatformArch example_ext)" "CHR ''/'' \<notin> set ''5.2''"
    by code_simp+
  have m: "map_of ?ts (targetNameForVersion example_ext binaryOsqueryd ''5.2'') = Some \<lparr>tf_Length = 2, tf_Hashes = [], tf_Custom = None\<rparr>"
    by code_simp
  from findTarget_pinned_or_release[OF h, of "\<lambda>_. Inl (ErrNew ''json'')" "[1]" "[0]" binaryOsqueryd "''stable''"]
  show ?thesis unfolding m by (simp split: sum.splits)
qed

subsection \<open>What is checked out can run\<close>

text \<open>The versions of the entries of a library whose executables can run.\<close>

definition runnable_versions ::
  "('v, 'z) semver_lib_scheme \<Rightarrow> autoupdatableBinary \<Rightarrow> string \<Rightarrow> string list \<Rightarrow> filesys \<Rightarrow> 'v set" where
  "runnable_versions sv binary base raws fs =
     {swap_prerelease sv ''-'' ''.'' v |raw v. raw \<in> set raws \<and> NewVersion sv raw = Some v \<and>
        runnable fs (executableLocation (Join [updatesDirectory binary base, raw]) binary)}"

lemma runnable_versions_Cons:
  "runnable_versions sv binary base rs fs \<subseteq> runnable_versions sv binary base (r # rs) fs"
  "NewVersion sv r = Some v \<Longrightarrow> runnable fs (executableLocation (Join [updatesDirectory binary base, r]) binary) \<Longrightarrow>
   swap_prerelease sv ''-'' ''.'' v \<in> runnable_versions sv binary base (r # rs) fs"
  unfolding runnable_versions_def list.set by blast+

lemma runnable_versions_nodes:
  assumes "nodes fs' = nodes fs"
  shows "runnable_versions sv binary base rs fs' = runnable_versions sv binary base rs fs"
  unfolding runnable_versions_def runnable_nodes[OF assms] ..

lemma sortedVersions_loop_valid:
  assumes "sortedVersions_loop x sv binary base raws vs ivs fs = (fs', vs', ivs')"
  shows "set vs' \<subseteq> set vs \<union> runnable_versions sv binary base raws fs"
  using assms
proof (induction raws arbitrary: vs ivs fs)
  case (Cons r rs)
  let ?p = "executableLocation (Join [updatesDirectory binary base, r]) binary"
  note more = runnable_versions_Cons(1)[of sv binary base rs fs r]
  show ?case
  proof (cases "NewVersion sv r")
    case None
    with Cons.prems have "sortedVersions_loop x sv binary base rs vs (ivs @ [r]) fs = (fs', vs', ivs')" by simp
    from Cons.IH[OF this] more show ?thesis by blast
  next
    case (Some v)
    obtain fs1 err where c: "CheckExecutable x ?p fs = (fs1, err)" by (cases "CheckExecutable x ?p fs")
    note same = CheckExecutable_nodes(1)[OF c]
    note same = runnable_versions_nodes[OF same] runnable_nodes[OF same]
    show ?thesis
    proof (cases err)
      case None
      with c CheckExecutable_runnable have "runnable fs1 ?p" by blast
      note this[unfolded same(2)]
      note new = runnable_versions_Cons(2)[OF Some this, of rs]
      have "sortedVersions_loop x sv binary base rs (vs @ [swap_prerelease sv ''-'' ''.'' v]) ivs fs1 = (fs', vs', ivs')"
        using Cons.prems Some c None by (simp del: Join.simps)
      from Cons.IH[OF this, unfolded same(1) set_append list.set] more new show ?thesis by blast
    next
      case (Some e)
      have "sortedVersions_loop x sv binary base rs vs (ivs @ [r]) fs1 = (fs', vs', ivs')"
        using Cons.prems \<open>NewVersion sv r = Some v\<close> c Some by (simp del: Join.simps)
      from Cons.IH[OF this, unfolded same(1)] more show ?thesis by blast
    qed
  qed
qed simp

text \<open>
  What the library relies on of the semantic version package: sorting keeps the elements, and exchanging
  the hyphens of the prerelease for periods and back gives the text that was parsed.  The second does not
  hold of a version whose prerelease has periods of its own.
\<close>

definition sorts_versions :: "('v, 'z) semver_lib_scheme \<Rightarrow> bool" where
  "sorts_versions sv \<longleftrightarrow> (\<forall>vs. set (SortCollection sv vs) = set vs)"

definition reads_back :: "('v, 'z) semver_lib_scheme \<Rightarrow> string \<Rightarrow> bool" where
  "reads_back sv raw = (case NewVersion sv raw of None \<Rightarrow> True | Some v \<Rightarrow>
     Original sv (swap_prerelease sv ''.'' ''-'' (swap_prerelease sv ''-'' ''.'' v)) = raw)"

lemma sortedVersionsInLibrary_runnable:
  assumes "sortedVersionsInLibrary x sv binary base fs = (fs', valid, invalid)" "v \<in> set valid"
    and "sorts_versions sv" and "list_all (reads_back sv) (entries fs (updatesDirectory binary base))"
  shows "runnable fs' (executableLocation (Join [updatesDirectory binary base, v]) binary)"
proof -
  obtain vs where l: "sortedVersions_loop x sv binary base (entries fs (updatesDirectory binary base)) [] [] fs = (fs', vs, invalid)"
    and "v \<in> (\<lambda>v. Original sv (swap_prerelease sv ''.'' ''-'' v)) ` set vs"
    using assms(1-3) by (auto simp: sortedVersionsInLibrary_def sorts_versions_def split: prod.splits)
  with sortedVersions_loop_valid[OF l] obtain raw v0 where raw: "raw \<in> set (entries fs (updatesDirectory binary base))"
    "NewVersion sv raw = Some v0" "v = Original sv (swap_prerelease sv ''.'' ''-'' (swap_prerelease sv ''-'' ''.'' v0))"
    "runnable fs (executableLocation (Join [updatesDirectory binary base, raw]) binary)"
    unfolding runnable_versions_def by auto
  with assms(4) have "v = raw" by (auto simp: list_all_iff reads_back_def)
  with raw(4) runnable_nodes[of fs' fs] sortedVersionsInLibrary_nodes[OF assms(1)] show ?thesis by blast
qed

lemma findExecutable_runnable:
  assumes "findExecutable x dec seed1 seed2 local_targets binary repo pinnedVersion ch base fs = (fs', r)"
  shows "nodes fs' = nodes fs" "r = Inr update \<Longrightarrow> runnable fs' (bui_Path update)"
  using assms
  by (auto simp: findExecutable_def split: sum.splits prod.splits if_splits option.splits
      dest: CheckExecutable_nodes(1) CheckExecutable_runnable)

text \<open>C36: the executable that is checked out, be it the one of the release the local metadata names or the
  newest one in the library, is at its path a file with permission to execute when the lookup returns;
  and the lookup changes no file.\<close>

theorem CheckOutLatest_runnable:
  assumes "sorts_versions sv"
    and "list_all (reads_back sv) (entries fs (updatesDirectory binary
           (if updateDir = '''' then DefaultLibraryDirectory rootDir else updateDir)))"
    and "CheckOutLatest x dec sv seed1 seed2 local_targets binary rootDir updateDir pinnedVersion updateChannel fs =
           (fs', Inr update)"
  shows "runnable fs' (bui_Path update) \<and> nodes fs' = nodes fs"
proof -
  define base where "base = (if updateDir = '''' then DefaultLibraryDirectory rootDir else updateDir)"
  obtain fs1 r where f: "findExecutable x dec seed1 seed2 local_targets binary (LocalTufDirectory rootDir) pinnedVersion
      updateChannel base fs = (fs1, r)" by (metis surj_pair)
  note n1 = findExecutable_runnable(1)[OF f]
  show ?thesis
  proof (cases r)
    case (Inr u)
    with assms(3) f have "fs' = fs1" "u = update" by (auto simp: CheckOutLatest_def base_def)
    with findExecutable_runnable(2)[OF f Inr] n1 show ?thesis by simp
  next
    case (Inl e)
    with assms(3) f have m: "mostRecentVersion x sv binary base updateChannel fs1 = (fs', Inr update)"
      by (auto simp: CheckOutLatest_def base_def)
    then obtain valid invalid where s: "sortedVersionsInLibrary x sv binary base fs1 = (fs', valid, invalid)" "valid \<noteq> []"
      "bui_Path update = executableLocation (Join [updatesDirectory binary base, last valid]) binary"
      by (auto simp: mostRecentVersion_def Let_def simp del: Join.simps split: prod.splits if_splits sum.splits)
    have "entries fs1 = entries fs" by (simp add: fun_eq_iff entries_def n1)
    then show ?thesis
      using sortedVersionsInLibrary_runnable[OF s(1) _ assms(1), of "last valid"] sortedVersionsInLibrary_nodes[OF s(1)] s(2,3) assms(2) n1
      by (simp add: base_def del: Join.simps)
  qed
qed

theorem CheckOutLatest_runnable_witness:
  "runnable (fst (CheckOutLatest example_ext (\<lambda>_. Inl (ErrNew ''json'')) example_semver [] [] (\<lambda>_. Inl (ErrNew ''no repository''))
       binaryOsqueryd ''/r'' ''/u'' '''' ''stable'' example_fs)) ''/u/osqueryd/4/osqueryd''"
proof -
  let ?r = "CheckOutLatest example_ext (\<lambda>_. Inl (ErrNew ''json'')) example_semver [] [] (\<lambda>_. Inl (ErrNew ''no repository''))
       binaryOsqueryd ''/r'' ''/u'' '''' ''stable'' example_fs"
  have s: "sorts_versions example_semver" by (simp add: sorts_versions_def example_semver_def)
  have e: "list_all (reads_back example_semver) (entries example_fs (updatesDirectory binaryOsqueryd
           (if ''/u'' = '''' then DefaultLibraryDirectory ''/r'' else ''/u'')))" by code_simp
  have "snd ?r = Inr \<lparr>bui_Path = ''/u/osqueryd/4/osqueryd'', bui_Version = ''4''\<rparr>" by code_simp
  then have "?r = (fst ?r, Inr \<lparr>bui_Path = ''/u/osqueryd/4/osqueryd'', bui_Version = ''4''\<rparr>)" by (metis prod.collapse)
  from CheckOutLatest_runnable[OF s e this] show ?thesis by simp
qed

end
