(* ===== verification/TufAutoupdate.thy ===== *)
theory TufAutoupdate
  imports TufLookup
begin

text \<open>
  The autoupdater, \<open>ee/tuf/autoupdate.go\<close>: checking for updates, downloading them within the splay
  window, restarting or deferring the restart during the initial delay, reacting to control server
  requests and flag changes, and the run loop.

  The outside of the autoupdater is a world of type \<open>'w\<close>: flags, the TUF client, the update library
  (the interface \<open>librarian\<close>), the osquery history, restart functions, random numbers and the clock
  (\<open>time.Now\<close>, nanoseconds) are functions of it; what may change it returns a new one.  A call that
  blocks for ever, on a full restart channel, is \<open>None\<close>.  \<open>checkForUpdate\<close> runs under a mutex and is
  one step.  So are \<open>FlagsChanged\<close> and the start of \<open>Execute\<close>: that \<open>FlagsChanged\<close> runs after \<open>Execute\<close> has read the initial
  delay and before it has made the timer, or while it makes it, is not represented.
\<close>

subsection \<open>State and interfaces\<close>

text \<open>\<open>librarian\<close>: the update library as the autoupdater sees it.\<close>

record 'w librarian =
  lib_Available :: "autoupdatableBinary \<Rightarrow> string \<Rightarrow> 'w \<Rightarrow> 'w \<times> bool"
  lib_AddToLibrary :: "autoupdatableBinary \<Rightarrow> string \<Rightarrow> string \<Rightarrow> TargetFileMeta \<Rightarrow> 'w \<Rightarrow> 'w \<times> error option"
  lib_TidyLibrary :: "autoupdatableBinary \<Rightarrow> string \<Rightarrow> 'w \<Rightarrow> 'w"

record 'w tuf_world =
  w_now :: "'w \<Rightarrow> int"
  w_Update :: "'w \<Rightarrow> 'w \<times> error option"
  w_Targets :: "'w \<Rightarrow> error + TargetFiles"
  w_Int63n :: "int \<Rightarrow> 'w \<Rightarrow> 'w \<times> int"
  w_launcherVersion :: "'w \<Rightarrow> string"
  w_LatestInstanceStats :: "'w \<Rightarrow> (error + (string \<times> string) list) option"
  w_osqueryVersionOutput :: "'w \<Rightarrow> error + string"
  w_UpdateChannel :: "'w \<Rightarrow> string"
  w_PinnedLauncherVersion :: "'w \<Rightarrow> string"
  w_PinnedOsquerydVersion :: "'w \<Rightarrow> string"
  w_LocalDevelopmentPath :: "'w \<Rightarrow> string"
  w_AutoupdateInitialDelay :: "'w \<Rightarrow> int"
  w_AutoupdateInterval :: "'w \<Rightarrow> int"
  w_AutoupdateDownloadSplay :: "'w \<Rightarrow> int"
  w_InModernStandby :: "'w \<Rightarrow> bool"
  w_restartOsqueryd :: "('w \<Rightarrow> 'w \<times> error option) option"
  w_lib :: "'w librarian"
  w_ext :: ulm_ext
  w_dec :: custom_decoder

text \<open>
  \<open>initialDelayTimer\<close>: \<open>None\<close> before \<open>Execute\<close> makes it; then its deadline and whether it is still to
  fire.  \<open>checkTicker\<close> holds its interval.  \<open>signalRestart\<close> is the content of the restart channel.
\<close>

record TufAutoupdater =
  updateChannel :: string
  pinnedVersions :: "(autoupdatableBinary \<times> string) list"
  initialDelayStart :: int
  initialDelayEnd :: int
  initialDelayTimer :: "(int \<times> bool) option"
  checkTicker :: "int option"
  ta_interrupt :: nat
  interrupted :: bool
  signalRestart :: "error list"
  calculatedSplayDelay :: int
  pendingRestartLauncherVersion :: string
  pendingRestartOsquerydVersion :: string

definition NewLauncherReloadNeededErr :: "string \<Rightarrow> error" where
  "NewLauncherReloadNeededErr launcherVersion =
     ErrNew (''need to reload launcher: new version '' @ launcherVersion @ '' downloaded'')"

definition NewTufAutoupdater :: "'w tuf_world \<Rightarrow> 'w \<Rightarrow> TufAutoupdater" where
  "NewTufAutoupdater env w =
     \<lparr>updateChannel = w_UpdateChannel env w,
      pinnedVersions = [(binaryLauncher, w_PinnedLauncherVersion env w), (binaryOsqueryd, w_PinnedOsquerydVersion env w)],
      initialDelayStart = w_now env w, initialDelayEnd = w_now env w + w_AutoupdateInitialDelay env w,
      initialDelayTimer = None, checkTicker = None, ta_interrupt = 0, interrupted = False, signalRestart = [],
      calculatedSplayDelay = 0, pendingRestartLauncherVersion = '''', pendingRestartOsquerydVersion = ''''\<rparr>"

subsection \<open>Running versions\<close>

text \<open>The last part of \<open>strings.SplitAfter(s, "version")\<close>, when there are at least two.\<close>

function after_version :: "string \<Rightarrow> string option" where
  "after_version s =
     (case Cut s ''version'' of
        None \<Rightarrow> None
      | Some (before, after) \<Rightarrow>
          (case after_version after of None \<Rightarrow> Some after | Some t \<Rightarrow> Some t))"
  by pat_completeness auto
termination
  by (relation "measure length") (auto dest!: Cut_Some)

declare after_version.simps [simp del]

definition osqueryd_output_version :: "string \<Rightarrow> error + string" where
  "osqueryd_output_version out =
     (case after_version (TrimSpace out) of
        None \<Rightarrow> Inl (ErrNew ''malformed osqueryd version output'')
      | Some part \<Rightarrow> Inr (TrimSpace part))"

definition history_version :: "(error + (string \<times> string) list) option \<Rightarrow> string" where
  "history_version history =
     (case history of
        Some (Inr stats) \<Rightarrow> (case map_of stats ''version'' of None \<Rightarrow> '''' | Some v \<Rightarrow> v)
      | _ \<Rightarrow> '''')"

fun currentRunningVersion :: "'w tuf_world \<Rightarrow> autoupdatableBinary \<Rightarrow> 'w \<Rightarrow> error + string" where
  "currentRunningVersion env binaryLauncher w =
     (if w_launcherVersion env w = ''unknown'' then Inl (ErrNew ''unknown launcher version'')
      else Inr (w_launcherVersion env w))"
| "currentRunningVersion env binaryOsqueryd w =
     (if history_version (w_LatestInstanceStats env w) \<noteq> ''''
      then Inr (history_version (w_LatestInstanceStats env w))
      else (case w_osqueryVersionOutput env w of
              Inl err \<Rightarrow> Inl (ErrWrap ''running runsimple to query for osqueryd version'' err)
            | Inr out \<Rightarrow> osqueryd_output_version out))"

fun tidyLibrary :: "'w tuf_world \<Rightarrow> autoupdatableBinary list \<Rightarrow> 'w \<Rightarrow> 'w" where
  "tidyLibrary env [] w = w"
| "tidyLibrary env (binary # bs) w =
     (case currentRunningVersion env binary w of
        Inl err \<Rightarrow> tidyLibrary env bs w
      | Inr currentVersion \<Rightarrow> tidyLibrary env bs (lib_TidyLibrary (w_lib env) binary currentVersion w))"

subsection \<open>Delaying downloads\<close>

definition ns_per_sec :: int where
  "ns_per_sec = 1000000000"

definition getSplayDelaySeconds :: "'w tuf_world \<Rightarrow> TufAutoupdater \<Rightarrow> 'w \<Rightarrow> TufAutoupdater \<times> 'w \<times> int" where
  "getSplayDelaySeconds env ta w =
     (if calculatedSplayDelay ta \<noteq> 0 then (ta, w, calculatedSplayDelay ta)
      else let maxSplayValue = w_AutoupdateDownloadSplay env w div ns_per_sec
           in if maxSplayValue = 0 then (ta, w, 0)
              else (case w_Int63n env maxSplayValue w of
                      (w', r) \<Rightarrow> (ta\<lparr>calculatedSplayDelay := r + 1\<rparr>, w', r + 1)))"

definition shouldDelayDownload ::
  "'w tuf_world \<Rightarrow> nat list \<Rightarrow> autoupdatableBinary \<Rightarrow> TargetFiles \<Rightarrow> TufAutoupdater \<Rightarrow> 'w \<Rightarrow> TufAutoupdater \<times> 'w \<times> bool" where
  "shouldDelayDownload env seed binary targets ta w =
     (if w_AutoupdateDownloadSplay env w = 0 then (ta, w, False)
      else let releasePromotedAt = findReleasePromoteTime (w_ext env) (w_dec env) seed binary targets (updateChannel ta)
           in if releasePromotedAt = 0 then (ta, w, False)
              else if w_now env w - releasePromotedAt * ns_per_sec > w_AutoupdateDownloadSplay env w then (ta, w, False)
              else (case getSplayDelaySeconds env ta w of
                      (ta', w', splayDelaySeconds) \<Rightarrow>
                        (ta', w', w_now env w' < (releasePromotedAt + splayDelaySeconds) * ns_per_sec)))"

subsection \<open>Checking for updates\<close>

text \<open>\<open>downloadUpdate\<close> returns the target that is ready to run, or the empty string.\<close>

definition downloadUpdate ::
  "'w tuf_world \<Rightarrow> nat list \<Rightarrow> nat list \<Rightarrow> autoupdatableBinary \<Rightarrow> TargetFiles \<Rightarrow> bool \<Rightarrow> TufAutoupdater \<Rightarrow> 'w \<Rightarrow>
   TufAutoupdater \<times> 'w \<times> (error + string)" where
  "downloadUpdate env seed1 seed2 binary targets allowDelay ta w =
     (case findTarget (w_ext env) (w_dec env) seed1 seed2 binary targets
             (case map_of (pinnedVersions ta) binary of None \<Rightarrow> '''' | Some v \<Rightarrow> v) (updateChannel ta) of
        Inl err \<Rightarrow> (ta, w, Inl (ErrWrap ''could not find appropriate target'' err))
      | Inr (target, targetMetadata) \<Rightarrow>
          let currentVersion = (case currentRunningVersion env binary w of Inl _ \<Rightarrow> '''' | Inr v \<Rightarrow> v)
          in if currentVersion = versionFromTarget binary target then (ta, w, Inr '''')
             else (case lib_Available (w_lib env) binary target w of
                 (w1, True) \<Rightarrow>
                   if currentVersion = '''' then (ta, w1, Inr '''')
                   else if binary = binaryLauncher \<and> w_LocalDevelopmentPath env w1 \<noteq> '''' then (ta, w1, Inr '''')
                   else (ta, w1, Inr target)
               | (w1, False) \<Rightarrow>
                   (case (if allowDelay then shouldDelayDownload env seed1 binary targets ta w1 else (ta, w1, False)) of
                      (ta2, w2, delay) \<Rightarrow>
                        if delay then (ta2, w2, Inr '''')
                        else (case lib_AddToLibrary (w_lib env) binary currentVersion target targetMetadata w2 of
                                (w3, Some err) \<Rightarrow> (ta2, w3, Inl (ErrWrap ''could not add target to library'' err))
                              | (w3, None) \<Rightarrow> (ta2, w3, Inr target)))))"

fun Update_tries :: "nat \<Rightarrow> 'w tuf_world \<Rightarrow> 'w \<Rightarrow> 'w \<times> bool" where
  "Update_tries 0 env w = (w, False)"
| "Update_tries (Suc n) env w =
     (case w_Update env w of
        (w', None) \<Rightarrow> (w', True)
      | (w', Some err) \<Rightarrow> Update_tries n env w')"

text \<open>The downloads of the binaries in turn: the versions ready to run, and the errors.\<close>

fun download_all ::
  "'w tuf_world \<Rightarrow> nat list \<Rightarrow> nat list \<Rightarrow> TargetFiles \<Rightarrow> bool \<Rightarrow> autoupdatableBinary list \<Rightarrow> TufAutoupdater \<Rightarrow> 'w \<Rightarrow>
   (autoupdatableBinary \<times> string) list \<Rightarrow> error list \<Rightarrow>
   TufAutoupdater \<times> 'w \<times> (autoupdatableBinary \<times> string) list \<times> error list" where
  "download_all env seed1 seed2 targets allowDelay [] ta w updatesDownloaded updateErrors =
     (ta, w, updatesDownloaded, updateErrors)"
| "download_all env seed1 seed2 targets allowDelay (binary # bs) ta w updatesDownloaded updateErrors =
     (case downloadUpdate env seed1 seed2 binary targets allowDelay ta w of
        (ta', w', Inl err) \<Rightarrow>
          download_all env seed1 seed2 targets allowDelay bs ta' w' updatesDownloaded
            (updateErrors @ [ErrWrap ''could not download update'' err])
      | (ta', w', Inr version) \<Rightarrow>
          download_all env seed1 seed2 targets allowDelay bs ta' w'
            (if version \<noteq> '''' then AList.update binary (versionFromTarget binary version) updatesDownloaded
             else updatesDownloaded) updateErrors)"

text \<open>The channel of restart signals holds ten; a send to a full channel blocks.\<close>

definition send_restart :: "error \<Rightarrow> TufAutoupdater \<Rightarrow> TufAutoupdater option" where
  "send_restart err ta =
     (if length (signalRestart ta) < 10 then Some (ta\<lparr>signalRestart := signalRestart ta @ [err]\<rparr>) else None)"

definition restart_osqueryd :: "'w tuf_world \<Rightarrow> 'w \<Rightarrow> 'w" where
  "restart_osqueryd env w = (case w_restartOsqueryd env of None \<Rightarrow> w | Some restart \<Rightarrow> fst (restart w))"

text \<open>
  The end of \<open>checkForUpdate\<close>: restart, or record the restart as pending.  Besides launcher there is
  only osqueryd in the map of downloads.
\<close>

definition finish_check ::
  "'w tuf_world \<Rightarrow> bool \<Rightarrow> (autoupdatableBinary \<times> string) list \<Rightarrow> TufAutoupdater \<Rightarrow> 'w \<Rightarrow> (TufAutoupdater \<times> 'w) option" where
  "finish_check env bypassInitialDelay updatesDownloaded ta w =
     (let inInitialDelay = (\<not> bypassInitialDelay \<and> w_now env w < initialDelayEnd ta)
      in if map_of updatesDownloaded binaryLauncher \<noteq> None \<and> w_LocalDevelopmentPath env w = ''''
         then let updatedVersion = the (map_of updatesDownloaded binaryLauncher)
              in if inInitialDelay then Some (ta\<lparr>pendingRestartLauncherVersion := updatedVersion\<rparr>, w)
                 else map_option (\<lambda>ta'. (ta', w)) (send_restart (NewLauncherReloadNeededErr updatedVersion) ta)
         else (case map_of updatesDownloaded binaryOsqueryd of
                 None \<Rightarrow> Some (ta, w)
               | Some newBinaryVersion \<Rightarrow>
                   if inInitialDelay then Some (ta\<lparr>pendingRestartOsquerydVersion := newBinaryVersion\<rparr>, w)
                   else Some (ta, restart_osqueryd env w)))"

definition checkForUpdate ::
  "'w tuf_world \<Rightarrow> nat list \<Rightarrow> nat list \<Rightarrow> autoupdatableBinary list \<Rightarrow> bool \<Rightarrow> bool \<Rightarrow> TufAutoupdater \<Rightarrow> 'w \<Rightarrow>
   (TufAutoupdater \<times> 'w \<times> error option) option" where
  "checkForUpdate env seed1 seed2 binariesToCheck allowSplayDelay bypassInitialDelay ta w =
     (if w_InModernStandby env w then Some (ta, w, None)
      else case Update_tries 3 env w of
          (w1, False) \<Rightarrow> Some (ta, w1, Some (ErrNew ''could not update metadata after 3 tries''))
        | (w1, True) \<Rightarrow>
            (case w_Targets env w1 of
               Inl err \<Rightarrow> Some (ta, w1, Some (ErrWrap ''could not get complete list of targets'' err))
             | Inr targets \<Rightarrow>
                 (case download_all env seed1 seed2 targets allowSplayDelay binariesToCheck ta w1 [] [] of
                    (ta2, w2, updatesDownloaded, updateErrors) \<Rightarrow>
                      if length updateErrors > 0 then Some (ta2, w2, Some (ErrNew ''could not download updates''))
                      else map_option (\<lambda>(ta3, w3). (ta3, w3, None))
                             (finish_check env bypassInitialDelay updatesDownloaded ta2 w2))))"

subsection \<open>Requests, flag changes and the run loop\<close>

record controlServerAutoupdateRequest =
  BinariesToUpdate :: "string list"
  BypassInitialDelay :: bool

definition autoupdatableBinaryMap :: "string \<Rightarrow> autoupdatableBinary option" where
  "autoupdatableBinaryMap name =
     (if name = ''launcher'' then Some binaryLauncher else if name = ''osqueryd'' then Some binaryOsqueryd else None)"

text \<open>\<open>None\<close> as request: the data could not be decoded.\<close>

definition ta_Do ::
  "'w tuf_world \<Rightarrow> nat list \<Rightarrow> nat list \<Rightarrow> controlServerAutoupdateRequest option \<Rightarrow> TufAutoupdater \<Rightarrow> 'w \<Rightarrow>
   (TufAutoupdater \<times> 'w \<times> error option) option" where
  "ta_Do env seed1 seed2 request ta w =
     (case request of
        None \<Rightarrow> Some (ta, w, None)
      | Some updateRequest \<Rightarrow>
          if w_now env w < initialDelayEnd ta \<and> \<not> BypassInitialDelay updateRequest then Some (ta, w, None)
          else let binariesToUpdate = List.map_filter autoupdatableBinaryMap (BinariesToUpdate updateRequest)
               in if length binariesToUpdate = 0 then Some (ta, w, None)
                  else map_option (\<lambda>(ta', w', err). (ta', w', map_option (ErrWrap ''could not check for update'') err))
                         (checkForUpdate env seed1 seed2 binariesToUpdate False (BypassInitialDelay updateRequest) ta w))"

datatype update_flag = AutoupdateDownloadSplay | AutoupdateInitialDelay | AutoupdateInterval | OtherUpdateFlag

definition initial_delay_changed :: "'w tuf_world \<Rightarrow> 'w \<Rightarrow> TufAutoupdater \<Rightarrow> TufAutoupdater" where
  "initial_delay_changed env w ta =
     (if w_now env w < initialDelayEnd ta
      then let newDelayEnd = initialDelayStart ta + w_AutoupdateInitialDelay env w
           in ta\<lparr>initialDelayEnd := newDelayEnd,
                 initialDelayTimer := map_option (\<lambda>_. (newDelayEnd, True)) (initialDelayTimer ta)\<rparr>
      else ta)"

definition pinned_getter :: "'w tuf_world \<Rightarrow> autoupdatableBinary \<Rightarrow> 'w \<Rightarrow> string" where
  "pinned_getter env binary w =
     (case binary of
        binaryLauncher \<Rightarrow> w_PinnedLauncherVersion env w
      | binaryOsqueryd \<Rightarrow> w_PinnedOsquerydVersion env w)"

fun pinned_changes ::
  "'w tuf_world \<Rightarrow> 'w \<Rightarrow> (autoupdatableBinary \<times> string) list \<Rightarrow> TufAutoupdater \<Rightarrow> autoupdatableBinary list \<Rightarrow>
   TufAutoupdater \<times> autoupdatableBinary list" where
  "pinned_changes env w [] ta toCheck = (ta, toCheck)"
| "pinned_changes env w ((binary, currentPinnedVersion) # rest) ta toCheck =
     (let newPinnedVersion = pinned_getter env binary w
      in if currentPinnedVersion \<noteq> newPinnedVersion
         then pinned_changes env w rest (ta\<lparr>pinnedVersions := AList.update binary newPinnedVersion (pinnedVersions ta)\<rparr>)
                (if binary \<in> set toCheck then toCheck else toCheck @ [binary])
         else pinned_changes env w rest ta toCheck)"

definition ta_FlagsChanged ::
  "'w tuf_world \<Rightarrow> nat list \<Rightarrow> nat list \<Rightarrow> nat list \<Rightarrow> update_flag list \<Rightarrow> TufAutoupdater \<Rightarrow> 'w \<Rightarrow> (TufAutoupdater \<times> 'w) option" where
  "ta_FlagsChanged env seed seed1 seed2 flagKeys ta w =
     (let ta1 = (if AutoupdateDownloadSplay \<in> set flagKeys then ta\<lparr>calculatedSplayDelay := 0\<rparr> else ta);
          ta2 = (if AutoupdateInitialDelay \<in> set flagKeys then initial_delay_changed env w ta1 else ta1);
          autoupdateIntervalChanged = (AutoupdateInterval \<in> set flagKeys \<and> checkTicker ta2 \<noteq> None);
          ta3 = (if autoupdateIntervalChanged then ta2\<lparr>checkTicker := Some (w_AutoupdateInterval env w)\<rparr> else ta2);
          channelChanged = (updateChannel ta3 \<noteq> w_UpdateChannel env w);
          ta4 = ta3\<lparr>updateChannel := w_UpdateChannel env w\<rparr>;
          (ta5, binariesToCheckForUpdate) =
            pinned_changes env w (go_range seed (pinnedVersions ta4)) ta4
              (if channelChanged then [binaryLauncher, binaryOsqueryd] else [])
      in if length binariesToCheckForUpdate = 0 \<and> \<not> autoupdateIntervalChanged then Some (ta5, w)
         else if w_now env w < initialDelayEnd ta5 then Some (ta5, w)
         else map_option (\<lambda>(ta', w', err). (ta', w'))
                (checkForUpdate env seed1 seed2
                   (if length binariesToCheckForUpdate = 0 then binaries else binariesToCheckForUpdate) False False ta5 w))"

definition ta_Interrupt :: "TufAutoupdater \<Rightarrow> TufAutoupdater" where
  "ta_Interrupt ta =
     (if interrupted ta then ta else ta\<lparr>interrupted := True, ta_interrupt := Suc (ta_interrupt ta)\<rparr>)"

definition restartIfPending :: "'w tuf_world \<Rightarrow> TufAutoupdater \<Rightarrow> 'w \<Rightarrow> TufAutoupdater \<times> 'w \<times> error option" where
  "restartIfPending env ta w =
     (if pendingRestartLauncherVersion ta \<noteq> ''''
      then (ta\<lparr>pendingRestartLauncherVersion := ''''\<rparr>, w, Some (NewLauncherReloadNeededErr (pendingRestartLauncherVersion ta)))
      else if pendingRestartOsquerydVersion ta \<noteq> ''''
      then (case w_restartOsqueryd env of
              None \<Rightarrow> (ta, w, None)
            | Some restart \<Rightarrow> (ta\<lparr>pendingRestartOsquerydVersion := ''''\<rparr>, fst (restart w), None))
      else (ta, w, None))"

definition Execute_start :: "'w tuf_world \<Rightarrow> TufAutoupdater \<Rightarrow> 'w \<Rightarrow> TufAutoupdater \<times> 'w" where
  "Execute_start env ta w =
     (let w' = tidyLibrary env binaries w
      in (ta\<lparr>checkTicker := Some (w_AutoupdateInterval env w'), initialDelayTimer := Some (initialDelayEnd ta, True)\<rparr>, w'))"

text \<open>
  The states of the run loop: before it starts, about to check, waiting in the \<open>select\<close>, and
  returned.  Between the steps of the loop other routines call \<open>Do\<close>, \<open>FlagsChanged\<close> and
  \<open>Interrupt\<close>, and the rest of the world moves on, with a clock that does not go back.
\<close>

datatype phase = NotStarted | Checking | Waiting | Returned "error option"

datatype exec_event =
    EvStart
  | EvCheck "nat list" "nat list"
  | EvInterrupted
  | EvRestartSignal
  | EvTimer
  | EvTick
  | EvRequest "nat list" "nat list" "controlServerAutoupdateRequest option"
  | EvFlags "nat list" "nat list" "nat list" "update_flag list"
  | EvInterrupt
  | EvOutside

type_synonym 'w exec_state = "phase \<times> TufAutoupdater \<times> 'w"

inductive exec_step :: "'w tuf_world \<Rightarrow> exec_event \<Rightarrow> 'w exec_state \<Rightarrow> 'w exec_state \<Rightarrow> bool" for env where
  start: "Execute_start env ta w = (ta', w') \<Longrightarrow> exec_step env EvStart (NotStarted, ta, w) (Checking, ta', w')"
| check: "checkForUpdate env seed1 seed2 binaries True False ta w = Some (ta', w', err) \<Longrightarrow>
    exec_step env (EvCheck seed1 seed2) (Checking, ta, w) (Waiting, ta', w')"
| recv_interrupt: "ta_interrupt ta = Suc n \<Longrightarrow>
    exec_step env EvInterrupted (Waiting, ta, w) (Returned None, ta\<lparr>ta_interrupt := n\<rparr>, w)"
| recv_restart: "signalRestart ta = err # errs \<Longrightarrow>
    exec_step env EvRestartSignal (Waiting, ta, w) (Returned (Some err), ta\<lparr>signalRestart := errs\<rparr>, w)"
| timer: "initialDelayTimer ta = Some (deadline, True) \<Longrightarrow> deadline \<le> w_now env w \<Longrightarrow>
    restartIfPending env (ta\<lparr>initialDelayTimer := Some (deadline, False)\<rparr>) w = (ta', w', err) \<Longrightarrow>
    exec_step env EvTimer (Waiting, ta, w) (if err = None then Checking else Returned err, ta', w')"
| tick: "exec_step env EvTick (Waiting, ta, w) (Checking, ta, w)"
| request: "ta_Do env seed1 seed2 req ta w = Some (ta', w', err) \<Longrightarrow>
    exec_step env (EvRequest seed1 seed2 req) (ph, ta, w) (ph, ta', w')"
| flags: "ta_FlagsChanged env seed seed1 seed2 ks ta w = Some (ta', w') \<Longrightarrow>
    exec_step env (EvFlags seed seed1 seed2 ks) (ph, ta, w) (ph, ta', w')"
| interrupt: "exec_step env EvInterrupt (ph, ta, w) (ph, ta_Interrupt ta, w)"
| outside: "w_now env w \<le> w_now env w' \<Longrightarrow> exec_step env EvOutside (ph, ta, w) (ph, ta, w')"

inductive exec_run :: "'w tuf_world \<Rightarrow> exec_event list \<Rightarrow> 'w exec_state \<Rightarrow> 'w exec_state \<Rightarrow> bool" for env where
  nil: "exec_run env [] s s"
| snoc: "exec_run env es s t \<Longrightarrow> exec_step env e t u \<Longrightarrow> exec_run env (es @ [e]) s u"

inductive_cases exec_stepE: "exec_step env e (ph, ta, w) (ph', ta', w')"

text \<open>A request that asks to ignore the initial delay.\<close>

fun bypasses :: "exec_event \<Rightarrow> bool" where
  "bypasses (EvRequest _ _ (Some req)) = BypassInitialDelay req"
| "bypasses _ = False"


subsection \<open>What the operations change\<close>

text \<open>Downloading changes nothing of the state but the chosen splay delay.\<close>

lemma getSplayDelaySeconds_ta:
  "getSplayDelaySeconds env ta w = (ta', w', d) \<Longrightarrow> ta' = ta\<lparr>calculatedSplayDelay := calculatedSplayDelay ta'\<rparr>"
  by (auto simp: getSplayDelaySeconds_def Let_def split: if_splits prod.splits)

lemma shouldDelayDownload_ta:
  "shouldDelayDownload env seed b targets ta w = (ta', w', d) \<Longrightarrow> ta' = ta\<lparr>calculatedSplayDelay := calculatedSplayDelay ta'\<rparr>"
  using getSplayDelaySeconds_ta[of env ta w]
  by (cases "getSplayDelaySeconds env ta w") (auto simp: shouldDelayDownload_def Let_def split: if_splits)

lemma downloadUpdate_ta:
  assumes "downloadUpdate env seed1 seed2 b targets allow ta w = (ta', w', r)"
  shows "ta' = ta\<lparr>calculatedSplayDelay := calculatedSplayDelay ta'\<rparr>"
proof (cases "findTarget (w_ext env) (w_dec env) seed1 seed2 b targets
             (case map_of (pinnedVersions ta) b of None \<Rightarrow> '''' | Some v \<Rightarrow> v) (updateChannel ta)")
  case (Inr p)
  obtain target meta where p: "p = (target, meta)" by (cases p)
  obtain w1 av where a: "lib_Available (w_lib env) b target w = (w1, av)" by (cases "lib_Available (w_lib env) b target w")
  obtain ta2 w2 d where d: "(if allow then shouldDelayDownload env seed1 b targets ta w1 else (ta, w1, False)) = (ta2, w2, d)"
    by (metis prod_cases3)
  have "ta2 = ta\<lparr>calculatedSplayDelay := calculatedSplayDelay ta2\<rparr>"
    using d shouldDelayDownload_ta by (cases allow) auto
  moreover have "ta' = ta \<or> ta' = ta2"
    using assms unfolding downloadUpdate_def Inr p Let_def using a d
    by (auto split: if_splits prod.splits bool.splits option.splits)
  ultimately show ?thesis by auto
qed (use assms in \<open>simp add: downloadUpdate_def\<close>)

lemma splay_trans:
  fixes ta1 ta2 ta3 :: TufAutoupdater
  assumes "ta2 = ta1\<lparr>calculatedSplayDelay := a\<rparr>" "ta3 = ta2\<lparr>calculatedSplayDelay := b\<rparr>"
  shows "ta3 = ta1\<lparr>calculatedSplayDelay := calculatedSplayDelay ta3\<rparr>"
  using assms by simp

lemma download_all_ta:
  "download_all env seed1 seed2 targets allow bs ta w ups errs = (ta', w', ups', errs') \<Longrightarrow>
   ta' = ta\<lparr>calculatedSplayDelay := calculatedSplayDelay ta'\<rparr>"
proof (induction bs arbitrary: ta w ups errs)
  case (Cons b bs)
  obtain ta1 w1 r where d: "downloadUpdate env seed1 seed2 b targets allow ta w = (ta1, w1, r)"
    by (metis prod_cases3)
  obtain ups1 errs1 where "download_all env seed1 seed2 targets allow bs ta1 w1 ups1 errs1 = (ta', w', ups', errs')"
    using Cons.prems d by (cases r) auto
  from splay_trans[OF downloadUpdate_ta[OF d] Cons.IH[OF this]] show ?case .
qed simp

text \<open>
  What a routine may do to the state: it moves the end of the delay, and the timer with it, only during
  the delay; it signals a restart only after the delay, unless it may bypass it; and it defers a
  restart only during the delay.
\<close>

definition routine :: "'w tuf_world \<Rightarrow> bool \<Rightarrow> TufAutoupdater \<Rightarrow> 'w \<Rightarrow> TufAutoupdater \<Rightarrow> 'w \<Rightarrow> bool" where
  "routine env bypass ta w ta' w' \<longleftrightarrow>
     w_now env w \<le> w_now env w' \<and>
     ((initialDelayEnd ta' = initialDelayEnd ta \<and> initialDelayTimer ta' = initialDelayTimer ta) \<or>
      (w_now env w < initialDelayEnd ta \<and>
       initialDelayTimer ta' = map_option (\<lambda>_. (initialDelayEnd ta', True)) (initialDelayTimer ta))) \<and>
     (signalRestart ta' = signalRestart ta \<or> bypass \<or> initialDelayEnd ta' \<le> w_now env w') \<and>
     (pendingRestartLauncherVersion ta' = pendingRestartLauncherVersion ta \<or> w_now env w < initialDelayEnd ta')"

subsection \<open>Worlds whose clock does not go back\<close>

locale update_world =
  fixes env :: "'w tuf_world"
  assumes now_Update: "w_now env w \<le> w_now env (fst (w_Update env w))"
    and now_Int63n: "w_now env w \<le> w_now env (fst (w_Int63n env n w))"
    and now_Available: "w_now env w \<le> w_now env (fst (lib_Available (w_lib env) b t w))"
    and now_AddToLibrary: "w_now env w \<le> w_now env (fst (lib_AddToLibrary (w_lib env) b c t m w))"
    and now_TidyLibrary: "w_now env w \<le> w_now env (lib_TidyLibrary (w_lib env) b c w)"
    and now_restart: "w_restartOsqueryd env = Some restart \<Longrightarrow> w_now env w \<le> w_now env (fst (restart w))"
begin

lemma now_Update_tries: "Update_tries n env w = (w', b) \<Longrightarrow> w_now env w \<le> w_now env w'"
proof (induction n arbitrary: w)
  case (Suc n)
  obtain w1 e where u: "w_Update env w = (w1, e)" by (cases "w_Update env w")
  have "w_now env w \<le> w_now env w1" using now_Update[of w] u by simp
  with Suc u show ?case by (cases e) force+
qed simp

lemma now_splay: "getSplayDelaySeconds env ta w = (ta', w', d) \<Longrightarrow> w_now env w \<le> w_now env w'"
  using now_Int63n[of w "w_AutoupdateDownloadSplay env w div ns_per_sec"]
  by (auto simp: getSplayDelaySeconds_def Let_def split: if_splits prod.splits)

lemma now_delay: "shouldDelayDownload env seed b targets ta w = (ta', w', d) \<Longrightarrow> w_now env w \<le> w_now env w'"
  by (auto simp: shouldDelayDownload_def Let_def split: if_splits prod.splits dest: now_splay)

lemma now_tidy: "w_now env w \<le> w_now env (tidyLibrary env bs w)"
proof (induction bs arbitrary: w)
  case (Cons b bs)
  show ?case
  proof (cases "currentRunningVersion env b w")
    case (Inr v)
    with now_TidyLibrary[of w b v] Cons[of "lib_TidyLibrary (w_lib env) b v w"] show ?thesis by simp
  qed (use Cons in simp)
qed simp

lemma now_downloadUpdate:
  assumes "downloadUpdate env seed1 seed2 b targets allow ta w = (ta', w', r)"
  shows "w_now env w \<le> w_now env w'"
proof (cases "findTarget (w_ext env) (w_dec env) seed1 seed2 b targets
             (case map_of (pinnedVersions ta) b of None \<Rightarrow> '''' | Some v \<Rightarrow> v) (updateChannel ta)")
  case (Inr p)
  obtain target meta where p: "p = (target, meta)" by (cases p)
  obtain w1 av where a: "lib_Available (w_lib env) b target w = (w1, av)" by (cases "lib_Available (w_lib env) b target w")
  obtain ta2 w2 d where d: "(if allow then shouldDelayDownload env seed1 b targets ta w1 else (ta, w1, False)) = (ta2, w2, d)"
    by (metis prod_cases3)
  have 1: "w_now env w \<le> w_now env w1" using now_Available[of w b target] a by simp
  have 2: "w_now env w1 \<le> w_now env w2" using d now_delay by (auto split: if_splits)
  have 3: "w_now env w2 \<le> w_now env w3" if "lib_AddToLibrary (w_lib env) b c target meta w2 = (w3, e)" for c w3 e
    using now_AddToLibrary[of w2 b c target meta] that by simp
  from assms have "w' \<in> {w, w1, w2} \<or> (\<exists>c e. lib_AddToLibrary (w_lib env) b c target meta w2 = (w', e))"
    unfolding downloadUpdate_def Inr p Let_def using a d
    by (auto split: if_splits prod.splits bool.splits option.splits)
  with 1 2 3 show ?thesis by force
qed (use assms in \<open>simp add: downloadUpdate_def\<close>)

lemma now_download_all:
  "download_all env seed1 seed2 targets allow bs ta w ups errs = (ta', w', ups', errs') \<Longrightarrow> w_now env w \<le> w_now env w'"
proof (induction bs arbitrary: ta w ups errs)
  case (Cons b bs)
  obtain ta1 w1 r where d: "downloadUpdate env seed1 seed2 b targets allow ta w = (ta1, w1, r)"
    by (metis prod_cases3)
  obtain ups1 errs1 where "download_all env seed1 seed2 targets allow bs ta1 w1 ups1 errs1 = (ta', w', ups', errs')"
    using Cons.prems d by (cases r) auto
  with Cons.IH now_downloadUpdate[OF d] order_trans show ?case by blast
qed simp

lemma routine_same:
  "initialDelayEnd ta' = initialDelayEnd ta \<Longrightarrow> initialDelayTimer ta' = initialDelayTimer ta \<Longrightarrow>
   signalRestart ta' = signalRestart ta \<Longrightarrow> pendingRestartLauncherVersion ta' = pendingRestartLauncherVersion ta \<Longrightarrow>
   w_now env w \<le> w_now env w' \<Longrightarrow> routine env bypass ta w ta' w'"
  by (simp add: routine_def)

lemma routine_splay:
  "ta' = ta\<lparr>calculatedSplayDelay := a\<rparr> \<Longrightarrow> w_now env w \<le> w_now env w' \<Longrightarrow> routine env bypass ta w ta' w'"
  by (intro routine_same) simp_all

lemma now_restart_osqueryd: "w_now env w \<le> w_now env (restart_osqueryd env w)"
  using now_restart by (auto simp: restart_osqueryd_def split: option.splits)

lemma finish_check_routine:
  assumes "finish_check env bypass ups ta w = Some (ta', w')"
  shows "routine env bypass ta w ta' w'"
  using assms now_restart_osqueryd[of w] unfolding finish_check_def Let_def send_restart_def
  by (auto simp: routine_def split: if_splits option.splits)

lemma routine_before:
  assumes "routine env bypass ta w1 ta' w'" "w_now env w \<le> w_now env w1"
  shows "routine env bypass ta w ta' w'"
  using assms unfolding routine_def by auto

lemma routine_splay_before:
  assumes "ta1 = ta\<lparr>calculatedSplayDelay := a\<rparr>" "routine env bypass ta1 w ta' w'"
  shows "routine env bypass ta w ta' w'"
  using assms unfolding routine_def by auto

lemma checkForUpdate_routine:
  assumes "checkForUpdate env seed1 seed2 bs allow bypass ta w = Some (ta', w', err)"
  shows "routine env bypass ta w ta' w'"
proof (cases "w_InModernStandby env w")
  case True
  with assms show ?thesis by (auto simp: checkForUpdate_def routine_def)
next
  case False
  obtain w1 ok where u: "Update_tries 3 env w = (w1, ok)" by (cases "Update_tries 3 env w")
  note n1 = now_Update_tries[OF u]
  show ?thesis
  proof (cases "ok \<and> (\<exists>targets. w_Targets env w1 = Inr targets)")
    case False
    with assms \<open>\<not> w_InModernStandby env w\<close> u n1 show ?thesis
      by (cases ok) (auto simp: checkForUpdate_def routine_def split: sum.splits)
  next
    case True
    then obtain targets where t: "ok" "w_Targets env w1 = Inr targets" by blast
    obtain ta2 w2 ups errs where d: "download_all env seed1 seed2 targets allow bs ta w1 [] [] = (ta2, w2, ups, errs)"
      by (metis prod_cases4)
    note s2 = download_all_ta[OF d] and n2 = order_trans[OF n1 now_download_all[OF d]]
    show ?thesis
    proof (cases "errs = []")
      case True
      then have "finish_check env bypass ups ta2 w2 = Some (ta', w')"
        using assms \<open>\<not> w_InModernStandby env w\<close> u t d by (auto simp: checkForUpdate_def)
      from routine_before[OF routine_splay_before[OF s2 finish_check_routine[OF this]] n2] show ?thesis .
    next
      case False
      then have "ta' = ta2 \<and> w' = w2"
        using assms \<open>\<not> w_InModernStandby env w\<close> u t d by (auto simp: checkForUpdate_def)
      with routine_splay[OF s2 n2] show ?thesis by simp
    qed
  qed
qed

lemma ta_Do_routine:
  assumes "ta_Do env seed1 seed2 req ta w = Some (ta', w', err)"
  shows "routine env (bypasses (EvRequest seed1 seed2 req)) ta w ta' w'"
  using assms
  by (cases req) (auto simp: ta_Do_def Let_def routine_same split: if_splits dest!: checkForUpdate_routine)

lemma pinned_changes_ta:
  "pinned_changes env w ps ta bs = (ta', bs') \<Longrightarrow> ta' = ta\<lparr>pinnedVersions := pinnedVersions ta'\<rparr>"
proof (induction env w ps ta bs rule: pinned_changes.induct)
  case (2 env w b cur rest ta bs)
  let ?ta = "ta\<lparr>pinnedVersions := AList.update b (pinned_getter env b w) (pinnedVersions ta)\<rparr>"
  show ?case
  proof (cases "cur = pinned_getter env b w")
    case True
    with 2 show ?thesis by (simp add: Let_def)
  next
    case False
    then have "ta' = ?ta\<lparr>pinnedVersions := pinnedVersions ta'\<rparr>"
      using 2(1)[OF refl False] 2(3) by (simp add: Let_def)
    then show ?thesis by simp
  qed
qed simp

lemma ta_FlagsChanged_routine:
  assumes "ta_FlagsChanged env seed seed1 seed2 ks ta w = Some (ta', w')"
  shows "routine env False ta w ta' w'"
proof -
  define ta1 where "ta1 = (if AutoupdateDownloadSplay \<in> set ks then ta\<lparr>calculatedSplayDelay := 0\<rparr> else ta)"
  define ta2 where "ta2 = (if AutoupdateInitialDelay \<in> set ks then initial_delay_changed env w ta1 else ta1)"
  define ic where "ic = (AutoupdateInterval \<in> set ks \<and> checkTicker ta2 \<noteq> None)"
  define ta4 where "ta4 = (if ic then ta2\<lparr>checkTicker := Some (w_AutoupdateInterval env w)\<rparr> else ta2)\<lparr>updateChannel := w_UpdateChannel env w\<rparr>"
  obtain ta5 bs where p: "pinned_changes env w (go_range seed (pinnedVersions ta4)) ta4
      (if updateChannel (if ic then ta2\<lparr>checkTicker := Some (w_AutoupdateInterval env w)\<rparr> else ta2) \<noteq> w_UpdateChannel env w
       then [binaryLauncher, binaryOsqueryd] else []) = (ta5, bs)"
    by (cases "pinned_changes env w (go_range seed (pinnedVersions ta4)) ta4
      (if updateChannel (if ic then ta2\<lparr>checkTicker := Some (w_AutoupdateInterval env w)\<rparr> else ta2) \<noteq> w_UpdateChannel env w
       then [binaryLauncher, binaryOsqueryd] else [])")
  have r5: "routine env False ta w ta5 w" and sig: "signalRestart ta5 = signalRestart ta"
    and pend: "pendingRestartLauncherVersion ta5 = pendingRestartLauncherVersion ta"
    by (subst pinned_changes_ta[OF p], simp add: routine_def ta4_def ta2_def ta1_def initial_delay_changed_def Let_def)+
  consider "ta' = ta5" "w' = w"
    | err where "initialDelayEnd ta5 \<le> w_now env w" "checkForUpdate env seed1 seed2 (if length bs = 0 then binaries else bs) False False ta5 w = Some (ta', w', err)"
    using assms p unfolding ta_FlagsChanged_def Let_def ta1_def[symmetric] ta2_def[symmetric] ic_def[symmetric] ta4_def[symmetric]
    by (auto split: if_splits)
  then show ?thesis
  proof cases
    case 2
    from checkForUpdate_routine[OF 2(2)] 2(1) r5 sig pend show ?thesis unfolding routine_def by auto
  qed (use r5 in simp)
qed

end

text \<open>
  What holds of the state in every run.  The timer of a running loop is armed for the end of the delay,
  or the delay is over; a pending restart of launcher has the timer armed; and when no request bypassed
  the delay, neither a restart signal nor a return with an error comes before its end.
\<close>

definition timer_ok :: "'w tuf_world \<Rightarrow> 'w exec_state \<Rightarrow> bool" where
  "timer_ok env s = (case s of (ph, ta, w) \<Rightarrow>
     (case initialDelayTimer ta of
        None \<Rightarrow> ph = NotStarted
      | Some (d, armed) \<Rightarrow> ph \<noteq> NotStarted \<and> (if armed then d = initialDelayEnd ta else initialDelayEnd ta \<le> w_now env w)))"

definition pending_ok :: "'w exec_state \<Rightarrow> bool" where
  "pending_ok s = (case s of (ph, ta, w) \<Rightarrow>
     ph \<in> {Checking, Waiting} \<longrightarrow> pendingRestartLauncherVersion ta \<noteq> '''' \<longrightarrow>
     initialDelayTimer ta = Some (initialDelayEnd ta, True))"

definition not_early :: "'w tuf_world \<Rightarrow> 'w exec_state \<Rightarrow> bool" where
  "not_early env s = (case s of (ph, ta, w) \<Rightarrow>
     signalRestart ta \<noteq> [] \<or> (\<exists>e. ph = Returned (Some e)) \<longrightarrow> initialDelayEnd ta \<le> w_now env w)"

lemmas exec_inv_defs = timer_ok_def pending_ok_def not_early_def

lemma new_autoupdater_inv:
  "timer_ok env (NotStarted, NewTufAutoupdater env w, w)" "pending_ok (NotStarted, NewTufAutoupdater env w, w)"
  "not_early env (NotStarted, NewTufAutoupdater env w, w)"
  by (simp_all add: exec_inv_defs NewTufAutoupdater_def)

lemma routine_timer_ok: "routine env bypass ta w ta' w' \<Longrightarrow> timer_ok env (ph, ta, w) \<Longrightarrow> timer_ok env (ph, ta', w')"
  unfolding routine_def timer_ok_def by (auto split: option.splits if_splits)

lemma routine_pending_ok:
  "routine env bypass ta w ta' w' \<Longrightarrow> timer_ok env (ph, ta, w) \<Longrightarrow> pending_ok (ph, ta, w) \<Longrightarrow> pending_ok (ph, ta', w')"
  unfolding routine_def timer_ok_def pending_ok_def by (auto split: option.splits if_splits)

lemma routine_not_early: "routine env False ta w ta' w' \<Longrightarrow> not_early env (ph, ta, w) \<Longrightarrow> not_early env (ph, ta', w')"
  unfolding routine_def not_early_def by (auto split: option.splits if_splits)

context update_world
begin

lemma now_restartIfPending: "restartIfPending env ta w = (ta', w', err) \<Longrightarrow> w_now env w \<le> w_now env w'"
  using now_restart by (fastforce simp: restartIfPending_def split: if_splits option.splits)

lemma restartIfPending_ta:
  "restartIfPending env ta w = (ta', w', err) \<Longrightarrow> pendingRestartLauncherVersion ta' = '''' \<and>
     initialDelayEnd ta' = initialDelayEnd ta \<and> initialDelayTimer ta' = initialDelayTimer ta \<and> signalRestart ta' = signalRestart ta"
  by (auto simp: restartIfPending_def split: if_splits option.splits)

lemma exec_step_timer_ok:
  assumes "exec_step env e s s'" "timer_ok env s"
  shows "timer_ok env s'"
  using assms
proof cases
  case (start ta w ta' w')
  then show ?thesis by (auto simp: timer_ok_def Execute_start_def Let_def)
next
  case (check seed1 seed2 ta w ta' w' err)
  from routine_timer_ok[OF checkForUpdate_routine[OF check(4)], of Waiting] assms(2) check show ?thesis
    by (simp add: timer_ok_def split: option.splits prod.splits)
next
  case (timer ta deadline w ta' w' err)
  with restartIfPending_ta[OF timer(6)] now_restartIfPending[OF timer(6)] assms(2) show ?thesis
    by (auto simp: timer_ok_def)
next
  case (request seed1 seed2 req ta w ta' w' err ph)
  with routine_timer_ok[OF ta_Do_routine[OF request(4)]] assms(2) show ?thesis by simp
next
  case (flags seed seed1 seed2 ks ta w ta' w' ph)
  with routine_timer_ok[OF ta_FlagsChanged_routine[OF flags(4)]] assms(2) show ?thesis by simp
qed (auto simp: timer_ok_def ta_Interrupt_def split: option.splits if_splits)

lemma exec_step_pending_ok:
  assumes "exec_step env e s s'" "timer_ok env s" "pending_ok s"
  shows "pending_ok s'"
  using assms
proof cases
  case (start ta w ta' w')
  then show ?thesis by (auto simp: pending_ok_def Execute_start_def Let_def)
next
  case (check seed1 seed2 ta w ta' w' err)
  from routine_pending_ok[OF checkForUpdate_routine[OF check(4)], of Checking] assms(2,3) check show ?thesis
    by (simp add: pending_ok_def)
next
  case (timer ta deadline w ta' w' err)
  with restartIfPending_ta[OF timer(6)] show ?thesis by (simp add: pending_ok_def)
next
  case (request seed1 seed2 req ta w ta' w' err ph)
  with routine_pending_ok[OF ta_Do_routine[OF request(4)]] assms(2,3) show ?thesis by simp
next
  case (flags seed seed1 seed2 ks ta w ta' w' ph)
  with routine_pending_ok[OF ta_FlagsChanged_routine[OF flags(4)]] assms(2,3) show ?thesis by simp
qed (auto simp: pending_ok_def ta_Interrupt_def)

lemma exec_step_not_early:
  assumes "exec_step env e s s'" "timer_ok env s" "not_early env s" "\<not> bypasses e"
  shows "not_early env s'"
  using assms
proof cases
  case (start ta w ta' w')
  then show ?thesis using now_tidy[of w binaries] assms(3) by (auto simp: not_early_def Execute_start_def Let_def)
next
  case (check seed1 seed2 ta w ta' w' err)
  from routine_not_early[OF checkForUpdate_routine[OF check(4)], of Waiting] assms(3) check show ?thesis
    by (simp add: not_early_def)
next
  case (timer ta deadline w ta' w' err)
  with restartIfPending_ta[OF timer(6)] now_restartIfPending[OF timer(6)] assms(2) show ?thesis
    by (auto simp: not_early_def timer_ok_def)
next
  case (request seed1 seed2 req ta w ta' w' err ph)
  with ta_Do_routine[OF request(4)] assms(4) have "routine env False ta w ta' w'" by simp
  from routine_not_early[OF this] request assms(3) show ?thesis by simp
next
  case (flags seed seed1 seed2 ks ta w ta' w' ph)
  with routine_not_early[OF ta_FlagsChanged_routine[OF flags(4)]] assms(3) show ?thesis by simp
qed (auto simp: not_early_def ta_Interrupt_def)

lemma exec_run_inv:
  assumes "exec_run env es s s'" "timer_ok env s" "pending_ok s"
  shows "timer_ok env s' \<and> pending_ok s'"
  using assms by induction (auto dest: exec_step_timer_ok exec_step_pending_ok)

lemma exec_run_not_early:
  assumes "exec_run env es s s'" "timer_ok env s" "pending_ok s" "not_early env s" "list_all (\<lambda>e. \<not> bypasses e) es"
  shows "not_early env s'"
  using assms
proof induction
  case (snoc es s t e u)
  then have "timer_ok env t" using exec_run_inv by blast
  with snoc exec_step_not_early show ?case by simp
qed

lemma no_early_restart:
  assumes "exec_run env es (NotStarted, NewTufAutoupdater env w0, w0) (Returned (Some err), ta, w)"
    and "list_all (\<lambda>e. \<not> bypasses e) es"
  shows "initialDelayEnd ta \<le> w_now env w"
  using exec_run_not_early[OF assms(1) new_autoupdater_inv assms(2)] by (simp add: not_early_def)

text \<open>A pending restart is carried out at the end of the delay.\<close>

lemma pending_restart_enabled:
  assumes "exec_run env es (NotStarted, NewTufAutoupdater env w0, w0) (Waiting, ta, w)"
    and "pendingRestartLauncherVersion ta \<noteq> ''''" and "w_now env w \<le> w_now env w'" and "initialDelayEnd ta \<le> w_now env w'"
  shows "\<exists>ta'. exec_run env (es @ [EvOutside, EvTimer]) (NotStarted, NewTufAutoupdater env w0, w0)
            (Returned (Some (NewLauncherReloadNeededErr (pendingRestartLauncherVersion ta))), ta', w')"
proof -
  have t: "initialDelayTimer ta = Some (initialDelayEnd ta, True)"
    using exec_run_inv[OF assms(1) new_autoupdater_inv(1,2)] assms(2) by (simp add: pending_ok_def)
  obtain ta' where r: "restartIfPending env (ta\<lparr>initialDelayTimer := Some (initialDelayEnd ta, False)\<rparr>) w' =
      (ta', w', Some (NewLauncherReloadNeededErr (pendingRestartLauncherVersion ta)))"
    using assms(2) by (simp add: restartIfPending_def)
  have "exec_run env ((es @ [EvOutside]) @ [EvTimer]) (NotStarted, NewTufAutoupdater env w0, w0)
      (if Some (NewLauncherReloadNeededErr (pendingRestartLauncherVersion ta)) = None then Checking
       else Returned (Some (NewLauncherReloadNeededErr (pendingRestartLauncherVersion ta))), ta', w')"
    by (rule exec_run.snoc[OF exec_run.snoc[OF assms(1) exec_step.outside[OF assms(3)]] exec_step.timer[OF t assms(4) r]])
  then show ?thesis by auto
qed

end

subsection \<open>The end of the delay\<close>

text \<open>Only a change of the flag for the initial delay moves its end.\<close>

fun changes_delay :: "exec_event \<Rightarrow> bool" where
  "changes_delay (EvFlags _ _ _ ks) \<longleftrightarrow> AutoupdateInitialDelay \<in> set ks"
| "changes_delay _ \<longleftrightarrow> False"

lemma finish_check_end: "finish_check env bypass ups ta w = Some (ta', w') \<Longrightarrow> initialDelayEnd ta' = initialDelayEnd ta"
  by (auto simp: finish_check_def send_restart_def Let_def split: if_splits option.splits)

lemma checkForUpdate_end:
  assumes "checkForUpdate env seed1 seed2 bs allow bypass ta w = Some (ta', w', err)"
  shows "initialDelayEnd ta' = initialDelayEnd ta"
proof -
  consider "ta' = ta"
    | targets w1 ta2 w2 ups errs where "download_all env seed1 seed2 targets allow bs ta w1 [] [] = (ta2, w2, ups, errs)"
        "ta' = ta2 \<or> finish_check env bypass ups ta2 w2 = Some (ta', w')"
    using assms by (auto simp: checkForUpdate_def split: if_splits prod.splits bool.splits sum.splits)
  then show ?thesis
  proof cases
    case 2
    from download_all_ta[OF 2(1)] have "initialDelayEnd ta2 = initialDelayEnd ta"
      by (metis TufAutoupdater.select_convs(4) TufAutoupdater.surjective TufAutoupdater.update_convs(10))
    with 2(2) finish_check_end show ?thesis by fastforce
  qed simp
qed

lemma ta_Do_end: "ta_Do env seed1 seed2 req ta w = Some (ta', w', err) \<Longrightarrow> initialDelayEnd ta' = initialDelayEnd ta"
  by (auto simp: ta_Do_def Let_def split: if_splits option.splits dest: checkForUpdate_end)

lemma pinned_changes_end: "pinned_changes env w ps ta bs = (ta', bs') \<Longrightarrow> initialDelayEnd ta' = initialDelayEnd ta"
  by (induction env w ps ta bs rule: pinned_changes.induct) (auto simp: Let_def split: if_splits)

lemma ta_FlagsChanged_end:
  assumes "ta_FlagsChanged env seed seed1 seed2 ks ta w = Some (ta', w')" "AutoupdateInitialDelay \<notin> set ks"
  shows "initialDelayEnd ta' = initialDelayEnd ta"
  using assms unfolding ta_FlagsChanged_def Let_def
  by (auto split: if_splits prod.splits dest!: checkForUpdate_end pinned_changes_end)

lemma exec_step_end:
  assumes "exec_step env e (ph, ta, w) (ph', ta', w')" "\<not> changes_delay e"
  shows "initialDelayEnd ta' = initialDelayEnd ta"
  using assms
proof cases
  case (timer deadline err)
  then show ?thesis by (auto simp: restartIfPending_def split: if_splits option.splits)
qed (auto simp: Execute_start_def Let_def ta_Interrupt_def dest: checkForUpdate_end ta_Do_end ta_FlagsChanged_end)

lemma exec_run_end:
  assumes "exec_run env es (ph, ta, w) (ph', ta', w')" "list_all (\<lambda>e. \<not> changes_delay e) es"
  shows "initialDelayEnd ta' = initialDelayEnd ta"
  using assms
proof (induction es "(ph, ta, w)" "(ph', ta', w')" arbitrary: ph' ta' w' rule: exec_run.induct)
  case (snoc es t e)
  obtain ph1 ta1 w1 where t: "t = (ph1, ta1, w1)" by (metis prod_cases3)
  with snoc have "initialDelayEnd ta1 = initialDelayEnd ta" by simp
  with exec_step_end[of env e ph1 ta1 w1 ph' ta' w'] snoc t show ?case by simp
qed simp

subsection \<open>The autoupdater on the update library\<close>

text \<open>
  A host: its file system, its clock, and the rest of the world.  \<open>host_env\<close> puts the library of this
  host behind the autoupdater; \<open>out\<close> is the outside for the rest of the world, and every call takes
  the time \<open>took\<close> says.
\<close>

record 'o host =
  host_fs :: filesys
  host_now :: int
  host_rest :: 'o

definition host_does :: "('o \<Rightarrow> nat) \<Rightarrow> filesys \<Rightarrow> 'o \<Rightarrow> 'o host \<Rightarrow> 'o host" where
  "host_does took fs rest h = \<lparr>host_fs = fs, host_now = host_now h + int (took (host_rest h)), host_rest = rest\<rparr>"

definition host_library ::
  "('o \<Rightarrow> nat) \<Rightarrow> ulm_ext \<Rightarrow> 'v semver_lib \<Rightarrow> updateLibraryManager \<Rightarrow> retries \<Rightarrow> 'o host librarian" where
  "host_library took x sv ulm rt =
     \<lparr>lib_Available = (\<lambda>b target h.
        case Available x ulm b target (host_fs h) of (fs, found) \<Rightarrow> (host_does took fs (host_rest h) h, found)),
      lib_AddToLibrary = (\<lambda>b current target meta h.
        case AddToLibrary x ulm rt (host_now h div 1000) ((host_now h + int (took (host_rest h))) div 1000)
               b current target meta (host_fs h) of
          (fs, err) \<Rightarrow> (host_does took fs (host_rest h) h, err)),
      lib_TidyLibrary = (\<lambda>b current h. host_does took (TidyLibrary x sv ulm b current (host_fs h)) (host_rest h) h)\<rparr>"

definition host_env ::
  "('o \<Rightarrow> nat) \<Rightarrow> ulm_ext \<Rightarrow> 'v semver_lib \<Rightarrow> updateLibraryManager \<Rightarrow> retries \<Rightarrow> 'o tuf_world \<Rightarrow> 'o host tuf_world" where
  "host_env took x sv ulm rt out =
     \<lparr>w_now = host_now,
      w_Update = (\<lambda>h. case w_Update out (host_rest h) of (r, err) \<Rightarrow> (host_does took (host_fs h) r h, err)),
      w_Targets = (\<lambda>h. w_Targets out (host_rest h)),
      w_Int63n = (\<lambda>n h. case w_Int63n out n (host_rest h) of (r, i) \<Rightarrow> (host_does took (host_fs h) r h, i)),
      w_launcherVersion = (\<lambda>h. w_launcherVersion out (host_rest h)),
      w_LatestInstanceStats = (\<lambda>h. w_LatestInstanceStats out (host_rest h)),
      w_osqueryVersionOutput = (\<lambda>h. w_osqueryVersionOutput out (host_rest h)),
      w_UpdateChannel = (\<lambda>h. w_UpdateChannel out (host_rest h)),
      w_PinnedLauncherVersion = (\<lambda>h. w_PinnedLauncherVersion out (host_rest h)),
      w_PinnedOsquerydVersion = (\<lambda>h. w_PinnedOsquerydVersion out (host_rest h)),
      w_LocalDevelopmentPath = (\<lambda>h. w_LocalDevelopmentPath out (host_rest h)),
      w_AutoupdateInitialDelay = (\<lambda>h. w_AutoupdateInitialDelay out (host_rest h)),
      w_AutoupdateInterval = (\<lambda>h. w_AutoupdateInterval out (host_rest h)),
      w_AutoupdateDownloadSplay = (\<lambda>h. w_AutoupdateDownloadSplay out (host_rest h)),
      w_InModernStandby = (\<lambda>h. w_InModernStandby out (host_rest h)),
      w_restartOsqueryd = map_option (\<lambda>restart h. case restart (host_rest h) of (r, err) \<Rightarrow> (host_does took (host_fs h) r h, err))
        (w_restartOsqueryd out),
      w_lib = host_library took x sv ulm rt,
      w_ext = x,
      w_dec = w_dec out\<rparr>"

interpretation host: update_world "host_env took x sv ulm rt out"
  by unfold_locales (auto simp: host_env_def host_library_def host_does_def split: prod.splits)

lemma host_env_now [simp]: "w_now (host_env took x sv ulm rt out) = host_now"
  by (simp add: host_env_def)

text \<open>C3: launcher is not restarted by an update during the initial delay: when the run loop of the
  autoupdater returns a reload, in any interleaving with requests that do not bypass the delay, flag
  changes and interrupts, the end of the delay has passed; and unless the flag for it changed, that end
  is the configured delay after the autoupdater was made.\<close>

theorem autoupdate_no_early_restart:
  assumes "exec_run (host_env took x sv ulm rt out) es
      (NotStarted, NewTufAutoupdater (host_env took x sv ulm rt out) w0, w0) (Returned (Some err), ta, w)"
    and "list_all (\<lambda>e. \<not> bypasses e) es"
  shows "initialDelayEnd ta \<le> host_now w \<and>
    (list_all (\<lambda>e. \<not> changes_delay e) es \<longrightarrow>
       host_now w0 + w_AutoupdateInitialDelay out (host_rest w0) \<le> host_now w)"
proof -
  have le: "initialDelayEnd ta \<le> host_now w" using host.no_early_restart[OF assms] by simp
  moreover have "initialDelayEnd ta = host_now w0 + w_AutoupdateInitialDelay out (host_rest w0)"
    if "list_all (\<lambda>e. \<not> changes_delay e) es"
    using exec_run_end[OF assms(1) that] by (simp add: NewTufAutoupdater_def) (simp add: host_env_def)
  ultimately show ?thesis by metis
qed

text \<open>C34: a launcher restart deferred during the initial delay is not lost: from every state in which the
  run loop waits with a pending restart, when the clock has reached the end of the delay the loop can
  return the reload to that version.\<close>

theorem autoupdate_pending_restart_happens:
  assumes "exec_run (host_env took x sv ulm rt out) es
      (NotStarted, NewTufAutoupdater (host_env took x sv ulm rt out) w0, w0) (Waiting, ta, w)"
    and "pendingRestartLauncherVersion ta \<noteq> ''''" and "host_now w \<le> host_now w'" and "initialDelayEnd ta \<le> host_now w'"
  shows "\<exists>ta'. exec_run (host_env took x sv ulm rt out) (es @ [EvOutside, EvTimer])
      (NotStarted, NewTufAutoupdater (host_env took x sv ulm rt out) w0, w0)
      (Returned (Some (NewLauncherReloadNeededErr (pendingRestartLauncherVersion ta))), ta', w')"
  using host.pending_restart_enabled[OF assms(1,2)] assms(3,4) by simp

definition example_host_fs :: filesys where
  "example_host_fs = \<lparr>nodes =
     [(''/u'', FDir 0x1ED), (''/u/launcher'', FDir 0x1ED),
      (''/u/launcher/2'', FDir 0x1ED), (''/u/launcher/2/launcher'', FFile 0x1ED [1])],
     umask = 0, faults = [], denied = [], ticks = 0\<rparr>"

text \<open>An outside with launcher 2 released and pinned, in the library and not yet running.\<close>

definition example_outside :: "int \<Rightarrow> unit tuf_world" where
  "example_outside delay =
     \<lparr>w_now = (\<lambda>_. 0), w_Update = (\<lambda>_. ((), None)),
      w_Targets = (\<lambda>_. Inr [(''launcher/linux/amd64/launcher-2.tar.gz'', \<lparr>tf_Length = 1, tf_Hashes = [], tf_Custom = None\<rparr>),
                          (''osqueryd/linux/amd64/osqueryd-1.tar.gz'', \<lparr>tf_Length = 1, tf_Hashes = [], tf_Custom = None\<rparr>)]),
      w_Int63n = (\<lambda>_ _. ((), 0)), w_launcherVersion = (\<lambda>_. ''1''),
      w_LatestInstanceStats = (\<lambda>_. Some (Inr [(''version'', ''1'')])), w_osqueryVersionOutput = (\<lambda>_. Inr ''''),
      w_UpdateChannel = (\<lambda>_. ''stable''), w_PinnedLauncherVersion = (\<lambda>_. ''2''), w_PinnedOsquerydVersion = (\<lambda>_. ''1''),
      w_LocalDevelopmentPath = (\<lambda>_. ''''), w_AutoupdateInitialDelay = (\<lambda>_. delay), w_AutoupdateInterval = (\<lambda>_. 60),
      w_AutoupdateDownloadSplay = (\<lambda>_. 0), w_InModernStandby = (\<lambda>_. False), w_restartOsqueryd = None,
      w_lib = \<lparr>lib_Available = (\<lambda>_ _ _. ((), False)), lib_AddToLibrary = (\<lambda>_ _ _ _ _. ((), None)), lib_TidyLibrary = (\<lambda>_ _ _. ())\<rparr>,
      w_ext = example_ext, w_dec = (\<lambda>_. Inl (ErrNew ''json''))\<rparr>"

definition example_env :: "int \<Rightarrow> unit host tuf_world" where
  "example_env delay = host_env (\<lambda>_. 5) example_ext example_semver example_ulm
     \<lparr>retry_cleanup = 0, retry_check = 0, retry_rename = 0, retry_download_cleanup = 0\<rparr> (example_outside delay)"

definition example_host :: "unit host" where
  "example_host = \<lparr>host_fs = example_host_fs, host_now = 100, host_rest = ()\<rparr>"

text \<open>The state after the loop has started and checked once.\<close>

definition example_checked :: "int \<Rightarrow> (TufAutoupdater \<times> unit host \<times> error option) option" where
  "example_checked delay =
     (let (ta, w) = Execute_start (example_env delay) (NewTufAutoupdater (example_env delay) example_host) example_host
      in checkForUpdate (example_env delay) [] [] binaries True False ta w)"

lemma example_checked_run:
  assumes "example_checked delay = Some (ta, w, err)"
  shows "exec_run (example_env delay) [EvStart, EvCheck [] []]
    (NotStarted, NewTufAutoupdater (example_env delay) example_host, example_host) (Waiting, ta, w)"
proof -
  obtain ta1 w1 where s: "Execute_start (example_env delay) (NewTufAutoupdater (example_env delay) example_host) example_host = (ta1, w1)"
    by (metis surj_pair)
  with assms have c: "checkForUpdate (example_env delay) [] [] binaries True False ta1 w1 = Some (ta, w, err)"
    by (simp add: example_checked_def)
  from exec_run.snoc[OF exec_run.snoc[OF exec_run.nil exec_step.start[OF s]] exec_step.check[OF c]] show ?thesis by simp
qed

theorem autoupdate_no_early_restart_witness:
  "\<exists>ta w err. exec_run (example_env 3) [EvStart, EvCheck [] [], EvRestartSignal]
      (NotStarted, NewTufAutoupdater (example_env 3) example_host, example_host) (Returned (Some err), ta, w) \<and>
    103 \<le> host_now w"
proof -
  have "example_checked 3 \<noteq> None" by code_simp
  then obtain ta w err where c: "example_checked 3 = Some (ta, w, err)" by (metis not_None_eq prod_cases3)
  have "map_option (\<lambda>(ta, w, err). signalRestart ta) (example_checked 3) = Some [NewLauncherReloadNeededErr ''2'']" by code_simp
  then have "signalRestart ta = NewLauncherReloadNeededErr ''2'' # []" using c by simp
  from exec_run.snoc[OF example_checked_run[OF c] exec_step.recv_restart[OF this]]
  have r: "exec_run (example_env 3) [EvStart, EvCheck [] [], EvRestartSignal]
      (NotStarted, NewTufAutoupdater (example_env 3) example_host, example_host)
      (Returned (Some (NewLauncherReloadNeededErr ''2'')), ta\<lparr>signalRestart := []\<rparr>, w)" by simp
  have "host_now example_host + w_AutoupdateInitialDelay (example_outside 3) (host_rest example_host) = 103"
    by (simp add: example_host_def example_outside_def)
  with autoupdate_no_early_restart[OF r[unfolded example_env_def]] have "103 \<le> host_now w" by simp
  with r show ?thesis by blast
qed

theorem autoupdate_pending_restart_happens_witness:
  "\<exists>ta' w'. exec_run (example_env 60) [EvStart, EvCheck [] [], EvOutside, EvTimer]
      (NotStarted, NewTufAutoupdater (example_env 60) example_host, example_host)
      (Returned (Some (NewLauncherReloadNeededErr ''2'')), ta', w')"
proof -
  have "example_checked 60 \<noteq> None" by code_simp
  then obtain ta w err where c: "example_checked 60 = Some (ta, w, err)" by (metis not_None_eq prod_cases3)
  have "map_option (\<lambda>(ta, w, err). pendingRestartLauncherVersion ta) (example_checked 60) = Some ''2''" by code_simp
  then have p: "pendingRestartLauncherVersion ta = ''2''" using c by simp
  let ?w = "w\<lparr>host_now := max (host_now w) (initialDelayEnd ta)\<rparr>"
  have "pendingRestartLauncherVersion ta \<noteq> ''''" "host_now w \<le> host_now ?w" "initialDelayEnd ta \<le> host_now ?w" using p by simp_all
  from autoupdate_pending_restart_happens[OF example_checked_run[OF c, unfolded example_env_def] this]
  show ?thesis unfolding p example_env_def by auto
qed

end
