(* ===== verification/Jsonc.thy ===== *)
theory Jsonc
  imports Go_Strings
begin

text \<open>
  JSON with comments, \<open>ee/dataflatten/jsonc.go\<close>: \<open>jsoncToJson\<close> removes comments and trailing commas
  byte by byte.  It is compared with a reference that works on tokens, and two inputs with comments it
  does not read as comments are given.
\<close>

subsection \<open>The code\<close>

text \<open>The output is kept in reverse: its head is the last byte written.\<close>

definition unescaped_quote :: "string \<Rightarrow> bool" where
  "unescaped_quote out =
     (case out of
        [] \<Rightarrow> True
      | b # _ \<Rightarrow> if b \<noteq> CHR 0x5C then True
                 else even (length (takeWhile (\<lambda>c. c = CHR 0x5C) out)))"

text \<open>After \<open>//\<close>: the end of line that ends the comment and what follows it.\<close>

fun skip_line :: "string \<Rightarrow> (char \<times> string) option" where
  "skip_line [] = None"
| "skip_line (c # rest) = (if c = CHR 0x0A \<or> c = CHR 0x0D then Some (c, rest) else skip_line rest)"

text \<open>After \<open>/*\<close>: an error, or the byte after the comment, if there is one, and what follows it.\<close>

fun skip_block :: "string \<Rightarrow> error + (char \<times> string) option" where
  "skip_block [] = Inl (ErrNew ''reading and discarding multi-line comment'')"
| "skip_block (c # rest) =
     (if c \<noteq> CHR ''*'' then skip_block rest
      else case rest of
          [] \<Rightarrow> Inl (ErrNew ''reading and discarding multi-line comment after *'')
        | d # rest' \<Rightarrow>
            if d = CHR ''/'' then (case rest' of [] \<Rightarrow> Inr None | e # rest'' \<Rightarrow> Inr (Some (e, rest'')))
            else skip_block rest')"

definition is_jsonc_space :: "char \<Rightarrow> bool" where
  "is_jsonc_space c \<longleftrightarrow> c \<in> {CHR '' '', CHR 0x0D, CHR 0x0A, CHR 0x09}"

fun blank_comma :: "string \<Rightarrow> string" where
  "blank_comma [] = []"
| "blank_comma (c # out) =
     (if is_jsonc_space c then c # blank_comma out
      else if c \<noteq> CHR '','' then c # out
      else CHR '' '' # out)"

definition emit :: "bool \<Rightarrow> char \<Rightarrow> string \<Rightarrow> string" where
  "emit insideString c out =
     c # (if \<not> insideString \<and> (c = CHR '']'' \<or> c = CHR ''}'') then blank_comma out else out)"

lemma skip_line_shorter: "skip_line s = Some (c, r) \<Longrightarrow> length r < length s"
  by (induction s) (auto split: if_splits)

lemma skip_block_shorter: "skip_block s = Inr (Some (c, r)) \<Longrightarrow> length r < length s"
  by (induction s rule: skip_block.induct) (auto split: if_splits list.splits)

function jsonc_loop :: "string \<Rightarrow> string \<Rightarrow> bool \<Rightarrow> error + string" where
  "jsonc_loop [] out insideString = Inr (rev out)"
| "jsonc_loop (c # rest) out insideString =
     (let inside = (if c = CHR 0x22 \<and> unescaped_quote out then \<not> insideString else insideString)
      in if \<not> inside \<and> c = CHR ''/'' then
           (case rest of
              [] \<Rightarrow> Inl (ErrNew ''peeking ahead'')
            | next # _ \<Rightarrow>
                if next = CHR ''/'' then
                  (case skip_line rest of
                     None \<Rightarrow> Inr (rev out)
                   | Some (d, rest') \<Rightarrow> jsonc_loop rest' (emit inside d out) inside)
                else if next = CHR ''*'' then
                  (case skip_block (tl rest) of
                     Inl err \<Rightarrow> Inl err
                   | Inr None \<Rightarrow> Inr (rev out)
                   | Inr (Some (d, rest')) \<Rightarrow> jsonc_loop rest' (emit inside d out) inside)
                else jsonc_loop rest (emit inside c out) inside)
         else jsonc_loop rest (emit inside c out) inside)"
  by pat_completeness auto
termination
  by (relation "measure (\<lambda>(s, _, _). length s)")
    (auto dest: skip_line_shorter skip_block_shorter)

declare jsonc_loop.simps [simp del]

definition jsoncToJson :: "string \<Rightarrow> error + string" where
  "jsoncToJson rawData = jsonc_loop rawData [] False"

subsection \<open>The reference\<close>

text \<open>
  A text as tokens: bytes outside strings, string literals, and comments.  The reference drops the
  comments, keeping the end of a line comment, and blanks a comma when what follows it, apart from
  space and comments, closes an array or object.
\<close>

datatype jsonc_token = Plain char | Str string | LineComment string char | BlockComment string

fun render :: "jsonc_token \<Rightarrow> string" where
  "render (Plain c) = [c]"
| "render (Str s) = [CHR 0x22] @ s @ [CHR 0x22]"
| "render (LineComment s nl) = ''//'' @ s @ [nl]"
| "render (BlockComment s) = ''/*'' @ s @ ''*/''"

fun closes :: "jsonc_token list \<Rightarrow> bool" where
  "closes [] \<longleftrightarrow> False"
| "closes (Plain c # ts) \<longleftrightarrow> c = CHR '']'' \<or> c = CHR ''}'' \<or> (is_jsonc_space c \<and> closes ts)"
| "closes (Str s # ts) \<longleftrightarrow> False"
| "closes (LineComment s nl # ts) \<longleftrightarrow> closes ts"
| "closes (BlockComment s # ts) \<longleftrightarrow> closes ts"

fun strip_tokens :: "jsonc_token list \<Rightarrow> string" where
  "strip_tokens [] = []"
| "strip_tokens (Plain c # ts) = (if c = CHR '','' \<and> closes ts then CHR '' '' else c) # strip_tokens ts"
| "strip_tokens (Str s # ts) = render (Str s) @ strip_tokens ts"
| "strip_tokens (LineComment s nl # ts) = nl # strip_tokens ts"
| "strip_tokens (BlockComment s # ts) = strip_tokens ts"

text \<open>The content of a string literal: every quote is escaped, and no escape is left open.\<close>

fun string_ok :: "string \<Rightarrow> bool" where
  "string_ok [] \<longleftrightarrow> True"
| "string_ok [c] \<longleftrightarrow> c \<noteq> CHR 0x22 \<and> c \<noteq> CHR 0x5C"
| "string_ok (c # d # s) \<longleftrightarrow> (if c = CHR 0x5C then string_ok s else c \<noteq> CHR 0x22 \<and> string_ok (d # s))"

text \<open>
  The content of a block comment: it does not contain the end of a comment.  An asterisk in the content makes
  the code skip a byte, so the asterisks right before the end have to be even in number.
\<close>

definition block_ok :: "string \<Rightarrow> bool" where
  "block_ok s \<longleftrightarrow> \<not> Contains s ''*/'' \<and> even (length (takeWhile (\<lambda>c. c = CHR ''*'') (rev s)))"

fun token_ok :: "jsonc_token \<Rightarrow> bool" where
  "token_ok (Plain c) \<longleftrightarrow> c \<notin> {CHR 0x22, CHR 0x5C, CHR ''/''}"
| "token_ok (Str s) \<longleftrightarrow> string_ok s"
| "token_ok (LineComment s nl) \<longleftrightarrow> list_all (\<lambda>c. c \<noteq> CHR 0x0A \<and> c \<noteq> CHR 0x0D) s \<and> nl \<in> {CHR 0x0A, CHR 0x0D}"
| "token_ok (BlockComment s) \<longleftrightarrow> block_ok s"

text \<open>The code copies the byte after a block comment unread, so a plain byte has to follow it.\<close>

fun tokens_ok :: "jsonc_token list \<Rightarrow> bool" where
  "tokens_ok [] \<longleftrightarrow> True"
| "tokens_ok (BlockComment s # ts) \<longleftrightarrow>
     block_ok s \<and> (case ts of [] \<Rightarrow> True | Plain _ # _ \<Rightarrow> True | _ \<Rightarrow> False) \<and> tokens_ok ts"
| "tokens_ok (t # ts) \<longleftrightarrow> token_ok t \<and> tokens_ok ts"

subsection \<open>The code reads tokens\<close>

abbreviation backslashes :: "string \<Rightarrow> nat" where
  "backslashes out \<equiv> length (takeWhile (\<lambda>c. c = CHR 0x5C) out)"

lemma unescaped_quote_even: "unescaped_quote out \<longleftrightarrow> even (backslashes out)"
  by (auto simp: unescaped_quote_def split: list.splits)

lemma loop_outside:
  "c \<noteq> CHR 0x22 \<Longrightarrow> c \<noteq> CHR ''/'' \<Longrightarrow> jsonc_loop (c # rest) out False = jsonc_loop rest (emit False c out) False"
  by (simp add: jsonc_loop.simps)

lemma loop_inside:
  "c = CHR 0x22 \<Longrightarrow> odd (backslashes out) \<Longrightarrow> jsonc_loop (c # rest) out True = jsonc_loop rest (c # out) True"
  "c \<noteq> CHR 0x22 \<Longrightarrow> jsonc_loop (c # rest) out True = jsonc_loop rest (c # out) True"
  by (simp_all add: jsonc_loop.simps unescaped_quote_even emit_def)

lemma loop_quote:
  "even (backslashes out) \<Longrightarrow> jsonc_loop (CHR 0x22 # rest) out inside = jsonc_loop rest (CHR 0x22 # out) (\<not> inside)"
  by (cases inside) (simp_all add: jsonc_loop.simps unescaped_quote_even emit_def)

lemma loop_string:
  "string_ok s \<Longrightarrow> even (backslashes out) \<Longrightarrow>
   jsonc_loop (s @ CHR 0x22 # rest) out True = jsonc_loop rest (CHR 0x22 # rev s @ out) False"
proof (induction s arbitrary: out rule: string_ok.induct)
  case 1
  then show ?case by (simp add: loop_quote)
next
  case (2 c)
  then show ?case by (simp add: loop_inside loop_quote)
next
  case (3 c d s)
  show ?case
  proof (cases "c = CHR 0x5C")
    case True
    have "jsonc_loop (d # s @ CHR 0x22 # rest) (c # out) True = jsonc_loop (s @ CHR 0x22 # rest) (d # c # out) True"
      using 3(4) True by (cases "d = CHR 0x22") (simp_all add: loop_inside)
    moreover have "even (backslashes (d # c # out))" using 3(4) True by simp
    ultimately show ?thesis using 3(1)[OF True, of "d # c # out"] 3(3) True by (simp add: loop_inside)
  next
    case False
    with 3(2)[OF False, of "c # out"] 3(3) show ?thesis by (simp add: loop_inside)
  qed
qed

lemma skip_line_content:
  "list_all (\<lambda>c. c \<noteq> CHR 0x0A \<and> c \<noteq> CHR 0x0D) s \<Longrightarrow> nl = CHR 0x0A \<or> nl = CHR 0x0D \<Longrightarrow> skip_line (s @ nl # rest) = Some (nl, rest)"
  by (induction s) auto

abbreviation end_stars :: "string \<Rightarrow> nat" where
  "end_stars s \<equiv> length (takeWhile (\<lambda>c. c = CHR ''*'') (rev s))"

lemma end_stars_Cons:
  "end_stars (c # s) = (if list_all (\<lambda>c. c = CHR ''*'') s then length s + (if c = CHR ''*'' then 1 else 0) else end_stars s)"
  by (auto simp: takeWhile_append list_all_iff)

lemma end_stars_all: "list_all (\<lambda>c. c = CHR ''*'') s \<Longrightarrow> end_stars s = length s"
  by (simp add: takeWhile_eq_all_conv[THEN iffD2] list_all_iff)

lemma block_ok_parts:
  "block_ok (c # s) \<Longrightarrow> c \<noteq> CHR ''*'' \<Longrightarrow> block_ok s"
  "block_ok (CHR ''*'' # s) \<Longrightarrow> \<exists>d s'. s = d # s' \<and> d \<noteq> CHR ''/'' \<and> block_ok s'"
proof -
  show "block_ok s" if "block_ok (c # s)" "c \<noteq> CHR ''*''"
  proof -
    have "end_stars (c # s) = end_stars s"
      using that(2) end_stars_all[of s] by (cases "list_all (\<lambda>c. c = CHR ''*'') s") (simp_all only: end_stars_Cons if_True if_False add_0_right)
    with that(1) show ?thesis unfolding block_ok_def by simp
  qed
  assume b: "block_ok (CHR ''*'' # s)"
  then obtain d s' where s: "s = d # s'" by (cases s) (auto simp: block_ok_def)
  have c: "d \<noteq> CHR ''/''" "\<not> Contains s' ''*/''"
    using b by (auto simp: s block_ok_def HasPrefix_iff)
  have "even (end_stars (CHR ''*'' # d # s')) \<longleftrightarrow> even (end_stars s')"
    using end_stars_all[of s'] unfolding end_stars_Cons by (cases "list_all (\<lambda>c. c = CHR ''*'') s'") simp_all
  with b c show "\<exists>d s'. s = d # s' \<and> d \<noteq> CHR ''/'' \<and> block_ok s'" unfolding s block_ok_def by blast
qed

lemma skip_block_content:
  "block_ok s \<Longrightarrow> skip_block (s @ CHR ''*'' # CHR ''/'' # rest) = Inr (case rest of [] \<Rightarrow> None | e # r \<Rightarrow> Some (e, r))"
proof (induction s rule: length_induct)
  case (1 s)
  show ?case
  proof (cases s)
    case Nil
    then show ?thesis by (simp split: list.splits)
  next
    case (Cons c s')
    show ?thesis
    proof (cases "c = CHR ''*''")
      case True
      then obtain d s'' where "s' = d # s''" "d \<noteq> CHR ''/''" "block_ok s''" using block_ok_parts(2) 1(2) Cons by blast
      with 1(1) True Cons show ?thesis by simp
    next
      case False
      with 1 Cons block_ok_parts(1)[of c s'] show ?thesis by simp
    qed
  qed
qed

lemma loop_block:
  assumes "block_ok s"
  shows "jsonc_loop (''/*'' @ s @ ''*/'') out False = Inr (rev out)"
    "c \<noteq> CHR 0x22 \<Longrightarrow> c \<noteq> CHR ''/'' \<Longrightarrow> jsonc_loop (''/*'' @ s @ ''*/'' @ c # rest) out False = jsonc_loop (c # rest) out False"
  using skip_block_content[OF assms] by (simp_all add: jsonc_loop.simps)

lemma loop_line:
  assumes "token_ok (LineComment s nl)"
  shows "jsonc_loop (''//'' @ s @ nl # rest) out False = jsonc_loop rest (emit False nl out) False"
  using skip_line_content[of "CHR ''/'' # s" nl rest] assms by (simp add: jsonc_loop.simps)

text \<open>What a token adds to the output, in reverse.\<close>

fun put_token :: "jsonc_token \<Rightarrow> string \<Rightarrow> string" where
  "put_token (Plain c) out = emit False c out"
| "put_token (Str s) out = CHR 0x22 # rev s @ CHR 0x22 # out"
| "put_token (LineComment s nl) out = emit False nl out"
| "put_token (BlockComment s) out = out"

lemma put_token_end: "token_ok t \<Longrightarrow> backslashes out = 0 \<Longrightarrow> backslashes (put_token t out) = 0"
  by (cases t) (auto simp: emit_def)

lemma loop_tokens:
  "tokens_ok ts \<Longrightarrow> backslashes out = 0 \<Longrightarrow> jsonc_loop (concat (map render ts)) out False = Inr (rev (fold put_token ts out))"
proof (induction ts arbitrary: out)
  case Nil
  then show ?case by (simp add: jsonc_loop.simps)
next
  case (Cons t ts)
  have ts: "tokens_ok ts" "token_ok t" using Cons.prems(1) by (cases t; simp)+
  note IH = Cons.IH[OF ts(1) put_token_end[OF ts(2) Cons.prems(2)]]
  show ?case
  proof (cases t)
    case (Plain c)
    with ts(2) IH show ?thesis by (simp add: loop_outside)
  next
    case (Str s)
    with ts(2) IH Cons.prems(2) show ?thesis by (simp add: loop_quote loop_string)
  next
    case (LineComment s nl)
    with ts(2) IH loop_line[of s nl] show ?thesis by simp
  next
    case (BlockComment s)
    then have s: "block_ok s" using ts(2) by simp
    show ?thesis
    proof (cases ts)
      case Nil
      with loop_block(1)[OF s] BlockComment show ?thesis by simp
    next
      case (Cons u us)
      then obtain c where u: "u = Plain c" using Cons.prems(1) BlockComment by (cases u) auto
      with ts(1) Cons have c: "c \<noteq> CHR 0x22" "c \<noteq> CHR ''/''" by simp_all
      from loop_block(2)[OF s c] IH BlockComment Cons u show ?thesis by simp
    qed
  qed
qed

lemma blank_comma_idem [simp]: "\<not> is_jsonc_space c \<Longrightarrow> c \<noteq> CHR '','' \<Longrightarrow> blank_comma (c # out) = c # out"
  by simp

lemma put_tokens_strip:
  "tokens_ok ts \<Longrightarrow> fold put_token ts out = rev (strip_tokens ts) @ (if closes ts then blank_comma out else out)"
proof (induction ts arbitrary: out)
  case (Cons t ts)
  have ts: "tokens_ok ts" "token_ok t" using Cons.prems by (cases t; simp)+
  from Cons.IH[OF ts(1), of "put_token t out"] ts(2) show ?case
    by (cases t) (auto simp: emit_def is_jsonc_space_def)
qed simp

text \<open>C9: on a text made of tokens, removing comments and trailing commas gives exactly what the reference
  gives: strings are kept as they are, whatever they contain, comments are dropped, and the commas before a
  closing bracket are blanked.  The tokens are bytes other than a quote, a backslash and a slash; strings in
  which every quote is escaped; line comments with the end of their line; and block comments that do not end in an odd
  number of asterisks before the closing one, each followed by such a byte or by the end of the text.\<close>

theorem jsonc_strips_tokens:
  assumes "tokens_ok ts"
  shows "jsoncToJson (concat (map render ts)) = Inr (strip_tokens ts)"
  using loop_tokens[OF assms, of "[]"] put_tokens_strip[OF assms, of "[]"] by (simp add: jsoncToJson_def)

theorem jsonc_strips_tokens_witness:
  "jsoncToJson ([CHR ''['', CHR 0x22] @ ''a//b'' @ [CHR 0x5C, CHR 0x22, CHR 0x22, CHR '',''] @ '' /* c */ ]'') =
   Inr ([CHR ''['', CHR 0x22] @ ''a//b'' @ [CHR 0x5C, CHR 0x22, CHR 0x22, CHR '' ''] @ ''  ]'')"
proof -
  let ?ts = "[Plain (CHR ''[''), Str (''a//b'' @ [CHR 0x5C, CHR 0x22]), Plain (CHR '',''), Plain (CHR '' ''), BlockComment '' c '',
     Plain (CHR '' ''), Plain (CHR '']'')]"
  have "block_ok '' c ''" by code_simp
  then have "tokens_ok ?ts" by simp
  from jsonc_strips_tokens[OF this] show ?thesis by (simp add: is_jsonc_space_def)
qed

text \<open>Some comments are not read as comments: a block comment that ends in two asterisks and a slash
  runs on, here to an error, and a string that directly follows a block comment is not seen as a string, so
  that slashes in it start a comment.\<close>

lemma jsonc_misreads_comments:
  "jsoncToJson ''[1] /***/'' = Inl (ErrNew ''reading and discarding multi-line comment'') \<and>
   jsoncToJson (''/* c */'' @ [CHR 0x22] @ ''http://x'' @ [CHR 0x22]) = Inr ([CHR 0x22] @ ''http:'')"
  by (simp add: jsoncToJson_def jsonc_loop.simps unescaped_quote_def emit_def)

end
