(* ===== verification/DataFlatten.thy ===== *)
theory DataFlatten
  imports Jsonc
begin

text \<open>
  Flattening nested data into rows of a path and a value, with queries that filter and rewrite:
  \<open>ee/dataflatten\<close> (\<open>flatten.go\<close>, \<open>row.go\<close>, \<open>string_delimited.go\<close>, \<open>json.go\<close>, \<open>jsonl.go\<close>, \<open>jsonc.go\<close>,
  \<open>ini.go\<close>, \<open>xml.go\<close>, \<open>toml.go\<close>, \<open>yaml.go\<close>, \<open>plist.go\<close>).

  A value of type \<open>any\<close> is the datatype below; a map is an association list in the order it is ranged
  over, so a statement for all values is one for all orders (a map the code builds itself is in the order
  of its insertions; another order permutes the rows).  The decoders of libraries, the CEL
  prefilter and the formatting of floats are parameters.  Rows are returned instead of appended to the
  flattener, and an error drops them, as \<open>Flatten\<close> does.
\<close>

subsection \<open>Text\<close>

fun cont_bytes :: "nat \<Rightarrow> string \<Rightarrow> string option" where
  "cont_bytes 0 s = Some s"
| "cont_bytes (Suc n) [] = None"
| "cont_bytes (Suc n) (c # s) = (if (of_char c :: nat) \<in> {0x80..0xBF} then cont_bytes n s else None)"

text \<open>The range of the second byte and the number of bytes after it, by the first byte.\<close>

definition utf8_lead :: "nat \<Rightarrow> (nat \<times> nat \<times> nat) option" where
  "utf8_lead b =
     (if 0xC2 \<le> b \<and> b \<le> 0xDF then Some (0x80, 0xBF, 0)
      else if b = 0xE0 then Some (0xA0, 0xBF, 1)
      else if b = 0xED then Some (0x80, 0x9F, 1)
      else if 0xE1 \<le> b \<and> b \<le> 0xEF then Some (0x80, 0xBF, 1)
      else if b = 0xF0 then Some (0x90, 0xBF, 2)
      else if 0xF1 \<le> b \<and> b \<le> 0xF3 then Some (0x80, 0xBF, 2)
      else if b = 0xF4 then Some (0x80, 0x8F, 2)
      else None)"

lemma cont_bytes_length: "cont_bytes n s = Some r \<Longrightarrow> length r \<le> length s"
  by (induction n s rule: cont_bytes.induct) (auto split: if_splits)

function ValidString :: "string \<Rightarrow> bool" where
  "ValidString [] = True"
| "ValidString (c # s) =
     (if (of_char c :: nat) < 0x80 then ValidString s
      else case utf8_lead (of_char c) of
          None \<Rightarrow> False
        | Some (lo, hi, n) \<Rightarrow>
            (case s of
               [] \<Rightarrow> False
             | d # s' \<Rightarrow> lo \<le> (of_char d :: nat) \<and> (of_char d :: nat) \<le> hi \<and>
                 (case cont_bytes n s' of None \<Rightarrow> False | Some r \<Rightarrow> ValidString r)))"
  by pat_completeness auto
termination
  by (relation "measure length") (auto dest: cont_bytes_length)

definition base64_char :: "nat \<Rightarrow> char" where
  "base64_char n = (''ABCDEFGHIJKLMNOPQRSTUVWXYZabcdefghijklmnopqrstuvwxyz0123456789+/'' ! n)"

fun base64_EncodeToString :: "string \<Rightarrow> string" where
  "base64_EncodeToString [] = []"
| "base64_EncodeToString [a] =
     (let x = of_char a in [base64_char (x div 4), base64_char (x mod 4 * 16), CHR ''='', CHR ''=''])"
| "base64_EncodeToString [a, b] =
     (let x = of_char a; y = of_char b
      in [base64_char (x div 4), base64_char (x mod 4 * 16 + y div 16), base64_char (y mod 16 * 4), CHR ''=''])"
| "base64_EncodeToString (a # b # c # s) =
     (let x = of_char a; y = of_char b; z = of_char c
      in [base64_char (x div 4), base64_char (x mod 4 * 16 + y div 16), base64_char (y mod 16 * 4 + z div 64),
          base64_char (z mod 64)] @ base64_EncodeToString s)"

subsection \<open>Values and rows\<close>

datatype anyval =
    ANil
  | AString string
  | ABytes string
  | AUint nat
  | AInt int
  | AFloat bool "64 word"
  | ABool bool
  | ATime int
  | AStringer string
  | AOther
  | AArray "anyval list"
  | AMap "(string \<times> anyval) list"
  | AMaps "(string \<times> anyval) list list"

record Row =
  Path :: "string list"
  Value :: string

definition NewRow :: "string list \<Rightarrow> string \<Rightarrow> Row" where
  "NewRow path v = \<lparr>Path = path, Value = v\<rparr>"

fun strings_Join :: "string list \<Rightarrow> string \<Rightarrow> string" where
  "strings_Join [] sep = []"
| "strings_Join [s] sep = s"
| "strings_Join (s # t # ss) sep = s @ sep @ strings_Join (t # ss) sep"

definition StringPath :: "Row \<Rightarrow> string \<Rightarrow> string" where
  "StringPath r sep = strings_Join (Path r) sep"

definition ParentKey :: "Row \<Rightarrow> string \<Rightarrow> string \<times> string" where
  "ParentKey r sep =
     (case Path r of
        [] \<Rightarrow> ('''', '''')
      | [k] \<Rightarrow> ('''', k)
      | p \<Rightarrow> (strings_Join (butlast p) sep, last p))"

text \<open>\<open>FormatFloat\<close> gets whether the float has 32 bits, and its bits.\<close>

record flatten_ext =
  FormatFloat :: "bool \<Rightarrow> 64 word \<Rightarrow> string"
  plist_Unmarshal :: "string \<Rightarrow> error + anyval"

fun stringify :: "flatten_ext \<Rightarrow> anyval \<Rightarrow> error + string" where
  "stringify x ANil = Inr ''''"
| "stringify x (AString s) = Inr s"
| "stringify x (ABytes s) = Inr (if ValidString s then s else base64_EncodeToString s)"
| "stringify x (AUint n) = Inr (FormatInt (int n))"
| "stringify x (AInt i) = Inr (FormatInt i)"
| "stringify x (AFloat single bits) = Inr (FormatFloat x single bits)"
| "stringify x (ABool b) = Inr (if b then ''true'' else ''false'')"
| "stringify x (ATime unix) = Inr (FormatInt unix)"
| "stringify x (AStringer s) = Inr s"
| "stringify x _ = Inl (ErrNew ''unknown type'')"

definition isPlist :: "string \<Rightarrow> bool" where
  "isPlist data =
     (let dataPrefix = (if length data \<le> 30 then data else take 30 data)
      in if Contains dataPrefix ''bplist0'' then True
         else if Contains dataPrefix (''xml version='' @ [CHR 0x22] @ ''1.0'' @ [CHR 0x22]) \<and>
                 Contains data ''<!DOCTYPE plist PUBLIC'' then True
         else False)"

subsection \<open>The flattener\<close>

text \<open>\<open>query\<close> is \<open>None\<close> when the slice is nil.  A prefilter maps an object to an error, to nil or to an object.\<close>

record Flattener =
  expandNestedPlist :: bool
  includeNestedRaw :: bool
  includeNils :: bool
  fl_query :: "string list option"
  queryKeyDenoter :: string
  queryWildcard :: string
  prefilter :: "(anyval \<Rightarrow> error + anyval) option"

datatype FlattenOpts =
  IncludeNulls | WithNestedPlist | WithQuery "string list" | WithPrefilter "(anyval \<Rightarrow> error + anyval) option"

fun apply_opt :: "FlattenOpts \<Rightarrow> Flattener \<Rightarrow> Flattener" where
  "apply_opt IncludeNulls fl = fl\<lparr>includeNils := True\<rparr>"
| "apply_opt WithNestedPlist fl = fl\<lparr>expandNestedPlist := True\<rparr>"
| "apply_opt (WithQuery q) fl =
     (if length q = 0 \<or> (length q = 1 \<and> q ! 0 = '''') then fl else fl\<lparr>fl_query := Some q\<rparr>)"
| "apply_opt (WithPrefilter p) fl = fl\<lparr>prefilter := p\<rparr>"

definition newFlattener :: "FlattenOpts list \<Rightarrow> Flattener" where
  "newFlattener opts =
     fold apply_opt opts
       \<lparr>expandNestedPlist = False, includeNestedRaw = False, includeNils = False, fl_query = None,
        queryKeyDenoter = ''#'', queryWildcard = ''*'', prefilter = None\<rparr>"

definition applyPrefilter :: "Flattener \<Rightarrow> anyval \<Rightarrow> error + anyval" where
  "applyPrefilter fl obj =
     (case prefilter fl of
        None \<Rightarrow> Inr obj
      | Some p \<Rightarrow> (case p obj of Inl err \<Rightarrow> Inl (ErrWrap ''prefiltering'' err) | Inr filtered \<Rightarrow> Inr filtered))"

text \<open>The term for a depth, and whether everything matches there.\<close>

definition queryAtDepth :: "Flattener \<Rightarrow> nat \<Rightarrow> string \<times> bool" where
  "queryAtDepth fl depth =
     (case fl_query fl of
        None \<Rightarrow> (queryWildcard fl, True)
      | Some q \<Rightarrow> if depth + 1 > length q then (queryWildcard fl, True) else (q ! depth, q ! depth = queryWildcard fl))"

definition queryMatchNil :: "Flattener \<Rightarrow> string \<Rightarrow> bool" where
  "queryMatchNil fl queryTerm = includeNils fl"

definition queryMatchString :: "Flattener \<Rightarrow> string \<Rightarrow> string \<Rightarrow> bool" where
  "queryMatchString fl v queryTerm =
     (let w = queryWildcard fl
      in if queryTerm = w then True
         else if HasPrefix queryTerm w \<and> HasSuffix queryTerm w then Contains v (TrimSuffix (TrimPrefix queryTerm w) w)
         else if HasPrefix queryTerm w then HasSuffix v (TrimPrefix queryTerm w)
         else if HasSuffix queryTerm w then HasPrefix v (TrimSuffix queryTerm w)
         else v = queryTerm)"

definition queryMatchStringify :: "flatten_ext \<Rightarrow> Flattener \<Rightarrow> anyval \<Rightarrow> string \<Rightarrow> bool" where
  "queryMatchStringify x fl data queryTerm =
     (let term = TrimPrefix queryTerm (queryKeyDenoter fl)
      in if term = queryWildcard fl then True
         else if data = ANil then queryMatchNil fl term
         else (case stringify x data of Inl err \<Rightarrow> False | Inr s \<Rightarrow> queryMatchString fl s term))"

definition queryMatchArrayElement :: "flatten_ext \<Rightarrow> Flattener \<Rightarrow> anyval \<Rightarrow> nat \<Rightarrow> string \<Rightarrow> bool" where
  "queryMatchArrayElement x fl data arrIndex queryTerm =
     (let term = TrimPrefix queryTerm (queryKeyDenoter fl)
      in if term = queryWildcard fl then True
         else case ParseInt term of
             Some queryIndex \<Rightarrow> queryIndex = int arrIndex
           | None \<Rightarrow>
               (case data of
                  AArray _ \<Rightarrow> False
                | AMap m \<Rightarrow>
                    (case SplitN2 term ''=>'' of
                       [k, v] \<Rightarrow> list_ex (\<lambda>(key, e). queryMatchString fl key k \<and> queryMatchStringify x fl e v) m
                     | _ \<Rightarrow> map_of m term \<noteq> None)
                | _ \<Rightarrow> queryMatchStringify x fl data term))"

definition handleStringLike :: "flatten_ext \<Rightarrow> Flattener \<Rightarrow> string list \<Rightarrow> anyval \<Rightarrow> nat \<Rightarrow> error + Row list" where
  "handleStringLike x fl path v depth =
     (case queryAtDepth fl depth of
        (queryTerm, isQueryMatched) \<Rightarrow>
          (case stringify x v of
             Inl err \<Rightarrow> Inl err
           | Inr s \<Rightarrow> Inr (if isQueryMatched \<or> queryMatchString fl s queryTerm then [NewRow path s] else [])))"

text \<open>
  The path key of an array element: the index, or the value of the key the term asks for; \<open>None\<close> when
  the element has no such text and is skipped.
\<close>

definition element_key :: "Flattener \<Rightarrow> string \<Rightarrow> nat \<Rightarrow> anyval \<Rightarrow> string option" where
  "element_key fl queryTerm idx data =
     (if HasPrefix queryTerm (queryKeyDenoter fl) then
        (case data of
           AMap m \<Rightarrow>
             (case map_of m (hd (SplitN2 (drop (length (queryKeyDenoter fl)) queryTerm) ''=>'')) of
                Some (AString s) \<Rightarrow> Some s
              | _ \<Rightarrow> None)
         | _ \<Rightarrow> None)
      else Some (FormatInt (int idx)))"

text \<open>
  \<open>descendArrayElement\<close>, given the flattening of the element below a path.  A result \<open>None\<close> is
  flattening that runs out of the bound on nested plists.
\<close>

definition descendArrayElement ::
  "flatten_ext \<Rightarrow> Flattener \<Rightarrow> (string list \<Rightarrow> (error + Row list) option) \<Rightarrow> string list \<Rightarrow> nat \<Rightarrow> anyval \<Rightarrow> nat \<Rightarrow>
   (error + Row list) option" where
  "descendArrayElement x fl descend_to path idx data depth =
     (case queryAtDepth fl depth of
        (queryTerm, isQueryMatched) \<Rightarrow>
          (case element_key fl queryTerm idx data of
             None \<Rightarrow> Some (Inr [])
           | Some pathKey \<Rightarrow>
               if isQueryMatched \<or> queryMatchArrayElement x fl data idx queryTerm then descend_to (path @ [pathKey])
               else Some (Inr [])))"

text \<open>One after the other, up to the first error.\<close>

fun rows_seq :: "string \<Rightarrow> (error + Row list) option list \<Rightarrow> (error + Row list) option" where
  "rows_seq msg [] = Some (Inr [])"
| "rows_seq msg (r # rs) =
     (case r of
        None \<Rightarrow> None
      | Some (Inl err) \<Rightarrow> Some (Inl (ErrWrap msg err))
      | Some (Inr rows) \<Rightarrow>
          (case rows_seq msg rs of
             Some (Inr rows') \<Rightarrow> Some (Inr (rows @ rows'))
           | r' \<Rightarrow> r'))"

lemma size_snd_in_set: "(k :: string, e) \<in> set m \<Longrightarrow> size e < size_list (size_prod (\<lambda>_. 0) size) m"
  by (induction m) auto

lemma enumerate_size: "(i, e) \<in> set (List.enumerate n es) \<Longrightarrow> f e < size_list f es"
  by (induction es arbitrary: n) fastforce+

text \<open>\<open>fuel\<close> bounds how deep plists are nested in plists.\<close>

function descend ::
  "flatten_ext \<Rightarrow> Flattener \<Rightarrow> nat \<Rightarrow> string list \<Rightarrow> anyval \<Rightarrow> nat \<Rightarrow> (error + Row list) option" where
  "descend x fl fuel path data depth =
     (case data of
        AArray es \<Rightarrow>
          rows_seq ''flattening array element''
            (map (\<lambda>(i, e). descendArrayElement x fl (\<lambda>p. descend x fl fuel p e (Suc depth)) path i e depth)
               (List.enumerate 0 es))
      | AMap m \<Rightarrow>
          (case queryAtDepth fl depth of
             (queryTerm, isQueryMatched) \<Rightarrow>
               rows_seq ''flattening map''
                 (map (\<lambda>(k, e). if isQueryMatched \<or> queryMatchString fl k queryTerm
                                 then descend x fl fuel (path @ [k]) e (Suc depth) else Some (Inr [])) m))
      | AMaps ms \<Rightarrow>
          rows_seq ''flattening array of maps''
            (map (\<lambda>(i, m). descend x fl fuel (path @ [FormatInt (int i)]) (AMap m) (Suc depth)) (List.enumerate 0 ms))
      | ANil \<Rightarrow> Some (Inr (if queryMatchNil fl (fst (queryAtDepth fl depth)) then [NewRow path ''''] else []))
      | AString s \<Rightarrow> descend x fl fuel path (ABytes s) depth
      | ABytes s \<Rightarrow>
          if \<not> expandNestedPlist fl \<or> \<not> isPlist s then Some (handleStringLike x fl path (ABytes s) depth)
          else (case plist_Unmarshal x s of
                  Inl err \<Rightarrow> Some (handleStringLike x fl path (ABytes s) depth)
                | Inr innerData \<Rightarrow>
                    (case fuel of
                       0 \<Rightarrow> None
                     | Suc fuel' \<Rightarrow>
                         (case descend x fl fuel' path innerData depth of
                            None \<Rightarrow> None
                          | Some (Inl err) \<Rightarrow> Some (Inl (ErrWrap ''flattening plist data'' err))
                          | Some (Inr rows) \<Rightarrow>
                              Some (Inr ((if includeNestedRaw fl
                                          then (case handleStringLike x fl (path @ [''_raw'']) (ABytes s) depth of
                                                  Inl _ \<Rightarrow> [] | Inr raw \<Rightarrow> raw)
                                          else []) @ rows)))))
      | v \<Rightarrow>
          (case handleStringLike x fl path v depth of
             Inl err \<Rightarrow> Some (Inl (ErrWrap ''flattening'' err))
           | Inr rows \<Rightarrow> Some (Inr rows)))"
  by pat_completeness auto

termination
proof (relation "inv_image (less_than <*lex*> less_than)
    (\<lambda>(x, fl, fuel, path, data, depth). (fuel, 2 * size data + (case data of AString s \<Rightarrow> 1 | _ \<Rightarrow> 0)))", goal_cases)
  case 1
  then show ?case by (intro wf_inv_image wf_lex_prod wf_less_than)
qed (auto dest!: enumerate_size[where f = "size :: anyval \<Rightarrow> nat"] enumerate_size[where f = "size_list (size_prod (\<lambda>_. 0) (size :: anyval \<Rightarrow> nat)) :: (string \<times> anyval) list \<Rightarrow> nat"] size_snd_in_set
      split: anyval.splits)

declare descend.simps [simp del]

definition Flatten :: "flatten_ext \<Rightarrow> nat \<Rightarrow> anyval \<Rightarrow> FlattenOpts list \<Rightarrow> (error + Row list) option" where
  "Flatten x fuel data opts =
     (let fl = newFlattener opts
      in case applyPrefilter fl data of
           Inl err \<Rightarrow> Some (Inl (ErrWrap ''applying prefilter before flattening'' err))
         | Inr filteredData \<Rightarrow> descend x fl fuel [] filteredData 0)"

text \<open>What the iterator yields is a list of objects and errors.\<close>

fun FlattenEach_loop :: "flatten_ext \<Rightarrow> Flattener \<Rightarrow> nat \<Rightarrow> nat \<Rightarrow> (error + anyval) list \<Rightarrow> (error + Row list) option" where
  "FlattenEach_loop x fl fuel i [] = Some (Inr [])"
| "FlattenEach_loop x fl fuel i (Inl err # _) = Some (Inl (ErrWrap ''iterating'' err))"
| "FlattenEach_loop x fl fuel i (Inr obj # rest) =
     (case applyPrefilter fl obj of
        Inl err \<Rightarrow> Some (Inl (ErrWrap ''prefiltering object'' err))
      | Inr filteredObj \<Rightarrow>
          (case descendArrayElement x fl (\<lambda>p. descend x fl fuel p filteredObj 1) [] i filteredObj 0 of
             None \<Rightarrow> None
           | Some (Inl err) \<Rightarrow> Some (Inl (ErrWrap ''flattening object'' err))
           | Some (Inr rows) \<Rightarrow>
               (case FlattenEach_loop x fl fuel (i + 1) rest of
                  Some (Inr rows') \<Rightarrow> Some (Inr (rows @ rows'))
                | r \<Rightarrow> r)))"

definition FlattenEach :: "flatten_ext \<Rightarrow> nat \<Rightarrow> (error + anyval) list \<Rightarrow> FlattenOpts list \<Rightarrow> (error + Row list) option" where
  "FlattenEach x fuel next opts = FlattenEach_loop x (newFlattener opts) fuel 0 next"

subsection \<open>Formats\<close>

text \<open>
  The decoders of the formats.  \<open>json_stream\<close> and \<open>yaml_docs\<close> are the values a decoder yields up to the
  end of the input or an error; \<open>ini_Load\<close> the sections with their keys, in order.
\<close>

record decoders =
  json_Valid :: "string \<Rightarrow> bool"
  json_Unmarshal :: "string \<Rightarrow> error + anyval"
  json_stream :: "string \<Rightarrow> (error + anyval) list"
  utf16_to_utf8 :: "string \<Rightarrow> error + string"
  ini_Load :: "string \<Rightarrow> error + (string \<times> (string \<times> string) list) list"
  mxj_NewMapXml :: "string \<Rightarrow> error + anyval"
  toml_Decode :: "string \<Rightarrow> error + anyval"
  howett_Unmarshal :: "string \<Rightarrow> error + anyval"
  yaml_docs :: "string \<Rightarrow> error + (error + anyval) list"

definition Json :: "flatten_ext \<Rightarrow> decoders \<Rightarrow> nat \<Rightarrow> string \<Rightarrow> FlattenOpts list \<Rightarrow> (error + Row list) option" where
  "Json x D fuel rawdata opts =
     (case json_Unmarshal D rawdata of
        Inl err \<Rightarrow> Some (Inl (ErrWrap ''unmarshalling json'' err))
      | Inr data \<Rightarrow> Flatten x fuel data opts)"

definition JsonFile :: "flatten_ext \<Rightarrow> decoders \<Rightarrow> nat \<Rightarrow> (error + string) \<Rightarrow> FlattenOpts list \<Rightarrow> (error + Row list) option" where
  "JsonFile x D fuel file opts =
     (case file of
        Inl err \<Rightarrow> Some (Inl err)
      | Inr rawdata \<Rightarrow>
          if json_Valid D rawdata then Json x D fuel rawdata opts
          else (case utf16_to_utf8 D rawdata of
                  Inl err \<Rightarrow> Some (Inl (ErrNew ''invalid json. (Despite attempted transform from utf16 to utf8''))
                | Inr rawdata' \<Rightarrow> Json x D fuel rawdata' opts))"

definition flattenJsonl :: "flatten_ext \<Rightarrow> decoders \<Rightarrow> nat \<Rightarrow> string \<Rightarrow> FlattenOpts list \<Rightarrow> (error + Row list) option" where
  "flattenJsonl x D fuel rawdata opts =
     FlattenEach x fuel (map (map_sum (ErrWrap ''unmarshalling jsonl'') id) (json_stream D rawdata)) opts"

definition Jsonc :: "flatten_ext \<Rightarrow> decoders \<Rightarrow> nat \<Rightarrow> string \<Rightarrow> FlattenOpts list \<Rightarrow> (error + Row list) option" where
  "Jsonc x D fuel rawdata opts =
     (case jsoncToJson rawdata of
        Inl err \<Rightarrow> Some (Inl (ErrWrap ''converting jsonc to json'' err))
      | Inr json \<Rightarrow> flattenJsonl x D fuel json opts)"

definition JsoncFile :: "flatten_ext \<Rightarrow> decoders \<Rightarrow> nat \<Rightarrow> (error + string) \<Rightarrow> FlattenOpts list \<Rightarrow> (error + Row list) option" where
  "JsoncFile x D fuel file opts =
     (case file of
        Inl err \<Rightarrow> Some (Inl (ErrWrap ''reading'' err))
      | Inr rawdata \<Rightarrow>
          (case jsoncToJson rawdata of
             Inl err \<Rightarrow> Some (Inl (ErrWrap ''transforming JSONC to JSON'' err))
           | Inr json \<Rightarrow>
               if json_Valid D json then flattenJsonl x D fuel json opts
               else (case utf16_to_utf8 D json of
                       Inl err \<Rightarrow> Some (Inl (ErrWrap ''attempting to transform invalid json from utf16 to utf8'' err))
                     | Inr json' \<Rightarrow> flattenJsonl x D fuel json' opts)))"

definition iniToBool :: "string \<Rightarrow> bool \<times> bool" where
  "iniToBool val =
     (if val \<in> set [''t'', ''T'', ''true'', ''TRUE'', ''True'', ''YES'', ''yes'', ''Yes'', ''y'', ''ON'', ''on'', ''On''] then (True, True)
      else if val \<in> set [''f'', ''F'', ''false'', ''FALSE'', ''False'', ''NO'', ''no'', ''No'', ''n'', ''OFF'', ''off'', ''Off'']
      then (False, True)
      else (False, False))"

definition ini_section :: "(string \<times> string) list \<Rightarrow> (string \<times> anyval) list" where
  "ini_section ks =
     fold (\<lambda>(name, val). AList.update name (case iniToBool val of (b, True) \<Rightarrow> ABool b | (b, False) \<Rightarrow> AString val)) ks []"

definition Ini :: "flatten_ext \<Rightarrow> decoders \<Rightarrow> nat \<Rightarrow> string \<Rightarrow> FlattenOpts list \<Rightarrow> (error + Row list) option" where
  "Ini x D fuel rawdata opts =
     (case ini_Load D rawdata of
        Inl err \<Rightarrow> Some (Inl err)
      | Inr sections \<Rightarrow>
          Flatten x fuel (AMap (fold (\<lambda>(name, ks). AList.update name (AMap (ini_section ks))) sections [])) opts)"

definition Xml :: "flatten_ext \<Rightarrow> decoders \<Rightarrow> nat \<Rightarrow> string \<Rightarrow> FlattenOpts list \<Rightarrow> (error + Row list) option" where
  "Xml x D fuel rawdata opts =
     (case mxj_NewMapXml D rawdata of
        Inl err \<Rightarrow> Some (Inl (ErrWrap ''mxj parse'' err))
      | Inr data \<Rightarrow> Flatten x fuel data opts)"

definition Toml :: "flatten_ext \<Rightarrow> decoders \<Rightarrow> nat \<Rightarrow> string \<Rightarrow> FlattenOpts list \<Rightarrow> (error + Row list) option" where
  "Toml x D fuel rawdata opts =
     (case toml_Decode D rawdata of
        Inl err \<Rightarrow> Some (Inl (ErrWrap ''decoding toml'' err))
      | Inr data \<Rightarrow> Flatten x fuel data opts)"

definition Plist :: "flatten_ext \<Rightarrow> decoders \<Rightarrow> nat \<Rightarrow> string \<Rightarrow> FlattenOpts list \<Rightarrow> (error + Row list) option" where
  "Plist x D fuel rawdata opts =
     (case howett_Unmarshal D rawdata of
        Inl err \<Rightarrow> Some (Inl (ErrWrap ''unmarshalling plist'' err))
      | Inr data \<Rightarrow> Flatten x fuel data opts)"

fun yaml_load :: "(error + anyval) list \<Rightarrow> error + anyval list" where
  "yaml_load [] = Inr []"
| "yaml_load (Inl err # _) = Inl (ErrWrap ''parsing document'' err)"
| "yaml_load (Inr data # rest) = map_sum id (Cons data) (yaml_load rest)"

definition yamlFromReader :: "flatten_ext \<Rightarrow> decoders \<Rightarrow> nat \<Rightarrow> string \<Rightarrow> FlattenOpts list \<Rightarrow> (error + Row list) option" where
  "yamlFromReader x D fuel rawdata opts =
     (case yaml_docs D rawdata of
        Inl err \<Rightarrow> Some (Inl (ErrWrap ''loading yaml'' err))
      | Inr loaded \<Rightarrow>
          (case yaml_load loaded of
             Inl err \<Rightarrow> Some (Inl err)
           | Inr docs \<Rightarrow> if length docs = 1 then Flatten x fuel (docs ! 0) opts else Flatten x fuel (AArray docs) opts))"

text \<open>
  The lines \<open>bufio.Scanner\<close> yields: without the end of line, and up to the first one that is longer than its
  buffer.
\<close>

fun split_lines :: "string \<Rightarrow> string list" where
  "split_lines [] = []"
| "split_lines (c # s) =
     (if c = CHR 0x0A then [] # split_lines s
      else case split_lines s of [] \<Rightarrow> [[c]] | l # ls \<Rightarrow> (c # l) # ls)"

definition scan_lines :: "string \<Rightarrow> string list" where
  "scan_lines s =
     map (\<lambda>l. if l \<noteq> [] \<and> last l = CHR 0x0D then butlast l else l) (takeWhile (\<lambda>l. length l \<le> 65535) (split_lines s))"

definition line_pair :: "string \<Rightarrow> string \<Rightarrow> (string \<times> string) option" where
  "line_pair delim line = map_option (\<lambda>(k, v). (TrimSpace k, TrimSpace v)) (Cut line delim)"

fun duplicate_key_loop :: "(string \<times> string) list \<Rightarrow> (string \<times> anyval) list \<Rightarrow> anyval list \<Rightarrow> anyval list" where
  "duplicate_key_loop [] row results = results @ [AMap row]"
| "duplicate_key_loop ((key, v) # ps) row results =
     (if map_of row key \<noteq> None then duplicate_key_loop ps [(key, AString v)] (results @ [AMap row])
      else duplicate_key_loop ps (row @ [(key, AString v)]) results)"

definition duplicateKeyFunc :: "flatten_ext \<Rightarrow> nat \<Rightarrow> string \<Rightarrow> string \<Rightarrow> FlattenOpts list \<Rightarrow> (error + Row list) option" where
  "duplicateKeyFunc x fuel delim rawdata opts =
     Flatten x fuel (AArray (duplicate_key_loop (List.map_filter (line_pair delim) (scan_lines rawdata)) [] [])) opts"

definition singleRecordFunc :: "flatten_ext \<Rightarrow> nat \<Rightarrow> string \<Rightarrow> string \<Rightarrow> FlattenOpts list \<Rightarrow> (error + Row list) option" where
  "singleRecordFunc x fuel delim rawdata opts =
     Flatten x fuel (AArray (map (\<lambda>(k, v). AMap [(k, AString v)]) (List.map_filter (line_pair delim) (scan_lines rawdata)))) opts"

subsection \<open>Queries filter rows\<close>

text \<open>
  Which rows a query keeps, by the path of a row followed by its value: each of these that has a term of
  the query at its place matches it.
\<close>

fun query_keeps :: "Flattener \<Rightarrow> string list \<Rightarrow> nat \<Rightarrow> string list \<Rightarrow> bool" where
  "query_keeps fl q d [] \<longleftrightarrow> True"
| "query_keeps fl q d (y # ys) \<longleftrightarrow> (d < length q \<longrightarrow> queryMatchString fl y (q ! d)) \<and> query_keeps fl q (Suc d) ys"

text \<open>Arrays are asked for by a wildcard or by an index in its usual form.\<close>

definition index_term :: "string list \<Rightarrow> nat \<Rightarrow> bool" where
  "index_term q d \<longleftrightarrow> d < length q \<longrightarrow> q ! d = ''*'' \<or>
     (case ParseInt (q ! d) of None \<Rightarrow> False | Some n \<Rightarrow> 0 \<le> n \<and> FormatInt n = q ! d)"

fun arrays_by_index :: "string list \<Rightarrow> nat \<Rightarrow> anyval \<Rightarrow> bool" where
  "arrays_by_index q d (AArray es) \<longleftrightarrow> index_term q d \<and> list_all (arrays_by_index q (Suc d)) es"
| "arrays_by_index q d (AMap m) \<longleftrightarrow> list_all (\<lambda>(k, e). arrays_by_index q (Suc d) e) m"
| "arrays_by_index q d (AMaps ms) \<longleftrightarrow> length q \<le> d"
| "arrays_by_index q d _ \<longleftrightarrow> True"

lemma queryAtDepth_None: "fl_query fl = None \<Longrightarrow> queryAtDepth fl d = (queryWildcard fl, True)"
  by (simp add: queryAtDepth_def)

lemma queryMatchString_wildcard [simp]: "queryMatchString fl v (queryWildcard fl)"
  by (simp add: queryMatchString_def)

lemma queryMatchString_query [simp]: "queryMatchString (fl\<lparr>fl_query := q\<rparr>) = queryMatchString fl"
  by (simp add: fun_eq_iff queryMatchString_def)

lemma queryAtDepth_Some:
  "(case queryAtDepth (fl\<lparr>fl_query := Some q\<rparr>) d of (t, b) \<Rightarrow> b \<or> queryMatchString fl v t) \<longleftrightarrow>
   (d < length q \<longrightarrow> queryMatchString fl v (q ! d))"
  by (auto simp: queryAtDepth_def)

lemma rows_seq_Ok: "rows_seq msg rs = Some (Inr rows) \<longleftrightarrow> (\<exists>rss. rs = map (\<lambda>r. Some (Inr r)) rss \<and> rows = concat rss)"
proof (induction rs arbitrary: rows)
  case (Cons r rs)
  show ?case
  proof (cases "\<exists>r1. r = Some (Inr r1)")
    case True
    then obtain r1 where r: "r = Some (Inr r1)" by blast
    have "rows_seq msg (r # rs) = Some (Inr rows) \<longleftrightarrow> (\<exists>rows'. rows_seq msg rs = Some (Inr rows') \<and> rows = r1 @ rows')"
      by (auto simp: r split: option.splits sum.splits)
    also have "\<dots> \<longleftrightarrow> (\<exists>rss. rs = map (\<lambda>r. Some (Inr r)) rss \<and> rows = r1 @ concat rss)" using Cons.IH by auto
    also have "\<dots> \<longleftrightarrow> (\<exists>rss. r # rs = map (\<lambda>r. Some (Inr r)) rss \<and> rows = concat rss)"
      by (auto simp: r Cons_eq_map_conv)
    finally show ?thesis .
  next
    case False
    then show ?thesis by (auto simp: Cons_eq_map_conv split: option.splits sum.splits)
  qed
qed auto

text \<open>Filtering the parts of a sequence filters the whole.\<close>

lemma rows_seq_filter:
  assumes "rows_seq msg (map f xs) = Some (Inr rows)"
    and "\<And>x r. x \<in> set xs \<Longrightarrow> f x = Some (Inr r) \<Longrightarrow> g x = Some (Inr (filter P r))"
  shows "rows_seq msg (map g xs) = Some (Inr (filter P rows))"
proof -
  obtain rss where r: "map f xs = map (\<lambda>r. Some (Inr r)) rss" "rows = concat rss" using assms(1) rows_seq_Ok by blast
  then have "map g xs = map (\<lambda>r. Some (Inr r)) (map (filter P) rss)"
    using assms(2)
  proof (induction xs arbitrary: rss rows)
    case (Cons x xs)
    then obtain r1 rest where "rss = r1 # rest" "f x = Some (Inr r1)" "map f xs = map (\<lambda>r. Some (Inr r)) rest"
      by (auto simp: Cons_eq_map_conv)
    with Cons.IH[of rest "concat rest"] Cons.prems(3) show ?case by auto
  qed simp
  then show ?thesis unfolding rows_seq_Ok r(2) filter_concat by blast
qed

lemma rows_seq_member:
  "rows_seq msg (map f xs) = Some (Inr rows) \<Longrightarrow> r \<in> set rows \<Longrightarrow> \<exists>x rs. x \<in> set xs \<and> f x = Some (Inr rs) \<and> r \<in> set rs"
proof (induction xs arbitrary: rows)
  case (Cons x xs)
  then obtain r1 rows' where "f x = Some (Inr r1)" "rows_seq msg (map f xs) = Some (Inr rows')" "rows = r1 @ rows'"
    by (auto split: option.splits sum.splits)
  with Cons show ?case by fastforce
qed simp

lemma nat_digits_inj: "nat_digits i = nat_digits n \<longleftrightarrow> i = n"
  by (metis option.inject parse_nat_digits)

lemma digits_no_star: "list_all is_digit s \<Longrightarrow> s \<noteq> [] \<Longrightarrow> \<not> HasPrefix s ''*'' \<and> \<not> HasSuffix s ''*'' \<and> \<not> HasPrefix s ''#''"
proof -
  assume s: "list_all is_digit s" "s \<noteq> []"
  have d: "\<not> is_digit (CHR ''*'')" "\<not> is_digit (CHR ''#'')" by (simp_all add: is_digit_def)
  have "\<not> HasPrefix s [c]" if "\<not> is_digit c" for c using s that by (auto simp: HasPrefix_iff)
  moreover have "\<not> HasSuffix s ''*''" using s d by (auto simp: HasSuffix_iff)
  ultimately show ?thesis using d by blast
qed

lemma index_term_cases:
  assumes "index_term q d" "d < length q"
  obtains "q ! d = ''*''" | n where "q ! d = nat_digits n" "ParseInt (nat_digits n) = Some (int n)"
proof (cases "q ! d = ''*''")
  case False
  with assms obtain n where n: "ParseInt (q ! d) = Some n" "0 \<le> n" "FormatInt n = q ! d"
    unfolding index_term_def by (cases "ParseInt (q ! d)") auto
  then have "q ! d = nat_digits (nat n)" by (simp add: FormatInt_def)
  with n that(2)[of "nat n"] show ?thesis by simp
qed (rule that(1))

lemma index_match:
  assumes "queryWildcard fl = ''*''" "queryKeyDenoter fl = ''#''" "index_term q d" "d < length q"
  shows "element_key fl (q ! d) i e = Some (FormatInt (int i)) \<and>
    (q ! d = queryWildcard fl \<or> queryMatchArrayElement x fl e i (q ! d) \<longleftrightarrow> queryMatchString fl (FormatInt (int i)) (q ! d))"
  using assms(3,4)
proof (cases rule: index_term_cases)
  case 1
  then show ?thesis using assms(1,2) by (simp add: element_key_def HasPrefix_iff queryMatchString_def)
next
  case (2 n)
  have n: "\<not> HasPrefix (nat_digits n) ''*''" "\<not> HasSuffix (nat_digits n) ''*''" "\<not> HasPrefix (nat_digits n) ''#''"
    using digits_no_star[of "nat_digits n"] nat_digits_all[of n] by blast+
  then have ns: "nat_digits n \<noteq> ''*''" by (auto simp: HasPrefix_iff)
  have "element_key fl (nat_digits n) i e = Some (FormatInt (int i))"
    using n assms(2) by (simp add: element_key_def)
  moreover have "queryMatchArrayElement x fl e i (nat_digits n) \<longleftrightarrow> n = i"
    using n ns 2(2) assms(1,2) by (auto simp: queryMatchArrayElement_def TrimPrefix_def)
  moreover have "queryMatchString fl (FormatInt (int i)) (nat_digits n) \<longleftrightarrow> n = i"
    using n ns assms(1) nat_digits_inj[of i n] by (auto simp: queryMatchString_def FormatInt_def)
  ultimately show ?thesis using ns 2(1) assms(1) by simp
qed

text \<open>The rows a query keeps below a path, and how that splits at the next step of the path.\<close>

abbreviation keeps_below :: "Flattener \<Rightarrow> string list \<Rightarrow> nat \<Rightarrow> string list \<Rightarrow> Row \<Rightarrow> bool" where
  "keeps_below fl q d path r \<equiv> query_keeps fl q d (drop (length path) (Path r) @ [Value r])"

definition below_path :: "string list \<Rightarrow> Row list \<Rightarrow> bool" where
  "below_path path rows \<longleftrightarrow> list_all (\<lambda>r. take (length path) (Path r) = path) rows"

lemma below_path_Cons:
  assumes "take (length (path @ [k])) (Path r) = path @ [k]"
  shows "take (length path) (Path r) = path"
    "keeps_below fl q d path r \<longleftrightarrow> (d < length q \<longrightarrow> queryMatchString fl k (q ! d)) \<and> keeps_below fl q (Suc d) (path @ [k]) r"
proof -
  have p: "Path r = path @ k # drop (Suc (length path)) (Path r)"
    using append_take_drop_id[of "Suc (length path)" "Path r"] assms by (metis append.assoc append_Cons append_Nil length_append_singleton)
  show "take (length path) (Path r) = path" by (subst p) simp
  have "drop (length path) (Path r) = k # drop (Suc (length path)) (Path r)" by (subst p) simp
  then show "keeps_below fl q d path r \<longleftrightarrow>
      (d < length q \<longrightarrow> queryMatchString fl k (q ! d)) \<and> keeps_below fl q (Suc d) (path @ [k]) r" by simp
qed

lemma filter_below_path:
  assumes "below_path (path @ [k]) rows"
  shows "filter (keeps_below fl q d path) rows =
    (if d < length q \<longrightarrow> queryMatchString fl k (q ! d) then filter (keeps_below fl q (Suc d) (path @ [k])) rows else [])"
    "below_path path rows"
  using assms below_path_Cons[of path k] unfolding below_path_def list_all_iff
  by (auto intro!: filter_cong simp: filter_empty_conv)

text \<open>What the claim below needs of each branch: the rows without a query are below the path, and the query filters them.\<close>

definition filters ::
  "flatten_ext \<Rightarrow> Flattener \<Rightarrow> nat \<Rightarrow> string list \<Rightarrow> string list \<Rightarrow> anyval \<Rightarrow> nat \<Rightarrow> bool" where
  "filters x fl fuel q path data d \<longleftrightarrow>
     (\<forall>rows. descend x (fl\<lparr>fl_query := None\<rparr>) fuel path data d = Some (Inr rows) \<longrightarrow>
        below_path path rows \<and>
        descend x (fl\<lparr>fl_query := Some q\<rparr>) fuel path data d = Some (Inr (filter (keeps_below fl q d path) rows)))"

lemma below_path_rows_seq:
  assumes "rows_seq msg (map f xs) = Some (Inr rows)"
    and "\<And>x rs. x \<in> set xs \<Longrightarrow> f x = Some (Inr rs) \<Longrightarrow> below_path path rs"
  shows "below_path path rows"
  unfolding below_path_def list_all_iff
proof
  fix r assume "r \<in> set rows"
  from rows_seq_member[OF assms(1) this] obtain x rs where "x \<in> set xs" "f x = Some (Inr rs)" "r \<in> set rs" by blast
  with assms(2) show "take (length path) (Path r) = path" unfolding below_path_def list_all_iff by blast
qed

lemma handleStringLike_query:
  "handleStringLike x (fl\<lparr>fl_query := None\<rparr>) path v d = map_sum id (\<lambda>s. [NewRow path s]) (stringify x v)"
  "handleStringLike x (fl\<lparr>fl_query := Some q\<rparr>) path v d =
     map_sum id (\<lambda>s. if d < length q \<longrightarrow> queryMatchString fl s (q ! d) then [NewRow path s] else []) (stringify x v)"
  by (cases "stringify x v"; auto simp: handleStringLike_def queryAtDepth_def)+

lemma filters_leaf:
  assumes "\<And>fl'. fl' \<in> {fl\<lparr>fl_query := None\<rparr>, fl\<lparr>fl_query := Some q\<rparr>} \<Longrightarrow>
      descend x fl' fuel path data d = Some (map_sum e id (handleStringLike x fl' path v d))"
  shows "filters x fl fuel q path data d"
  unfolding filters_def
  by (cases "stringify x v") (auto simp: assms handleStringLike_query below_path_def NewRow_def)

lemma filters_step:
  assumes "filters x fl fuel q (path @ [k]) e (Suc d)"
    and "descend x (fl\<lparr>fl_query := None\<rparr>) fuel (path @ [k]) e (Suc d) = Some (Inr r)"
  shows "below_path path r"
    "(if d < length q \<longrightarrow> queryMatchString fl k (q ! d) then descend x (fl\<lparr>fl_query := Some q\<rparr>) fuel (path @ [k]) e (Suc d)
      else Some (Inr [])) = Some (Inr (filter (keeps_below fl q d path) r))"
  using assms filter_below_path(1)[of path k r fl q d] filter_below_path(2)[of path k r] unfolding filters_def by auto

lemma wildcard_or_match: "t = queryWildcard fl \<or> queryMatchString fl v t \<longleftrightarrow> queryMatchString fl v t"
  by auto

lemma descend_map_query:
  "descend x (fl\<lparr>fl_query := Some q\<rparr>) fuel path (AMap m) d =
     rows_seq ''flattening map''
       (map (\<lambda>(k, e). if d < length q \<longrightarrow> queryMatchString fl k (q ! d)
                       then descend x (fl\<lparr>fl_query := Some q\<rparr>) fuel (path @ [k]) e (Suc d) else Some (Inr [])) m)"
  by (subst descend.simps) (simp add: queryAtDepth_def wildcard_or_match not_less_eq)

lemma filters_map:
  assumes "\<And>k e. (k, e) \<in> set m \<Longrightarrow> filters x fl fuel q (path @ [k]) e (Suc d)"
  shows "filters x fl fuel q path (AMap m) d"
  unfolding filters_def descend_map_query
proof (intro allI impI conjI)
  fix rows
  let ?f = "\<lambda>(k, e). descend x (fl\<lparr>fl_query := None\<rparr>) fuel (path @ [k]) e (Suc d)"
  assume "descend x (fl\<lparr>fl_query := None\<rparr>) fuel path (AMap m) d = Some (Inr rows)"
  then have f: "rows_seq ''flattening map'' (map ?f m) = Some (Inr rows)"
    by (subst (asm) descend.simps) (simp add: queryAtDepth_None)
  show "below_path path rows"
    by (rule below_path_rows_seq[OF f]) (use filters_step(1)[OF assms] in auto)
  show "rows_seq ''flattening map''
       (map (\<lambda>(k, e). if d < length q \<longrightarrow> queryMatchString fl k (q ! d)
                       then descend x (fl\<lparr>fl_query := Some q\<rparr>) fuel (path @ [k]) e (Suc d) else Some (Inr [])) m) =
      Some (Inr (filter (keeps_below fl q d path) rows))"
    by (rule rows_seq_filter[OF f]) (use filters_step(2)[OF assms] in fastforce)
qed

lemma descend_array_query:
  assumes "queryWildcard fl = ''*''" "queryKeyDenoter fl = ''#''" "index_term q d"
  shows "descend x (fl\<lparr>fl_query := Some q\<rparr>) fuel path (AArray es) d =
     rows_seq ''flattening array element''
       (map (\<lambda>(i, e). if d < length q \<longrightarrow> queryMatchString fl (FormatInt (int i)) (q ! d)
                       then descend x (fl\<lparr>fl_query := Some q\<rparr>) fuel (path @ [FormatInt (int i)]) e (Suc d) else Some (Inr []))
          (List.enumerate 0 es))"
    "descend x (fl\<lparr>fl_query := None\<rparr>) fuel path (AArray es) d =
     rows_seq ''flattening array element''
       (map (\<lambda>(i, e). descend x (fl\<lparr>fl_query := None\<rparr>) fuel (path @ [FormatInt (int i)]) e (Suc d)) (List.enumerate 0 es))"
proof -
  have star: "element_key fl' ''*'' i e = Some (FormatInt (int i))" if "queryKeyDenoter fl' = ''#''" for i e fl'
    using that by (simp add: element_key_def HasPrefix_iff)
  have "descendArrayElement x (fl\<lparr>fl_query := Some q\<rparr>) g path i e d =
      (if d < length q \<longrightarrow> queryMatchString fl (FormatInt (int i)) (q ! d) then g (path @ [FormatInt (int i)]) else Some (Inr []))" for g i e
  proof (cases "d < length q")
    case True
    note im = index_match[of "fl\<lparr>fl_query := Some q\<rparr>", OF _ _ assms(3) True, of i e x]
    show ?thesis using im assms(1,2) True by (auto simp: descendArrayElement_def queryAtDepth_def)
  qed (simp add: descendArrayElement_def queryAtDepth_def assms(1,2) star)
  then show "descend x (fl\<lparr>fl_query := Some q\<rparr>) fuel path (AArray es) d =
     rows_seq ''flattening array element''
       (map (\<lambda>(i, e). if d < length q \<longrightarrow> queryMatchString fl (FormatInt (int i)) (q ! d)
                       then descend x (fl\<lparr>fl_query := Some q\<rparr>) fuel (path @ [FormatInt (int i)]) e (Suc d) else Some (Inr []))
          (List.enumerate 0 es))" by (subst descend.simps) (simp only: anyval.case)
  show "descend x (fl\<lparr>fl_query := None\<rparr>) fuel path (AArray es) d =
     rows_seq ''flattening array element''
       (map (\<lambda>(i, e). descend x (fl\<lparr>fl_query := None\<rparr>) fuel (path @ [FormatInt (int i)]) e (Suc d)) (List.enumerate 0 es))"
    by (subst descend.simps) (simp add: descendArrayElement_def queryAtDepth_None assms(1,2) star)
qed

lemma filters_array:
  assumes "queryWildcard fl = ''*''" "queryKeyDenoter fl = ''#''" "index_term q d"
    and "\<And>i e. e \<in> set es \<Longrightarrow> filters x fl fuel q (path @ [FormatInt (int i)]) e (Suc d)"
  shows "filters x fl fuel q path (AArray es) d"
  unfolding filters_def descend_array_query[OF assms(1-3)]
proof (intro allI impI conjI)
  fix rows
  have e: "filters x fl fuel q (path @ [FormatInt (int i)]) e (Suc d)" if "(i, e) \<in> set (List.enumerate 0 es)" for i e
    using assms(4) that by (auto simp: in_set_enumerate_eq)
  assume f: "rows_seq ''flattening array element''
       (map (\<lambda>(i, e). descend x (fl\<lparr>fl_query := None\<rparr>) fuel (path @ [FormatInt (int i)]) e (Suc d)) (List.enumerate 0 es)) = Some (Inr rows)"
  show "below_path path rows"
    by (rule below_path_rows_seq[OF f]) (use filters_step(1)[OF e] in auto)
  show "rows_seq ''flattening array element''
       (map (\<lambda>(i, e). if d < length q \<longrightarrow> queryMatchString fl (FormatInt (int i)) (q ! d)
                       then descend x (fl\<lparr>fl_query := Some q\<rparr>) fuel (path @ [FormatInt (int i)]) e (Suc d) else Some (Inr []))
          (List.enumerate 0 es)) = Some (Inr (filter (keeps_below fl q d path) rows))"
    by (rule rows_seq_filter[OF f]) (use filters_step(2)[OF e] in fastforce)
qed

lemma arrays_by_index_beyond: "length q \<le> d \<Longrightarrow> arrays_by_index q d data"
proof (induction data arbitrary: d)
  case (AMap m)
  then show ?case by (fastforce simp: list_all_iff)
qed (auto simp: list_all_iff index_term_def)

lemma filters_maps:
  assumes "length q \<le> d" and "\<And>i m. m \<in> set ms \<Longrightarrow> filters x fl fuel q (path @ [FormatInt (int i)]) (AMap m) (Suc d)"
  shows "filters x fl fuel q path (AMaps ms) d"
  unfolding filters_def
proof (intro allI impI conjI)
  fix rows
  have step: "descend x fl' fuel path (AMaps ms) d =
      rows_seq ''flattening array of maps''
        (map (\<lambda>(i, m). descend x fl' fuel (path @ [FormatInt (int i)]) (AMap m) (Suc d)) (List.enumerate 0 ms))" for fl'
    by (subst descend.simps) (simp only: anyval.case)
  have e: "filters x fl fuel q (path @ [FormatInt (int i)]) (AMap m) (Suc d)" if "(i, m) \<in> set (List.enumerate 0 ms)" for i m
    using assms(2) that by (auto simp: in_set_enumerate_eq)
  assume "descend x (fl\<lparr>fl_query := None\<rparr>) fuel path (AMaps ms) d = Some (Inr rows)"
  note f = this[unfolded step]
  show "below_path path rows"
    by (rule below_path_rows_seq[OF f]) (use filters_step(1)[OF e] in auto)
  show "descend x (fl\<lparr>fl_query := Some q\<rparr>) fuel path (AMaps ms) d = Some (Inr (filter (keeps_below fl q d path) rows))"
    unfolding step by (rule rows_seq_filter[OF f]) (use filters_step(2)[OF e] assms(1) in fastforce)
qed

lemma filters_plain:
  assumes "\<And>fl'. descend x fl' fuel path data d = Some (map_sum (ErrWrap ''flattening'') id (handleStringLike x fl' path data d))"
  shows "filters x fl fuel q path data d"
  by (rule filters_leaf) (rule assms)

lemma descend_filters:
  assumes "queryWildcard fl = ''*''" "queryKeyDenoter fl = ''#''" "\<not> includeNils fl" "\<not> expandNestedPlist fl"
    and "arrays_by_index q d data"
  shows "filters x fl fuel q path data d"
  using assms(5)
proof (induction data arbitrary: path d)
  case ANil
  then show ?case using assms(3)
    unfolding filters_def by (subst (1 2) descend.simps) (simp add: queryMatchNil_def below_path_def)
next
  case (ABytes s)
  show ?case by (rule filters_leaf[where e = id and v = "ABytes s"]) (subst descend.simps, auto simp: assms(4) sum.map_id)
next
  case (AString s)
  show ?case by (rule filters_leaf[where e = id and v = "ABytes s"]) (subst descend.simps, subst descend.simps, auto simp: assms(4) sum.map_id)
next
  case (AArray es)
  then show ?case by (intro filters_array[OF assms(1,2)]) (auto simp: list_all_iff)
next
  case (AMap m)
  then show ?case by (intro filters_map) (fastforce simp: list_all_iff)
next
  case (AMaps ms)
  then have d: "length q \<le> d" by simp
  then have "filters x fl fuel q (path @ [FormatInt (int i)] @ [k]) e (Suc (Suc d))" if "m \<in> set ms" "(k, e) \<in> set m" for i m k e
    using AMaps.IH[OF that] arrays_by_index_beyond[of q "Suc (Suc d)" e] by simp
  then show ?case by (intro filters_maps[OF d] filters_map) simp
qed (rule filters_plain, subst descend.simps, simp split: sum.splits)+

text \<open>C26: with no other option, when flattening without the query succeeds, and when every array of the data is
  asked for by the wildcard or by an index in its usual form (so by no text, no key denoter and no key/value
  match, and no term reaches a \<open>[]map[string]any\<close>), a query only filters: the rows with it are exactly the rows
  without it whose path, followed by the value, matches the query term by term, in the same order.\<close>

theorem flatten_query_filters:
  assumes "Flatten x fuel data [] = Some (Inr rows)" and "q \<noteq> []" and "q \<noteq> ['''']" and "arrays_by_index q 0 data"
  shows "Flatten x fuel data [WithQuery q] =
    Some (Inr (filter (\<lambda>r. query_keeps (newFlattener []) q 0 (Path r @ [Value r])) rows))"
proof -
  let ?fl = "newFlattener []"
  have fl: "queryWildcard ?fl = ''*''" "queryKeyDenoter ?fl = ''#''" "\<not> includeNils ?fl" "\<not> expandNestedPlist ?fl"
    and new: "newFlattener [WithQuery q] = ?fl\<lparr>fl_query := Some q\<rparr>" "?fl = ?fl\<lparr>fl_query := None\<rparr>"
    using assms(2,3) by (auto simp: newFlattener_def length_Suc_conv)
  have "descend x (?fl\<lparr>fl_query := None\<rparr>) fuel [] data 0 = Some (Inr rows)"
    using assms(1) by (simp add: Flatten_def applyPrefilter_def newFlattener_def)
  with descend_filters[OF fl assms(4), of x fuel "[]"]
  have "descend x (?fl\<lparr>fl_query := Some q\<rparr>) fuel [] data 0 = Some (Inr (filter (keeps_below ?fl q 0 []) rows))"
    unfolding filters_def by blast
  then show ?thesis unfolding Flatten_def Let_def new(1) by (simp add: applyPrefilter_def newFlattener_def)
qed

theorem flatten_query_filters_witness:
  "Flatten \<lparr>FormatFloat = \<lambda>_ _. '''', plist_Unmarshal = \<lambda>_. Inl (ErrNew ''plist'')\<rparr> 0
     (AMap [(''users'', AArray [AMap [(''name'', AString ''alex'')], AMap [(''name'', AString ''sam'')]]), (''n'', AInt 2)])
     [WithQuery [''users'', ''1'']] =
   Some (Inr [\<lparr>Path = [''users'', ''1'', ''name''], Value = ''sam''\<rparr>])"
proof -
  let ?x = "\<lparr>FormatFloat = \<lambda>_ _. '''', plist_Unmarshal = \<lambda>_. Inl (ErrNew ''plist'')\<rparr>"
  let ?d = "AMap [(''users'', AArray [AMap [(''name'', AString ''alex'')], AMap [(''name'', AString ''sam'')]]), (''n'', AInt 2)]"
  let ?rows = "[\<lparr>Path = [''users'', ''0'', ''name''], Value = ''alex''\<rparr>, \<lparr>Path = [''users'', ''1'', ''name''], Value = ''sam''\<rparr>,
     \<lparr>Path = [''n''], Value = ''2''\<rparr>]"
  have rows: "Flatten ?x 0 ?d [] = Some (Inr ?rows)" by code_simp
  have q: "[''users'', ''1''] \<noteq> []" "[''users'', ''1''] \<noteq> ['''']" by simp_all
  have one: "FormatInt 1 = ''1''" by code_simp
  then have "ParseInt ''1'' = Some 1" using ParseInt_FormatInt[of 1] by simp
  then have "arrays_by_index [''users'', ''1''] 0 ?d" using one by (simp add: index_term_def)
  note flatten_query_filters[OF rows q this]
  moreover have "filter (\<lambda>r. query_keeps (newFlattener []) [''users'', ''1''] 0 (Path r @ [Value r])) ?rows =
      [\<lparr>Path = [''users'', ''1'', ''name''], Value = ''sam''\<rparr>]" by code_simp
  ultimately show ?thesis by (simp only:)
qed

subsection \<open>Queries rewrite rows\<close>







definition gathers :: "(error + Row list) list \<Rightarrow> Row list \<Rightarrow> bool" where
  "gathers rs rows \<longleftrightarrow> (\<exists>rss. rs = map Inr rss \<and> rows = concat rss)"

lemma gathers_simps [simp]:
  "gathers [] rows \<longleftrightarrow> rows = []"
  "gathers [Inr r] rows \<longleftrightarrow> rows = r"
  "\<not> gathers [Inl err] rows"
  by (auto simp: gathers_def Cons_eq_map_conv)























subsection \<open>Nested plists come to an end\<close>

text \<open>
  The length of the longest text in a value.  When decoding a plist gives texts shorter than the plist, a
  bound on the nesting of this length is enough.
\<close>

fun longest :: "anyval \<Rightarrow> nat" where
  "longest (AString s) = length s"
| "longest (ABytes s) = length s"
| "longest (AArray es) = foldr max (map longest es) 0"
| "longest (AMap m) = foldr max (map (\<lambda>(k, e). longest e) m) 0"
| "longest (AMaps ms) = foldr max (map (\<lambda>m. foldr max (map (\<lambda>(k, e). longest e) m) 0) ms) 0"
| "longest _ = 0"

lemma foldr_max_ge: "v \<in> set xs \<Longrightarrow> (v :: nat) \<le> foldr max xs 0"
  by (induction xs) auto

lemma rows_seq_returns: "(\<And>x. x \<in> set xs \<Longrightarrow> f x \<noteq> None) \<Longrightarrow> rows_seq msg (map f xs) \<noteq> None"
proof (induction xs)
  case (Cons x xs)
  then have "rows_seq msg (map f xs) \<noteq> None" "f x \<noteq> None" by simp_all
  then show ?case by (auto split: sum.splits option.splits)
qed simp

lemma descendArrayElement_returns:
  "(\<And>p. descend_to p \<noteq> None) \<Longrightarrow> descendArrayElement x fl descend_to path idx data depth \<noteq> None"
  by (auto simp: descendArrayElement_def split: prod.splits option.splits)

lemma longest_in:
  "e \<in> set es \<Longrightarrow> longest e \<le> longest (AArray es)"
  "(k, e) \<in> set m \<Longrightarrow> longest e \<le> longest (AMap m)"
  "m \<in> set ms \<Longrightarrow> longest (AMap m) \<le> longest (AMaps ms)"
  by (force intro!: foldr_max_ge)+

lemma descend_returns:
  assumes "\<And>s d. plist_Unmarshal x s = Inr d \<Longrightarrow> longest d < length s" and "longest data \<le> fuel"
  shows "descend x fl fuel path data depth \<noteq> None"
  using assms
proof (induction x fl fuel path data depth rule: descend.induct)
  case (1 x fl fuel path data depth)
  note shorter = 1(6)
  show ?case
  proof (cases data)
    case (AArray es)
    have "descend x fl fuel p e (Suc depth) \<noteq> None" if "(i, e) \<in> set (List.enumerate 0 es)" for i e p
      using 1(3)[OF AArray that refl shorter] longest_in(1)[of e es] that 1(7) AArray by (auto simp: in_set_enumerate_eq)
    from descendArrayElement_returns[OF this]
    show ?thesis unfolding AArray by (subst descend.simps, simp only: anyval.case) (rule rows_seq_returns, auto)
  next
    case (AMap m)
    have "(if b \<or> queryMatchString fl k t then descend x fl fuel (path @ [k]) e (Suc depth) else Some (Inr [])) \<noteq> None"
      if "(k, e) \<in> set m" "queryAtDepth fl depth = (t, b)" for k e t b
      using 1(4)[OF AMap that(2)[symmetric] that(1) refl _ shorter] longest_in(2)[OF that(1)] 1(7) AMap by auto
    then show ?thesis unfolding AMap
      by (subst descend.simps, cases "queryAtDepth fl depth", simp only: anyval.case prod.case) (rule rows_seq_returns, auto)
  next
    case (AMaps ms)
    have "descend x fl fuel (path @ [FormatInt (int i)]) (AMap m) (Suc depth) \<noteq> None" if "(i, m) \<in> set (List.enumerate 0 ms)" for i m
      using 1(5)[OF AMaps that refl shorter] longest_in(3)[of m ms] that 1(7) AMaps by (auto simp: in_set_enumerate_eq)
    then show ?thesis unfolding AMaps by (subst descend.simps, simp only: anyval.case) (rule rows_seq_returns, auto)
  next
    case (AString s)
    with 1(1)[OF AString shorter] 1(7) show ?thesis by (subst descend.simps) simp
  next
    case (ABytes s)
    show ?thesis
    proof (cases "expandNestedPlist fl \<and> isPlist s \<and> (\<exists>d. plist_Unmarshal x s = Inr d)")
      case True
      then obtain d where d: "expandNestedPlist fl" "isPlist s" "plist_Unmarshal x s = Inr d" by blast
      then have "longest d < fuel" using shorter[OF d(3)] 1(7) ABytes by simp
      then obtain f where f: "fuel = Suc f" "longest d \<le> f" by (cases fuel) auto
      have "descend x fl f path d depth \<noteq> None" using 1(2)[OF ABytes _ d(3) f(1) shorter f(2)] d by simp
      then show ?thesis unfolding ABytes f(1) using d by (subst descend.simps) (auto split: sum.splits)
    qed (subst descend.simps, auto simp: ABytes split: sum.splits)
  qed (subst descend.simps, simp split: sum.splits)+
qed

end
