(* ===== verification/LogDedup.thy ===== *)
theory LogDedup
  imports Go_Strings "HOL-Library.Char_ord" "HOL-Library.List_Lexorder"
begin

text \<open>
  Suppressing bursts of equal log records: \<open>pkg/log/dedup\<close> (\<open>dedup_middleware.go\<close>, \<open>dedup_handler.go\<close>).

  The handlers downstream are values of type \<open>'n\<close>; a record handed to one is returned with it.  Times are
  nanoseconds.  SHA-256 and the formatting verb \<open>%v\<close> are parameters, and so is sorting of slices of more
  than twelve elements; up to twelve \<open>sort.Slice\<close> is an insertion sort, which is modelled because the
  order used here is not one.  Metrics are left out.  A section under the cache lock is one step.
\<close>

subsection \<open>Configuration\<close>

definition DefaultCacheExpiry :: int where
  "DefaultCacheExpiry = 5 * 60 * 1000000000"

definition DefaultMaxCacheSize :: int where
  "DefaultMaxCacheSize = 2000"

definition DefaultCleanupInterval :: int where
  "DefaultCleanupInterval = 60 * 1000000000"

definition DefaultDuplicateLogWindow :: int where
  "DefaultDuplicateLogWindow = 0"

record Config =
  CacheExpiry :: int
  MaxCacheSize :: int
  CleanupInterval :: int
  cfg_DuplicateLogWindow :: int

datatype Option =
  WithCacheExpiry int | WithMaxCacheSize int | WithCleanupInterval int | WithDuplicateLogWindow int

fun apply_option :: "Option \<Rightarrow> Config \<Rightarrow> Config" where
  "apply_option (WithCacheExpiry d) c = c\<lparr>CacheExpiry := d\<rparr>"
| "apply_option (WithMaxCacheSize n) c = c\<lparr>MaxCacheSize := n\<rparr>"
| "apply_option (WithCleanupInterval d) c = c\<lparr>CleanupInterval := d\<rparr>"
| "apply_option (WithDuplicateLogWindow d) c = c\<lparr>cfg_DuplicateLogWindow := d\<rparr>"

subsection \<open>Records and their hash\<close>

datatype attr_value = VText string | VInt int | VTime int

type_synonym attr = "string \<times> attr_value"

record log_record =
  rec_Time :: int
  rec_Level :: int
  rec_Message :: string
  rec_PC :: nat
  rec_Attrs :: "attr list"

record hash_ext =
  Level_String :: "int \<Rightarrow> string"
  Sprint_any :: "attr_value list \<Rightarrow> string"
  sha256_hex :: "string \<Rightarrow> string"
  pdqsort :: "(nat \<Rightarrow> nat \<Rightarrow> attr_value list \<Rightarrow> bool) \<Rightarrow> attr_value list \<Rightarrow> attr_value list"

definition excludedHashFields :: "string list" where
  "excludedHashFields = [''ts'', ''time'', ''caller'', ''source'', ''original.time'', ''original.source'']"

text \<open>
  \<open>sort.Slice\<close> on a short slice: \<open>sink\<close> moves the element at index \<open>j\<close> down while it is less than the one
  before it.  \<open>lt i j xs\<close> compares by index, as the function given to \<open>sort.Slice\<close> does.
\<close>

fun sink :: "(nat \<Rightarrow> nat \<Rightarrow> 'a list \<Rightarrow> bool) \<Rightarrow> nat \<Rightarrow> 'a list \<Rightarrow> 'a list" where
  "sink lt 0 xs = xs"
| "sink lt (Suc j) xs =
     (if lt (Suc j) j xs then sink lt j (xs[Suc j := xs ! j, j := xs ! Suc j]) else xs)"

definition insertionSort :: "(nat \<Rightarrow> nat \<Rightarrow> 'a list \<Rightarrow> bool) \<Rightarrow> 'a list \<Rightarrow> 'a list" where
  "insertionSort lt xs = fold (sink lt) [1..<length xs] xs"

definition sort_Slice :: "hash_ext \<Rightarrow> (nat \<Rightarrow> nat \<Rightarrow> attr_value list \<Rightarrow> bool) \<Rightarrow> attr_value list \<Rightarrow> attr_value list" where
  "sort_Slice H lt xs = (if length xs \<le> 12 then insertionSort lt xs else pdqsort H lt xs)"

definition less_keyvals :: "hash_ext \<Rightarrow> nat \<Rightarrow> nat \<Rightarrow> attr_value list \<Rightarrow> bool" where
  "less_keyvals H i j xs =
     (if i mod 2 = 0 \<and> j mod 2 = 0 then Sprint_any H [xs ! i] < Sprint_any H [xs ! j] else i < j)"

fun filter_keyvals :: "attr list \<Rightarrow> attr_value list" where
  "filter_keyvals [] = []"
| "filter_keyvals ((k, v) # kvs) =
     (if k \<in> set excludedHashFields then filter_keyvals kvs else VText k # v # filter_keyvals kvs)"

definition hashKeyValuePairs :: "hash_ext \<Rightarrow> attr list \<Rightarrow> string" where
  "hashKeyValuePairs H keyvals =
     sha256_hex H (Sprint_any H (sort_Slice H (less_keyvals H) (filter_keyvals keyvals)))"

definition hashRecordWithHandlerAttrs :: "hash_ext \<Rightarrow> log_record \<Rightarrow> attr list \<Rightarrow> string" where
  "hashRecordWithHandlerAttrs H record handlerAttrs =
     hashKeyValuePairs H
       ([(''level'', VText (Level_String H (rec_Level record))), (''msg'', VText (rec_Message record))] @
        filter (\<lambda>(k, v). k \<notin> set excludedHashFields) handlerAttrs @
        filter (\<lambda>(k, v). k \<notin> set excludedHashFields) (rec_Attrs record))"

subsection \<open>The engine\<close>

record 'n logEntry =
  firstSeen :: int
  lastSeen :: int
  entry_count :: int
  entry_level :: int
  entry_message :: string
  entry_attrs :: "attr list"
  entry_pc :: nat
  entry_next :: 'n

record 'n Engine =
  eng_cfg :: Config
  cache :: "(string \<times> 'n logEntry) list"
  cleanupRunning :: bool
  started :: bool
  duplicateLogWindow :: int

definition dedup_New :: "Option list \<Rightarrow> 'n Engine" where
  "dedup_New opts =
     (let cfg = fold apply_option opts
        \<lparr>CacheExpiry = DefaultCacheExpiry, MaxCacheSize = DefaultMaxCacheSize, CleanupInterval = DefaultCleanupInterval,
         cfg_DuplicateLogWindow = DefaultDuplicateLogWindow\<rparr>
      in \<lparr>eng_cfg = cfg, cache = [], cleanupRunning = False, started = False, duplicateLogWindow = cfg_DuplicateLogWindow cfg\<rparr>)"

definition dedup_Start :: "'n Engine \<Rightarrow> 'n Engine" where
  "dedup_Start d = (if started d then d else d\<lparr>started := True\<rparr>)"

definition dedup_Stop :: "'n Engine \<Rightarrow> 'n Engine" where
  "dedup_Stop d = d\<lparr>started := False\<rparr>"

definition SetDuplicateLogWindow :: "int \<Rightarrow> 'n Engine \<Rightarrow> 'n Engine" where
  "SetDuplicateLogWindow window d = d\<lparr>duplicateLogWindow := window\<rparr>"

text \<open>
  What becomes of a record: it is passed because deduplication is off, passed as the first of its kind,
  passed with the number of occurrences since the one passed before, or suppressed.
\<close>

datatype outcome = Bypassed | First | Counted int | Suppressed

definition collectAttrs :: "log_record \<Rightarrow> attr list" where
  "collectAttrs record = rec_Attrs record"

text \<open>The section of \<open>handleRecord\<close> under the lock.\<close>

definition dedup_lookup ::
  "string \<Rightarrow> int \<Rightarrow> log_record \<Rightarrow> 'n \<Rightarrow> 'n Engine \<Rightarrow> 'n Engine \<times> outcome \<times> (int \<times> int)" where
  "dedup_lookup hash now record next d =
     (case map_of (cache d) hash of
        None \<Rightarrow>
          (d\<lparr>cache := AList.update hash
               \<lparr>firstSeen = now, lastSeen = now, entry_count = 1, entry_level = rec_Level record,
                entry_message = rec_Message record, entry_attrs = collectAttrs record, entry_pc = rec_PC record,
                entry_next = next\<rparr> (cache d)\<rparr>, First, (0, 0))
      | Some e \<Rightarrow>
          let e1 = e\<lparr>lastSeen := now, entry_count := entry_count e + 1, entry_next := next\<rparr>
          in if now - firstSeen e1 \<ge> duplicateLogWindow d
             then (d\<lparr>cache := AList.update hash (e1\<lparr>firstSeen := now, lastSeen := now, entry_count := 1\<rparr>) (cache d)\<rparr>,
                   Counted (entry_count e1), (firstSeen e1, lastSeen e1))
             else (d\<lparr>cache := AList.update hash e1 (cache d)\<rparr>, Suppressed, (0, 0)))"

definition handleRecord ::
  "hash_ext \<Rightarrow> int \<Rightarrow> log_record \<Rightarrow> attr list \<Rightarrow> 'n \<Rightarrow> 'n Engine \<Rightarrow> 'n Engine \<times> outcome \<times> ('n \<times> log_record) list" where
  "handleRecord H now record handlerAttrs next d =
     (if \<not> started d \<or> duplicateLogWindow d \<le> 0 then (d, Bypassed, [(next, record)])
      else case dedup_lookup (hashRecordWithHandlerAttrs H record handlerAttrs) now record next d of
          (d', Suppressed, _) \<Rightarrow> (d', Suppressed, [])
        | (d', Counted n, first, lst) \<Rightarrow>
            (d', Counted n, [(next, record\<lparr>rec_Attrs := rec_Attrs record @
               [(''duplicate_count'', VInt n), (''first_seen'', VTime first), (''last_seen'', VTime lst)]\<rparr>)])
        | (d', outcome, _) \<Rightarrow> (d', outcome, [(next, record)]))"

subsection \<open>Cleanup\<close>

text \<open>The entries that have expired, in the order the map is ranged over, and those that stay.\<close>

definition cleanup_expired :: "int \<Rightarrow> 'n Engine \<Rightarrow> string \<times> 'n logEntry \<Rightarrow> bool" where
  "cleanup_expired now d p = (\<not> now - lastSeen (snd p) \<le> CacheExpiry (eng_cfg d))"

text \<open>
  The oldest entries of a cache that is too big; ranging over the map decides between equal times.  With a
  negative maximum more entries are asked for than there are, and indexing past them panics.
\<close>

definition cleanup_evict ::
  "nat list \<Rightarrow> int \<Rightarrow> (string \<times> 'n logEntry) list \<Rightarrow> (string \<times> 'n logEntry) list option" where
  "cleanup_evict seed maxSize c =
     (if int (length c) > maxSize
      then let items = sort_key (\<lambda>p. lastSeen (snd p)) (go_range seed c);
               removeCount = nat (int (length c) - maxSize)
           in if removeCount > length items then None else Some (take removeCount items)
      else Some [])"

definition summary_record :: "int \<Rightarrow> 'n logEntry \<Rightarrow> log_record" where
  "summary_record now e =
     \<lparr>rec_Time = now, rec_Level = entry_level e, rec_Message = entry_message e, rec_PC = entry_pc e,
      rec_Attrs = entry_attrs e @
        [(''duplicate_count'', VInt (entry_count e)), (''original_msg'', VText (entry_message e)),
         (''first_seen'', VTime (firstSeen e)), (''last_seen'', VTime (lastSeen e))]\<rparr>"

text \<open>
  What cleanup removes with a summary is returned by hash and count, with the records it hands on.  The
  summaries carry the time \<open>emitted\<close> at which they are made.
\<close>

definition performCleanup ::
  "nat list \<Rightarrow> nat list \<Rightarrow> int \<Rightarrow> int \<Rightarrow> 'n Engine
     \<Rightarrow> ('n Engine \<times> (string \<times> int) list \<times> ('n \<times> log_record) list) option" where
  "performCleanup seed1 seed2 now emitted d =
     (if cleanupRunning d then Some (d, [], [])
      else let expired = filter (cleanup_expired now d) (go_range seed1 (cache d));
               kept = filter (\<lambda>p. \<not> cleanup_expired now d p) (cache d)
           in case cleanup_evict seed2 (MaxCacheSize (eng_cfg d)) kept of
                None \<Rightarrow> None
              | Some evicted \<Rightarrow>
                  (let toEmit = filter (\<lambda>p. entry_count (snd p) > 1) (expired @ evicted)
                   in Some (d\<lparr>cache := filter (\<lambda>p. fst p \<notin> fst ` set evicted) kept\<rparr>,
                            map (\<lambda>(h, e). (h, entry_count e)) toEmit,
                            map (\<lambda>(h, e). (entry_next e, summary_record emitted e)) toEmit)))"

subsection \<open>The handler\<close>

text \<open>A downstream handler has its own \<open>WithAttrs\<close> and \<open>WithGroup\<close>.\<close>

record 'n downstream =
  next_WithAttrs :: "'n \<Rightarrow> attr list \<Rightarrow> 'n"
  next_WithGroup :: "'n \<Rightarrow> string \<Rightarrow> 'n"

record 'n dedupHandler =
  h_next :: 'n
  h_attrs :: "attr list"
  h_groups :: "string list"

definition NewMiddleware :: "'n \<Rightarrow> 'n dedupHandler" where
  "NewMiddleware next = \<lparr>h_next = next, h_attrs = [], h_groups = []\<rparr>"

definition dedup_Handle ::
  "hash_ext \<Rightarrow> 'n dedupHandler \<Rightarrow> int \<Rightarrow> log_record \<Rightarrow> 'n Engine \<Rightarrow> 'n Engine \<times> outcome \<times> ('n \<times> log_record) list" where
  "dedup_Handle H h now record d = handleRecord H now record (h_attrs h) (h_next h) d"

definition dedup_WithAttrs :: "'n downstream \<Rightarrow> attr list \<Rightarrow> 'n dedupHandler \<Rightarrow> 'n dedupHandler" where
  "dedup_WithAttrs D attrs h = h\<lparr>h_next := next_WithAttrs D (h_next h) attrs, h_attrs := h_attrs h @ attrs\<rparr>"

definition dedup_WithGroup :: "'n downstream \<Rightarrow> string \<Rightarrow> 'n dedupHandler \<Rightarrow> 'n dedupHandler" where
  "dedup_WithGroup D name h =
     (if name = '''' then h else h\<lparr>h_next := next_WithGroup D (h_next h) name, h_groups := h_groups h @ [name]\<rparr>)"

subsection \<open>Runs\<close>

text \<open>
  A sequence of calls, and what it reports: the outcome of each record by its hash, and the summaries of
  cleanups by hash and count.
\<close>

datatype 'n dedup_op =
    OpRecord int log_record "attr list" 'n
  | OpCleanup "nat list" "nat list" int int
  | OpWindow int
  | OpStart
  | OpStop

datatype dedup_event = EvOutcome string outcome | EvSummary string int

fun dedup_step :: "hash_ext \<Rightarrow> 'n dedup_op \<Rightarrow> 'n Engine \<Rightarrow> ('n Engine \<times> dedup_event list) option" where
  "dedup_step H (OpRecord now r attrs next) d =
     (case handleRecord H now r attrs next d of
        (d', outcome, _) \<Rightarrow> Some (d', [EvOutcome (hashRecordWithHandlerAttrs H r attrs) outcome]))"
| "dedup_step H (OpCleanup seed1 seed2 now emitted) d =
     map_option (\<lambda>(d', summaries, _). (d', map (\<lambda>(h, n). EvSummary h n) summaries))
       (performCleanup seed1 seed2 now emitted d)"
| "dedup_step H (OpWindow w) d = Some (SetDuplicateLogWindow w d, [])"
| "dedup_step H OpStart d = Some (dedup_Start d, [])"
| "dedup_step H OpStop d = Some (dedup_Stop d, [])"

fun dedup_run :: "hash_ext \<Rightarrow> 'n dedup_op list \<Rightarrow> 'n Engine \<Rightarrow> ('n Engine \<times> dedup_event list) option" where
  "dedup_run H [] d = Some (d, [])"
| "dedup_run H (op # ops) d =
     (case dedup_step H op d of
        None \<Rightarrow> None
      | Some (d1, es1) \<Rightarrow> map_option (\<lambda>(d2, es2). (d2, es1 @ es2)) (dedup_run H ops d1))"

text \<open>The records of a hash that were suppressed, those a later record or summary accounts for, and those still counted.\<close>

definition suppressed :: "string \<Rightarrow> dedup_event list \<Rightarrow> int" where
  "suppressed h es = int (length (filter (\<lambda>e. e = EvOutcome h Suppressed) es))"

fun event_reports :: "string \<Rightarrow> dedup_event \<Rightarrow> int" where
  "event_reports h (EvOutcome h' (Counted n)) = (if h' = h then n - 2 else 0)"
| "event_reports h (EvSummary h' n) = (if h' = h then n - 1 else 0)"
| "event_reports h _ = 0"

definition reported :: "string \<Rightarrow> dedup_event list \<Rightarrow> int" where
  "reported h es = sum_list (map (event_reports h) es)"

definition pending :: "string \<Rightarrow> 'n Engine \<Rightarrow> int" where
  "pending h d = (case map_of (cache d) h of None \<Rightarrow> 0 | Some e \<Rightarrow> entry_count e - 1)"

definition cache_ok :: "'n Engine \<Rightarrow> bool" where
  "cache_ok d \<longleftrightarrow> distinct (map fst (cache d)) \<and> list_all (\<lambda>(h, e). 1 \<le> entry_count e) (cache d)"

lemma suppressed_append [simp]: "suppressed h (es @ fs) = suppressed h es + suppressed h fs"
  by (simp add: suppressed_def)

lemma reported_append [simp]: "reported h (es @ fs) = reported h es + reported h fs"
  by (simp add: reported_def)

lemma reported_events: "suppressed h (map (\<lambda>(h, n). EvSummary h n) ss) = 0"
  by (auto simp: suppressed_def filter_empty_conv)

lemma set_AList_update: "(h', e') \<in> set (AList.update h e c) \<Longrightarrow> e' = e \<or> (h', e') \<in> set c"
  by (induction c) (auto split: if_splits)

lemma cache_update:
  assumes "cache_ok d" "1 \<le> entry_count e"
  shows "cache_ok (d\<lparr>cache := AList.update h e (cache d)\<rparr>)"
    "pending h' (d\<lparr>cache := AList.update h e (cache d)\<rparr>) = (if h' = h then entry_count e - 1 else pending h' d)"
proof -
  show "cache_ok (d\<lparr>cache := AList.update h e (cache d)\<rparr>)"
    using assms by (auto simp: cache_ok_def list_all_iff distinct_update dest!: set_AList_update)
  show "pending h' (d\<lparr>cache := AList.update h e (cache d)\<rparr>) = (if h' = h then entry_count e - 1 else pending h' d)"
    by (simp add: pending_def update_conv')
qed

lemma handleRecord_accounts:
  assumes "cache_ok d" "handleRecord H now r attrs next d = (d', outcome, out)"
  shows "cache_ok d' \<and> suppressed h [EvOutcome (hashRecordWithHandlerAttrs H r attrs) outcome] + pending h d =
    reported h [EvOutcome (hashRecordWithHandlerAttrs H r attrs) outcome] + pending h d'"
proof (cases "started d \<and> 0 < duplicateLogWindow d")
  case True
  let ?h = "hashRecordWithHandlerAttrs H r attrs"
  show ?thesis
  proof (cases "map_of (cache d) ?h")
    case None
    with True assms(2) cache_update[OF assms(1)] show ?thesis
      by (auto simp: handleRecord_def dedup_lookup_def suppressed_def reported_def pending_def)
  next
    case (Some e)
    have "1 \<le> entry_count e" using assms(1) map_of_SomeD[OF Some] by (auto simp: cache_ok_def list_all_iff)
    with Some True assms(2) cache_update[OF assms(1)] show ?thesis
      by (auto simp: handleRecord_def dedup_lookup_def Let_def suppressed_def reported_def pending_def split: if_splits)
  qed
qed (use assms in \<open>auto simp: handleRecord_def suppressed_def reported_def\<close>)

text \<open>What a cleanup takes out of the cache: every entry once, and no other entry.\<close>

lemma sum_of_key:
  "distinct (map fst xs) \<Longrightarrow>
   sum_list (map (\<lambda>(h', e). if h' = h then f e else 0) xs) = (case map_of xs h of None \<Rightarrow> 0 | Some e \<Rightarrow> (f e :: int))"
proof (induction xs)
  case (Cons x xs)
  obtain h' e where x: "x = (h', e)" by (cases x)
  with Cons have "h' = h \<Longrightarrow> map_of xs h = None" by (auto simp: map_of_eq_None_iff)
  with Cons x show ?case by auto
qed simp

lemma sum_filter_zero:
  "(\<And>x. x \<in> set xs \<Longrightarrow> \<not> P x \<Longrightarrow> f x = 0) \<Longrightarrow> sum_list (map f (filter P xs)) = (sum_list (map f xs) :: int)"
  by (induction xs) auto

lemma distinct_keys_sort_key: "distinct (map fst (sort_key f xs)) = distinct (map fst xs)"
  by (metis mset_map mset_sort mset_eq_imp_distinct_iff)

lemma cleanup_evict_set:
  assumes "0 \<le> n" "distinct (map fst c)"
  obtains r where "cleanup_evict seed n c = Some r" "distinct (map fst r)" "set r \<subseteq> set c"
    "int (length c - length r) \<le> n"
proof (cases "int (length c) > n")
  case True
  let ?r = "take (nat (int (length c) - n)) (sort_key (\<lambda>p. lastSeen (snd p)) (go_range seed c))"
  show ?thesis
    by (rule that[of ?r])
       (use assms True in \<open>auto simp: cleanup_evict_def Let_def take_map[symmetric] distinct_keys_sort_key dest: in_set_takeD\<close>)
qed (use assms in \<open>auto intro: that[of "[]"] simp: cleanup_evict_def\<close>)

lemma map_of_without:
  "map_of (filter (\<lambda>p. fst p \<notin> K) c) h = (if h \<in> K then None else map_of c h)"
  by (induction c) auto

lemma map_of_expired:
  assumes "distinct (map fst c)"
  shows "map_of (filter P (go_range seed c)) h = (case map_of c h of None \<Rightarrow> None | Some e \<Rightarrow> if P (h, e) then Some e else None)"
    and "map_of (filter (\<lambda>p. \<not> P p) c) h = (case map_of c h of None \<Rightarrow> None | Some e \<Rightarrow> if P (h, e) then None else Some e)"
proof -
  have gen: "map_of (filter Q xs) h = (case map_of xs h of None \<Rightarrow> None | Some e \<Rightarrow> if Q (h, e) then Some e else None)"
    if "distinct (map fst xs)" for Q and xs :: "('a \<times> 'b) list"
    using that by (induction xs) (auto simp: map_of_eq_None_iff split: option.splits dest: map_of_SomeD)
  have "map_of (go_range seed c) = map_of c"
    using assms by (intro map_of_inject_set[THEN iffD2]) auto
  with assms gen[of "go_range seed c" P] gen[of c "\<lambda>p. \<not> P p"] show
    "map_of (filter P (go_range seed c)) h = (case map_of c h of None \<Rightarrow> None | Some e \<Rightarrow> if P (h, e) then Some e else None)"
    "map_of (filter (\<lambda>p. \<not> P p) c) h = (case map_of c h of None \<Rightarrow> None | Some e \<Rightarrow> if P (h, e) then None else Some e)"
    by (auto split: option.splits)
qed

lemma map_of_sub:
  assumes "distinct (map fst c)" "distinct (map fst r)" "set r \<subseteq> set c"
  shows "map_of r h = (if h \<in> fst ` set r then map_of c h else None)"
  using assms by (auto simp: map_of_eq_None_iff)

text \<open>The counts handed out for the entries taken out.\<close>

lemma reported_summaries:
  assumes "distinct (map fst xs)" "\<And>h e. (h, e) \<in> set xs \<Longrightarrow> 1 \<le> entry_count e"
  shows "reported h (map (\<lambda>(h, n). EvSummary h n) (map (\<lambda>(h, e). (h, entry_count e)) (filter (\<lambda>p. entry_count (snd p) > 1) xs)))
    = (case map_of xs h of None \<Rightarrow> 0 | Some e \<Rightarrow> entry_count e - 1)"
proof -
  let ?f = "\<lambda>(h', e). if h' = h then entry_count e - 1 else 0"
  have "reported h (map (\<lambda>(h, n). EvSummary h n) (map (\<lambda>(h, e). (h, entry_count e)) (filter (\<lambda>p. entry_count (snd p) > 1) xs)))
      = sum_list (map ?f (filter (\<lambda>p. entry_count (snd p) > 1) xs))"
    unfolding reported_def by (induction xs) auto
  also have "\<dots> = sum_list (map ?f xs)"
    by (rule sum_filter_zero) (use assms(2) in \<open>force split: if_splits\<close>)
  finally show ?thesis
    using sum_of_key[OF assms(1)] by simp
qed

lemma removed_entries:
  fixes c :: "('a \<times> 'b) list"
  assumes dist: "distinct (map fst c)" and r: "distinct (map fst r)" "set r \<subseteq> set (filter (\<lambda>p. \<not> P p) c)"
  shows "distinct (map fst (filter P (go_range seed c) @ r))"
    and "map_of c h = (case map_of (filter P (go_range seed c) @ r) h of
           None \<Rightarrow> map_of (filter (\<lambda>p. fst p \<notin> fst ` set r) (filter (\<lambda>p. \<not> P p) c)) h | Some e \<Rightarrow> Some e)"
    and "map_of (filter (\<lambda>p. fst p \<notin> fst ` set r) (filter (\<lambda>p. \<not> P p) c)) h \<noteq> None
           \<longrightarrow> map_of (filter P (go_range seed c) @ r) h = None"
proof -
  have dk: "distinct (map fst (filter (\<lambda>p. \<not> P p) c))" using dist by (rule distinct_map_filter)
  note ex = map_of_expired[OF dist, of P] and sub = map_of_sub[OF dk r]
  have mem: "map_of (filter P (go_range seed c)) k = None" if "k \<in> fst ` set r" for k
  proof -
    from that obtain e where "(k, e) \<in> set c" "\<not> P (k, e)" using r(2) by auto
    then show ?thesis using map_of_is_SomeI[OF dist] by (simp add: ex(1))
  qed
  then have "fst ` set (filter P (go_range seed c)) \<inter> fst ` set r = {}"
    unfolding map_of_eq_None_iff by blast
  then show "distinct (map fst (filter P (go_range seed c) @ r))"
    using r(1) dist distinct_map_filter[of fst "go_range seed c" P] by simp
  show "map_of c h = (case map_of (filter P (go_range seed c) @ r) h of
           None \<Rightarrow> map_of (filter (\<lambda>p. fst p \<notin> fst ` set r) (filter (\<lambda>p. \<not> P p) c)) h | Some e \<Rightarrow> Some e)"
    unfolding map_of_without map_of_append map_add_def sub ex by (simp split: option.split)
  show "map_of (filter (\<lambda>p. fst p \<notin> fst ` set r) (filter (\<lambda>p. \<not> P p) c)) h \<noteq> None
           \<longrightarrow> map_of (filter P (go_range seed c) @ r) h = None"
    unfolding map_of_without map_of_append map_add_def sub ex by (simp split: option.split)
qed

lemma performCleanup_accounts:
  assumes ok: "cache_ok d" and size: "0 \<le> MaxCacheSize (eng_cfg d)"
  obtains d' ss out where "performCleanup seed1 seed2 now emitted d = Some (d', ss, out)" "cache_ok d'" "eng_cfg d' = eng_cfg d"
    "\<And>h. pending h d = reported h (map (\<lambda>(h, n). EvSummary h n) ss) + pending h d'"
proof (cases "cleanupRunning d")
  case False
  define expired where "expired = filter (cleanup_expired now d) (go_range seed1 (cache d))"
  define kept where "kept = filter (\<lambda>p. \<not> cleanup_expired now d p) (cache d)"
  have dist: "distinct (map fst (cache d))" and cnt: "\<And>h e. (h, e) \<in> set (cache d) \<Longrightarrow> 1 \<le> entry_count e"
    using ok by (auto simp: cache_ok_def list_all_iff)
  have dk: "distinct (map fst kept)" using dist by (simp add: kept_def distinct_map_filter)
  obtain r where r: "cleanup_evict seed2 (MaxCacheSize (eng_cfg d)) kept = Some r" "distinct (map fst r)" "set r \<subseteq> set kept"
    using cleanup_evict_set[OF size dk] by metis
  define d' where "d' = d\<lparr>cache := filter (\<lambda>p. fst p \<notin> fst ` set r) kept\<rparr>"
  define xs where "xs = expired @ r"
  note rem = removed_entries[OF dist r(2) r(3)[unfolded kept_def], where seed = seed1, folded expired_def kept_def, folded xs_def]
  have cx: "\<And>h e. (h, e) \<in> set xs \<Longrightarrow> 1 \<le> entry_count e"
    using cnt r(3) by (auto simp: xs_def expired_def kept_def)
  note rep = reported_summaries[of xs, OF rem(1) cx, simplified]
  have pend: "pending h d = (case map_of xs h of None \<Rightarrow> 0 | Some e \<Rightarrow> entry_count e - 1) + pending h d'" for h
    using rem(2,3)[of h] by (auto simp: pending_def d'_def split: option.splits)
  have "cache_ok d'"
    using cnt dist by (auto simp: cache_ok_def list_all_iff distinct_map_filter kept_def d'_def)
  moreover have "performCleanup seed1 seed2 now emitted d = Some (d',
      map (\<lambda>(h, e). (h, entry_count e)) (filter (\<lambda>p. entry_count (snd p) > 1) xs),
      map (\<lambda>(h, e). (entry_next e, summary_record emitted e)) (filter (\<lambda>p. entry_count (snd p) > 1) xs))"
    unfolding performCleanup_def Let_def kept_def[symmetric] expired_def[symmetric] r(1) d'_def xs_def using False by simp
  moreover have "eng_cfg d' = eng_cfg d" by (simp add: d'_def)
  ultimately show ?thesis
    using pend by (intro that[of d']) (assumption | simp add: rep)+
qed (use assms in \<open>auto intro!: that simp: performCleanup_def reported_def\<close>)

lemma handleRecord_cfg:
  "handleRecord H now r attrs next d = (d', outcome, out) \<Longrightarrow> eng_cfg d' = eng_cfg d"
  by (auto simp: handleRecord_def dedup_lookup_def Let_def split: if_splits option.splits)

lemma dedup_step_accounts:
  assumes "cache_ok d" "0 \<le> MaxCacheSize (eng_cfg d)"
  obtains d' es where "dedup_step H op d = Some (d', es)" "cache_ok d'" "eng_cfg d' = eng_cfg d"
    "\<And>h. suppressed h es + pending h d = reported h es + pending h d'"
proof (cases op)
  case (OpCleanup s1 s2 now emitted)
  have none: "suppressed h (map (\<lambda>(h, n). EvSummary h n) ss) = 0" for h ss
    by (induction ss) (simp_all add: suppressed_def case_prod_unfold del: filter_map)
  obtain d' ss out where c: "performCleanup s1 s2 now emitted d = Some (d', ss, out)" "cache_ok d'" "eng_cfg d' = eng_cfg d"
    "\<And>h. pending h d = reported h (map (\<lambda>(h, n). EvSummary h n) ss) + pending h d'"
    using performCleanup_accounts[OF assms] by metis
  show ?thesis
    by (rule that[of d' "map (\<lambda>(h, n). EvSummary h n) ss"]) (use c in \<open>simp_all add: OpCleanup none\<close>)
next
  case (OpRecord now r attrs nx)
  obtain d' outcome out where c: "handleRecord H now r attrs nx d = (d', outcome, out)"
    by (metis prod.collapse)
  show ?thesis
    by (rule that[OF _ _ handleRecord_cfg[OF c]])
       (use handleRecord_accounts[OF assms(1) c] in \<open>auto simp: OpRecord c\<close>)
qed (use assms in \<open>auto intro!: that simp: SetDuplicateLogWindow_def dedup_Start_def dedup_Stop_def cache_ok_def pending_def suppressed_def reported_def\<close>)

lemma dedup_run_accounts:
  assumes "cache_ok d" "0 \<le> MaxCacheSize (eng_cfg d)"
  shows "\<exists>d' es. dedup_run H ops d = Some (d', es) \<and> (\<forall>h. suppressed h es + pending h d = reported h es + pending h d')"
  using assms
proof (induction ops arbitrary: d)
  case (Cons op ops)
  obtain d1 es1 where s: "dedup_step H op d = Some (d1, es1)" "cache_ok d1" "eng_cfg d1 = eng_cfg d"
    and a: "\<And>h. suppressed h es1 + pending h d = reported h es1 + pending h d1"
    using dedup_step_accounts[OF Cons.prems] by metis
  then obtain d2 es2 where t: "dedup_run H ops d1 = Some (d2, es2)"
    and b: "\<And>h. suppressed h es2 + pending h d1 = reported h es2 + pending h d2"
    using Cons by metis
  have "suppressed h (es1 @ es2) + pending h d = reported h (es1 @ es2) + pending h d2" for h
    using a[of h] b[of h] by simp
  with s(1) t show ?case by simp
qed (simp add: suppressed_def reported_def)

lemma dedup_New_empty: "cache (dedup_New opts) = []"
  by (simp add: dedup_New_def Let_def)

text \<open>C8: no log record is lost silently: after any sequence of records, cleanups, window changes, starts and stops
  of a new engine whose maximum cache size is not negative (none of which panics), the records of a hash that
  were suppressed are exactly those counted by the records and summaries emitted for it together with those
  its cache entry still counts.\<close>

theorem dedup_accounts_for_suppressed:
  assumes "0 \<le> MaxCacheSize (eng_cfg (dedup_New opts :: 'n Engine))"
  shows "\<exists>d es. dedup_run H ops (dedup_New opts :: 'n Engine) = Some (d, es) \<and>
    (\<forall>h. suppressed h es = reported h es + pending h d)"
proof -
  have "cache_ok (dedup_New opts :: 'n Engine)" "\<And>h. pending h (dedup_New opts :: 'n Engine) = 0"
    by (simp_all add: cache_ok_def pending_def dedup_New_empty)
  with dedup_run_accounts[OF _ assms, where H = H and ops = ops] show ?thesis
    by simp
qed

text \<open>A burst of five equal records in a window of ten nanoseconds, and the cleanup after it expired.\<close>

definition example_hash :: hash_ext where
  "example_hash = \<lparr>Level_String = (\<lambda>_. ''INFO''), Sprint_any = (\<lambda>_. ''x''), sha256_hex = (\<lambda>s. s), pdqsort = (\<lambda>_ xs. xs)\<rparr>"

definition example_record :: log_record where
  "example_record = \<lparr>rec_Time = 0, rec_Level = 0, rec_Message = ''m'', rec_PC = 0, rec_Attrs = []\<rparr>"

definition example_burst :: "nat dedup_op list" where
  "example_burst = OpStart # OpWindow 10 # map (\<lambda>t. OpRecord t example_record [] 0) [1, 2, 3, 4, 20] @
     [OpRecord 21 example_record [] 0, OpCleanup [] [] 1000000000000 1000000000000]"

theorem dedup_accounts_for_suppressed_witness:
  "\<exists>d es. dedup_run example_hash example_burst (dedup_New []) = Some (d, es) \<and>
    (\<forall>h. suppressed h es = reported h es + pending h d)"
proof -
  have "0 \<le> MaxCacheSize (eng_cfg (dedup_New [] :: nat Engine))" by code_simp
  then show ?thesis by (rule dedup_accounts_for_suppressed)
qed

text \<open>
  The keys and values of a record are not brought into an order: the comparison looks at positions of
  different parity only, so up to six attributes the sort leaves the slice as it is.
\<close>

lemma sort_Slice_keyvals_id:
  assumes "length xs \<le> 12"
  shows "sort_Slice H (less_keyvals H) xs = xs"
proof -
  have sink: "sink (less_keyvals H) j ys = ys" for j ys
    by (cases j) (auto simp: less_keyvals_def mod_Suc)
  have "fold (sink (less_keyvals H)) js ys = ys" for js ys
    by (induction js arbitrary: ys) (simp_all add: sink)
  with assms show ?thesis by (simp add: sort_Slice_def insertionSort_def)
qed

text \<open>A cleanup leaves no more entries than the maximum.\<close>

lemma length_without:
  assumes "distinct (map fst c)" "distinct (map fst r)" "set r \<subseteq> set c"
  shows "length (filter (\<lambda>p. fst p \<notin> fst ` set r) c) = length c - length r"
proof -
  have "set (filter (\<lambda>p. fst p \<notin> fst ` set r) c) = set c - set r"
    using assms by (auto simp: distinct_map inj_on_def)
  moreover have "distinct (filter (\<lambda>p. fst p \<notin> fst ` set r) c)" "distinct c" "distinct r"
    using assms by (auto simp: distinct_map)
  ultimately show ?thesis
    using assms(3) by (metis card_Diff_subset distinct_card List.finite_set)
qed

lemma performCleanup_bounds:
  assumes "cache_ok d" "0 \<le> MaxCacheSize (eng_cfg d)" "\<not> cleanupRunning d"
    and "performCleanup seed1 seed2 now emitted d = Some (d', ss, out)"
  shows "int (length (cache d')) \<le> MaxCacheSize (eng_cfg d)"
proof -
  define kept where "kept = filter (\<lambda>p. \<not> cleanup_expired now d p) (cache d)"
  have dk: "distinct (map fst kept)"
    using assms(1) by (simp add: kept_def distinct_map_filter cache_ok_def)
  obtain r where r: "cleanup_evict seed2 (MaxCacheSize (eng_cfg d)) kept = Some r" "distinct (map fst r)" "set r \<subseteq> set kept"
    "int (length kept - length r) \<le> MaxCacheSize (eng_cfg d)"
    using cleanup_evict_set[OF assms(2) dk] by metis
  have "cache d' = filter (\<lambda>p. fst p \<notin> fst ` set r) kept"
    using assms(3,4) r(1) unfolding performCleanup_def Let_def kept_def[symmetric] by auto
  then show ?thesis
    using length_without[OF dk r(2,3)] r(4) by simp
qed

end
