(* ===== verification/RunGroup.thy ===== *)
theory RunGroup
  imports Launcher_Prelude
begin

text \<open>
  The group of actors launcher runs as: \<open>pkg/rungroup/rungroup.go\<close>, with \<open>ee/gowrapper/goroutine.go\<close>.

  \<open>Run\<close> and the goroutines it starts are the actions of a step function; any sequence of actions that are
  enabled is an interleaving.  The actors' functions are unknown code: \<open>execute\<close> may return any error or panic
  with any value at any time, or never, and so may \<open>interrupt\<close>.  The weighted semaphore is a library, given by
  its operations; \<open>Acquire\<close> is \<open>None\<close> while it has to wait.  Time is in nanoseconds and passes by the action
  \<open>Tick\<close>.  Logging and profiling labels are left out.
\<close>

subsection \<open>Groups\<close>

text \<open>The functions of an actor are the environment of the model, so its name is what is left of it.\<close>

record rungroupActor =
  actor_name :: string

record actorError =
  errorSourceName :: string
  ae_err :: "error option"

record Group =
  rg_actors :: "rungroupActor list"

definition InterruptTimeout :: int where
  "InterruptTimeout = 10 * 1000000000"

definition executeReturnTimeout :: int where
  "executeReturnTimeout = 5 * 1000000000"

definition NewRunGroup :: Group where
  "NewRunGroup = \<lparr>rg_actors = []\<rparr>"

definition rg_Add :: "string \<Rightarrow> Group \<Rightarrow> Group" where
  "rg_Add name g = g\<lparr>rg_actors := rg_actors g @ [\<lparr>actor_name = name\<rparr>]\<rparr>"

abbreviation actor_count :: "Group \<Rightarrow> nat" where
  "actor_count g \<equiv> length (rg_actors g)"

record 's semaphore =
  sem_NewWeighted :: "int \<Rightarrow> 's"
  sem_Acquire :: "'s \<Rightarrow> int \<Rightarrow> 's option"
  sem_Release :: "'s \<Rightarrow> int \<Rightarrow> 's"

text \<open>
  What is documented of it: a semaphore of a given size lets a weight be acquired when what is held and the
  weight do not exceed the size, and a release gives the weight back.  \<open>view\<close> reads the size and what is held.
\<close>

definition counts_weight :: "'s semaphore \<Rightarrow> ('s \<Rightarrow> int \<times> int) \<Rightarrow> bool" where
  "counts_weight S view \<longleftrightarrow>
     (\<forall>n. view (sem_NewWeighted S n) = (n, 0)) \<and>
     (\<forall>s size held k. view s = (size, held) \<longrightarrow>
        view (sem_Release S s k) = (size, held - k) \<and>
        (if held + k \<le> size then \<exists>s'. sem_Acquire S s k = Some s' \<and> view s' = (size, held + k)
         else sem_Acquire S s k = None))"

subsection \<open>Running a group\<close>

text \<open>
  The goroutine of an actor's \<open>execute\<close>, which sends what it returned on the channel; the goroutine of its
  \<open>interrupt\<close>; and where \<open>Run\<close> is: starting actors, waiting for the first to stop, signalling the others,
  waiting for interrupts until a deadline, and collecting the rest until another.
\<close>

datatype exec_status = NotStarted | Executing | Sending actorError | Sent

datatype intr_status = NotSpawned | Spawned | Interrupting | Interrupted

datatype run_phase =
    Launching nat | AwaitFirst | Signalling nat | AwaitInterrupts int | Collecting nat int | Finished "error option"

record 's rungroup =
  rg_phase :: run_phase
  rg_exec :: "exec_status list"
  rg_intr :: "intr_status list"
  actorErrors :: "actorError list"
  initialActorErr :: "actorError option"
  interruptWait :: 's
  rg_clock :: int

datatype rg_action =
    ActMain | ActTimeout | ActReturns nat "error option" | ActPanics nat string | ActSend nat
  | ActInterrupt nat | ActInterrupted nat | ActTick int

datatype rg_event =
    EvStarted nat | EvStopped nat actorError | EvInterrupt nat "error option" | EvInterrupted nat
  | EvInterruptTimeout | EvExecuteTimeout

definition Run_init :: "'s semaphore \<Rightarrow> Group \<Rightarrow> int \<Rightarrow> 's rungroup" where
  "Run_init S g now =
     \<lparr>rg_phase = (if actor_count g = 0 then Finished None else Launching 0),
      rg_exec = replicate (actor_count g) NotStarted, rg_intr = replicate (actor_count g) NotSpawned,
      actorErrors = [], initialActorErr = None, interruptWait = sem_NewWeighted S (int (actor_count g)), rg_clock = now\<rparr>"

text \<open>
  The next step of \<open>Run\<close> itself, other than for a timeout; \<open>None\<close> while it waits.  The channel has room for
  every actor.
\<close>

definition Run_main :: "'s semaphore \<Rightarrow> Group \<Rightarrow> 's rungroup \<Rightarrow> ('s rungroup \<times> rg_event list) option" where
  "Run_main S g s =
     (case rg_phase s of
        Launching i \<Rightarrow>
          if i < actor_count g
          then Some (s\<lparr>rg_exec := (rg_exec s)[i := Executing], rg_phase := Launching (Suc i)\<rparr>, [EvStarted i])
          else Some (s\<lparr>rg_phase := AwaitFirst\<rparr>, [])
      | AwaitFirst \<Rightarrow>
          (case actorErrors s of
             [] \<Rightarrow> None
           | e # es \<Rightarrow> Some (s\<lparr>actorErrors := es, initialActorErr := Some e,
               interruptWait := sem_NewWeighted S (int (actor_count g)), rg_phase := Signalling 0\<rparr>, []))
      | Signalling i \<Rightarrow>
          if i < actor_count g
          then map_option (\<lambda>w. (s\<lparr>interruptWait := w, rg_intr := (rg_intr s)[i := Spawned], rg_phase := Signalling (Suc i)\<rparr>, []))
                 (sem_Acquire S (interruptWait s) 1)
          else Some (s\<lparr>rg_phase := AwaitInterrupts (rg_clock s + InterruptTimeout)\<rparr>, [])
      | AwaitInterrupts _ \<Rightarrow>
          map_option (\<lambda>w. (s\<lparr>interruptWait := w, rg_phase := Collecting 1 (rg_clock s + executeReturnTimeout)\<rparr>, []))
            (sem_Acquire S (interruptWait s) (int (actor_count g)))
      | Collecting i deadline \<Rightarrow>
          if i < actor_count g
          then (case actorErrors s of
                  [] \<Rightarrow> None
                | e # es \<Rightarrow> Some (s\<lparr>actorErrors := es, rg_phase := Collecting (Suc i) deadline\<rparr>, []))
          else map_option (\<lambda>e. (s\<lparr>rg_phase := Finished (ae_err e)\<rparr>, [])) (initialActorErr s)
      | Finished _ \<Rightarrow> None)"

text \<open>The two waits that end at a deadline.\<close>

definition Run_timeout :: "'s rungroup \<Rightarrow> nat \<Rightarrow> ('s rungroup \<times> rg_event list) option" where
  "Run_timeout s n =
     (case rg_phase s of
        AwaitInterrupts deadline \<Rightarrow>
          if deadline \<le> rg_clock s
          then Some (s\<lparr>rg_phase := Collecting 1 (rg_clock s + executeReturnTimeout)\<rparr>, [EvInterruptTimeout]) else None
      | Collecting i deadline \<Rightarrow>
          if i < n \<and> deadline \<le> rg_clock s
          then map_option (\<lambda>e. (s\<lparr>rg_phase := Finished (ae_err e)\<rparr>, [EvExecuteTimeout])) (initialActorErr s) else None
      | _ \<Rightarrow> None)"

text \<open>
  The goroutine of an actor: \<open>execute\<close> ends by returning or by a panic, which the wrapper recovers, and either
  way an error with the actor's name is to be sent.
\<close>

definition execute_ends :: "Group \<Rightarrow> nat \<Rightarrow> error option \<Rightarrow> 's rungroup \<Rightarrow> ('s rungroup \<times> rg_event list) option" where
  "execute_ends g i err s =
     (if i < length (rg_exec s) \<and> rg_exec s ! i = Executing
      then let e = \<lparr>errorSourceName = actor_name (rg_actors g ! i), ae_err = err\<rparr>
           in Some (s\<lparr>rg_exec := (rg_exec s)[i := Sending e]\<rparr>, [EvStopped i e])
      else None)"

definition panic_error :: "string \<Rightarrow> string \<Rightarrow> error" where
  "panic_error name r = ErrNew (''executing rungroup actor '' @ name @ '' panicked: '' @ r)"

definition send_error :: "Group \<Rightarrow> nat \<Rightarrow> 's rungroup \<Rightarrow> ('s rungroup \<times> rg_event list) option" where
  "send_error g i s =
     (if i < length (rg_exec s) \<and> length (actorErrors s) < actor_count g
      then case rg_exec s ! i of
             Sending e \<Rightarrow> Some (s\<lparr>rg_exec := (rg_exec s)[i := Sent], actorErrors := actorErrors s @ [e]\<rparr>, [])
           | _ \<Rightarrow> None
      else None)"

text \<open>The goroutine that interrupts an actor; its release is deferred, so that it also happens after a panic.\<close>

definition interrupt_begins :: "nat \<Rightarrow> 's rungroup \<Rightarrow> ('s rungroup \<times> rg_event list) option" where
  "interrupt_begins i s =
     (if i < length (rg_intr s) \<and> rg_intr s ! i = Spawned
      then map_option (\<lambda>e. (s\<lparr>rg_intr := (rg_intr s)[i := Interrupting]\<rparr>, [EvInterrupt i (ae_err e)])) (initialActorErr s)
      else None)"

definition interrupt_ends :: "'s semaphore \<Rightarrow> nat \<Rightarrow> 's rungroup \<Rightarrow> ('s rungroup \<times> rg_event list) option" where
  "interrupt_ends S i s =
     (if i < length (rg_intr s) \<and> rg_intr s ! i = Interrupting
      then Some (s\<lparr>rg_intr := (rg_intr s)[i := Interrupted], interruptWait := sem_Release S (interruptWait s) 1\<rparr>, [EvInterrupted i])
      else None)"

fun rg_step :: "'s semaphore \<Rightarrow> Group \<Rightarrow> rg_action \<Rightarrow> 's rungroup \<Rightarrow> ('s rungroup \<times> rg_event list) option" where
  "rg_step S g ActMain s = Run_main S g s"
| "rg_step S g ActTimeout s = Run_timeout s (actor_count g)"
| "rg_step S g (ActReturns i err) s = execute_ends g i err s"
| "rg_step S g (ActPanics i r) s = execute_ends g i (Some (panic_error (actor_name (rg_actors g ! i)) r)) s"
| "rg_step S g (ActSend i) s = send_error g i s"
| "rg_step S g (ActInterrupt i) s = interrupt_begins i s"
| "rg_step S g (ActInterrupted i) s = interrupt_ends S i s"
| "rg_step S g (ActTick t) s = (if 0 \<le> t then Some (s\<lparr>rg_clock := rg_clock s + t\<rparr>, []) else None)"

fun rg_run :: "'s semaphore \<Rightarrow> Group \<Rightarrow> rg_action list \<Rightarrow> 's rungroup \<Rightarrow> ('s rungroup \<times> rg_event list) option" where
  "rg_run S g [] s = Some (s, [])"
| "rg_run S g (a # as) s =
     (case rg_step S g a s of
        None \<Rightarrow> None
      | Some (s1, es1) \<Rightarrow> map_option (\<lambda>(s2, es2). (s2, es1 @ es2)) (rg_run S g as s1))"

text \<open>Reachability, with the events so far.\<close>

inductive rg_reaches :: "'s semaphore \<Rightarrow> Group \<Rightarrow> 's rungroup \<Rightarrow> rg_event list \<Rightarrow> bool" for S g where
  init: "rg_reaches S g (Run_init S g now) []"
| step: "rg_reaches S g s es \<Longrightarrow> rg_step S g a s = Some (s', es') \<Longrightarrow> rg_reaches S g s' (es @ es')"

subsection \<open>Invariants\<close>

fun is_start :: "nat \<Rightarrow> rg_event \<Rightarrow> bool" where
  "is_start i (EvStarted j) = (j = i)"
| "is_start i _ = False"

fun is_interrupt :: "nat \<Rightarrow> rg_event \<Rightarrow> bool" where
  "is_interrupt i (EvInterrupt j _) = (j = i)"
| "is_interrupt i _ = False"

definition occurs :: "(rg_event \<Rightarrow> bool) \<Rightarrow> rg_event list \<Rightarrow> nat" where
  "occurs P es = length (filter P es)"

lemma occurs_simps [simp]:
  "occurs P [] = 0" "occurs P (e # es) = (if P e then Suc (occurs P es) else occurs P es)" "occurs P (es @ fs) = occurs P es + occurs P fs"
  by (simp_all add: occurs_def)

text \<open>The messages \<open>Run\<close> has taken from the channel.\<close>

fun received :: "run_phase \<Rightarrow> nat" where
  "received (Launching _) = 0"
| "received AwaitFirst = 0"
| "received (Signalling _) = 1"
| "received (AwaitInterrupts _) = 1"
| "received (Collecting i _) = i"
| "received (Finished _) = 0"

text \<open>Of the goroutines that execute: every message sent is in the channel or was taken, and is of an actor that stopped.\<close>

definition exec_inv :: "Group \<Rightarrow> 's rungroup \<Rightarrow> rg_event list \<Rightarrow> bool" where
  "exec_inv g s es \<longleftrightarrow>
     length (rg_exec s) = actor_count g \<and>
     (\<forall>i < actor_count g. occurs (is_start i) es = (if rg_exec s ! i = NotStarted then 0 else 1) \<and>
        (\<forall>e. rg_exec s ! i = Sending e \<longrightarrow> EvStopped i e \<in> set es) \<and>
        (rg_exec s ! i = Sent \<longrightarrow> (\<exists>e. EvStopped i e \<in> set es))) \<and>
     (\<forall>e \<in> set (actorErrors s) \<union> set_option (initialActorErr s). \<exists>j < actor_count g. EvStopped j e \<in> set es) \<and>
     received (rg_phase s) + length (actorErrors s) \<le> length (filter (\<lambda>x. x = Sent) (rg_exec s)) \<and>
     (case rg_phase s of
        Launching i \<Rightarrow> \<forall>j. i \<le> j \<and> j < actor_count g \<longrightarrow> rg_exec s ! j = NotStarted
      | Finished _ \<Rightarrow> EvExecuteTimeout \<notin> set es \<longrightarrow> (\<forall>i < actor_count g. rg_exec s ! i = Sent)
      | _ \<Rightarrow> True)"

definition active :: "intr_status \<Rightarrow> bool" where
  "active x \<longleftrightarrow> x = Spawned \<or> x = Interrupting"

text \<open>Of the goroutines that interrupt: the semaphore counts those that are not done.\<close>

definition signalled :: "Group \<Rightarrow> 's rungroup \<Rightarrow> nat \<Rightarrow> bool" where
  "signalled g s n \<longleftrightarrow> initialActorErr s \<noteq> None \<and> (\<forall>j < actor_count g. rg_intr s ! j = NotSpawned \<longleftrightarrow> n \<le> j)"

definition held_ok :: "('s \<Rightarrow> int \<times> int) \<Rightarrow> Group \<Rightarrow> 's rungroup \<Rightarrow> bool" where
  "held_ok view g s \<longleftrightarrow> view (interruptWait s) = (int (actor_count g), int (length (filter active (rg_intr s))))"

definition quiet :: "Group \<Rightarrow> 's rungroup \<Rightarrow> rg_event list \<Rightarrow> bool" where
  "quiet g s es \<longleftrightarrow> (EvInterruptTimeout \<notin> set es \<longrightarrow> (\<forall>j < actor_count g. rg_intr s ! j = Interrupted))"

definition intr_phase :: "('s \<Rightarrow> int \<times> int) \<Rightarrow> Group \<Rightarrow> 's rungroup \<Rightarrow> rg_event list \<Rightarrow> bool" where
  "intr_phase view g s es =
     (case rg_phase s of
        Signalling i \<Rightarrow> i \<le> actor_count g \<and> signalled g s i \<and> held_ok view g s
      | AwaitInterrupts d \<Rightarrow> signalled g s (actor_count g) \<and> held_ok view g s \<and> d \<le> rg_clock s + InterruptTimeout
      | Collecting _ d \<Rightarrow> signalled g s (actor_count g) \<and> quiet g s es \<and> d \<le> rg_clock s + executeReturnTimeout
      | Finished err \<Rightarrow> actor_count g = 0 \<and> err = None \<or>
          signalled g s (actor_count g) \<and> quiet g s es \<and> map_option ae_err (initialActorErr s) = Some err
      | _ \<Rightarrow> initialActorErr s = None \<and> (\<forall>j < actor_count g. rg_intr s ! j = NotSpawned))"

definition intr_inv :: "('s \<Rightarrow> int \<times> int) \<Rightarrow> Group \<Rightarrow> 's rungroup \<Rightarrow> rg_event list \<Rightarrow> bool" where
  "intr_inv view g s es \<longleftrightarrow>
     length (rg_intr s) = actor_count g \<and>
     (\<forall>i < actor_count g. occurs (is_interrupt i) es = (if rg_intr s ! i \<in> {NotSpawned, Spawned} then 0 else 1) \<and>
        (rg_intr s ! i = Interrupted \<longrightarrow> EvInterrupted i \<in> set es)) \<and>
     (\<forall>i err. EvInterrupt i err \<in> set es \<longrightarrow> map_option ae_err (initialActorErr s) = Some err) \<and>
     intr_phase view g s es"

lemma filter_update_length:
  "i < length xs \<Longrightarrow> length (filter P (xs[i := y])) + (if P (xs ! i) then 1 else 0) = length (filter P xs) + (if P y then 1 else 0)"
proof (induction xs arbitrary: i)
  case (Cons x xs)
  then show ?case by (cases i) auto
qed simp

lemma filter_all: "length (filter P xs) = length xs \<Longrightarrow> i < length xs \<Longrightarrow> P (xs ! i)"
  by (metis length_filter_less less_irrefl nth_mem)

lemma exec_inv_main:
  assumes "exec_inv g s es" "Run_main S g s = Some (s', es')"
  shows "exec_inv g s' (es @ es')"
proof (cases "rg_phase s")
  case (Launching i)
  with assms filter_update_length[of i "rg_exec s" "\<lambda>x. x = Sent" Executing] show ?thesis
    by (auto simp: Run_main_def exec_inv_def nth_list_update split: if_splits)
next
  case (Collecting i d)
  with assms show ?thesis
    using filter_all[of "\<lambda>x. x = Sent" "rg_exec s"] length_filter_le[of "\<lambda>x. x = Sent" "rg_exec s"]
    by (auto simp: Run_main_def exec_inv_def split: if_splits list.splits)
qed (use assms in \<open>auto simp: Run_main_def exec_inv_def split: if_splits list.splits\<close>)

lemma exec_inv_ends:
  assumes "exec_inv g s es" "execute_ends g i err s = Some (s', es')"
  shows "exec_inv g s' (es @ es')"
proof -
  define e where "e = \<lparr>errorSourceName = actor_name (rg_actors g ! i), ae_err = err\<rparr>"
  have i: "i < length (rg_exec s)" "rg_exec s ! i = Executing"
    and s': "s' = s\<lparr>rg_exec := (rg_exec s)[i := Sending e]\<rparr>" "es' = [EvStopped i e]"
    using assms(2) by (auto simp: execute_ends_def Let_def e_def split: if_splits)
  have "length (filter (\<lambda>x. x = Sent) ((rg_exec s)[i := Sending e])) = length (filter (\<lambda>x. x = Sent) (rg_exec s))"
    using filter_update_length[OF i(1), of "\<lambda>x. x = Sent" "Sending e"] i(2) by simp
  with assms(1) i show ?thesis
    unfolding exec_inv_def s' by (cases "rg_phase s") (simp_all add: nth_list_update, auto)
qed

lemma exec_inv_send:
  assumes "exec_inv g s es" "send_error g i s = Some (s', es')"
  shows "exec_inv g s' (es @ es')"
proof -
  obtain e where i: "i < length (rg_exec s)" "rg_exec s ! i = Sending e"
    and s': "s' = s\<lparr>rg_exec := (rg_exec s)[i := Sent], actorErrors := actorErrors s @ [e]\<rparr>" "es' = []"
    using assms(2) by (auto simp: send_error_def split: if_splits exec_status.splits)
  have "length (filter (\<lambda>x. x = Sent) ((rg_exec s)[i := Sent])) = Suc (length (filter (\<lambda>x. x = Sent) (rg_exec s)))"
    using filter_update_length[OF i(1), of "\<lambda>x. x = Sent" Sent] i(2) by simp
  moreover have "EvStopped i e \<in> set es" "i < actor_count g"
    using assms(1) i by (auto simp: exec_inv_def)
  ultimately show ?thesis
    using assms(1) i unfolding exec_inv_def s' by (cases "rg_phase s") (simp_all add: nth_list_update, auto)
qed

text \<open>The other steps do not concern these goroutines.\<close>

lemma exec_inv_frame:
  assumes "exec_inv g s es" "rg_exec s' = rg_exec s" "actorErrors s' = actorErrors s" "initialActorErr s' = initialActorErr s"
    and "rg_phase s' = rg_phase s" "\<And>i. occurs (is_start i) es' = 0"
  shows "exec_inv g s' (es @ es')"
  using assms unfolding exec_inv_def by (cases "rg_phase s") (simp_all, blast+)

lemma exec_inv_timeout:
  assumes "exec_inv g s es" "Run_timeout s n = Some (s', es')"
  shows "exec_inv g s' (es @ es')"
proof (cases "rg_phase s")
  case (AwaitInterrupts d)
  with assms show ?thesis by (auto simp: exec_inv_def Run_timeout_def split: if_splits)
next
  case (Collecting i d)
  with assms show ?thesis by (auto simp: exec_inv_def Run_timeout_def split: if_splits)
qed (use assms in \<open>simp_all add: Run_timeout_def\<close>)

lemma exec_inv_step:
  assumes "exec_inv g s es" "rg_step S g a s = Some (s', es')"
  shows "exec_inv g s' (es @ es')"
proof (cases a)
  case (ActInterrupt i)
  with assms(2) show ?thesis
    by (auto simp: interrupt_begins_def intro!: exec_inv_frame[OF assms(1)] split: if_splits)
next
  case (ActInterrupted i)
  with assms(2) show ?thesis
    by (auto simp: interrupt_ends_def intro!: exec_inv_frame[OF assms(1)] split: if_splits)
next
  case (ActTick t)
  with assms(2) show ?thesis
    by (auto intro!: exec_inv_frame[OF assms(1), where es' = "[]", simplified] split: if_splits)
qed (use assms in \<open>auto intro: exec_inv_main exec_inv_ends exec_inv_send exec_inv_timeout\<close>)

text \<open>The same for the goroutines that interrupt.\<close>

lemma counts_weightD:
  assumes "counts_weight S view"
  shows "view (sem_NewWeighted S n) = (n, 0)"
    and "view w = (n, h) \<Longrightarrow> view (sem_Release S w k) = (n, h - k)"
    and "view w = (n, h) \<Longrightarrow> sem_Acquire S w k = Some w' \<Longrightarrow> h + k \<le> n \<and> view w' = (n, h + k)"
    and "view w = (n, h) \<Longrightarrow> h + k \<le> n \<Longrightarrow> \<exists>w'. sem_Acquire S w k = Some w'"
  using assms unfolding counts_weight_def
  by (simp, blast, metis (no_types, lifting) option.inject option.distinct(1), metis)

lemma filter_none: "length (filter P xs) = 0 \<Longrightarrow> i < length xs \<Longrightarrow> \<not> P (xs ! i)"
  by (simp add: filter_empty_conv)

lemmas intr_defs = intr_inv_def intr_phase_def signalled_def held_ok_def quiet_def

lemma intr_inv_launch:
  assumes "intr_inv view g s es" "rg_phase s = Launching i" "Run_main S g s = Some (s', es')"
  shows "intr_inv view g s' (es @ es')"
  using assms unfolding Run_main_def intr_inv_def intr_phase_def by (cases "i < actor_count g") auto

lemma intr_inv_first:
  assumes "counts_weight S view" "intr_inv view g s es" "rg_phase s = AwaitFirst" "Run_main S g s = Some (s', es')"
  shows "intr_inv view g s' (es @ es')"
proof -
  have "filter active (rg_intr s) = []"
    using assms(2,3) by (auto simp: intr_defs filter_empty_conv in_set_conv_nth active_def)
  then show ?thesis
    using assms counts_weightD(1)[OF assms(1)] by (auto simp: Run_main_def intr_defs split: list.splits)
qed

lemma intr_inv_signal:
  assumes S: "counts_weight S view" and inv: "intr_inv view g s es" and ph: "rg_phase s = Signalling i" "i < actor_count g"
    and step: "Run_main S g s = Some (s', es')"
  shows "intr_inv view g s' (es @ es')"
proof -
  let ?l = "(rg_intr s)[i := Spawned]"
  have i: "i < length (rg_intr s)" "rg_intr s ! i = NotSpawned"
    and v: "view (interruptWait s) = (int (actor_count g), int (length (filter active (rg_intr s))))"
    using inv ph by (auto simp: intr_defs)
  obtain w where w: "sem_Acquire S (interruptWait s) 1 = Some w" and s': "es' = []"
    "s' = s\<lparr>interruptWait := w, rg_intr := ?l, rg_phase := Signalling (Suc i)\<rparr>"
    using step ph by (auto simp: Run_main_def)
  have "length (filter active ?l) = Suc (length (filter active (rg_intr s)))"
    using filter_update_length[OF i(1), of active Spawned] i(2) by (simp add: active_def)
  with counts_weightD(3)[OF S v w] inv ph show ?thesis
    unfolding s' by (auto simp: intr_defs nth_list_update)
qed

lemma intr_inv_signalled:
  assumes "intr_inv view g s es" "rg_phase s = Signalling i" "\<not> i < actor_count g" "Run_main S g s = Some (s', es')"
  shows "intr_inv view g s' (es @ es')"
  using assms unfolding Run_main_def intr_inv_def intr_phase_def by (auto simp: signalled_def held_ok_def)

lemma intr_inv_all_done:
  assumes S: "counts_weight S view" and inv: "intr_inv view g s es" and ph: "rg_phase s = AwaitInterrupts d"
    and step: "Run_main S g s = Some (s', es')"
  shows "intr_inv view g s' (es @ es')"
proof -
  have v: "view (interruptWait s) = (int (actor_count g), int (length (filter active (rg_intr s))))"
    and sg: "signalled g s (actor_count g)" and l: "length (rg_intr s) = actor_count g"
    using inv ph by (auto simp: intr_inv_def intr_phase_def held_ok_def)
  obtain w where w: "sem_Acquire S (interruptWait s) (int (actor_count g)) = Some w" and s': "es' = []"
    "s' = s\<lparr>interruptWait := w, rg_phase := Collecting 1 (rg_clock s + executeReturnTimeout)\<rparr>"
    using step ph by (auto simp: Run_main_def)
  have "length (filter active (rg_intr s)) = 0"
    using counts_weightD(3)[OF S v w] by linarith
  then have "rg_intr s ! j = Interrupted" if "j < actor_count g" for j
    using filter_none[of active "rg_intr s" j] that sg l by (cases "rg_intr s ! j") (auto simp: active_def signalled_def)
  with inv ph show ?thesis
    unfolding s' by (auto simp: intr_defs)
qed

lemma intr_inv_collect:
  assumes "intr_inv view g s es" "rg_phase s = Collecting i d" "Run_main S g s = Some (s', es')"
  shows "intr_inv view g s' (es @ es')"
  using assms unfolding Run_main_def intr_inv_def intr_phase_def
  by (cases "i < actor_count g"; cases "actorErrors s") (auto simp: signalled_def quiet_def)

lemma intr_inv_main:
  assumes "counts_weight S view" "intr_inv view g s es" "Run_main S g s = Some (s', es')"
  shows "intr_inv view g s' (es @ es')"
proof (cases "rg_phase s")
  case (Signalling i)
  then show ?thesis
    using intr_inv_signal[OF assms(1,2) _ _ assms(3)] intr_inv_signalled[OF assms(2) _ _ assms(3)] by blast
qed (use assms(3) intr_inv_launch[OF assms(2) _ assms(3)] intr_inv_collect[OF assms(2) _ assms(3)]
  intr_inv_first[OF assms(1,2) _ assms(3)] intr_inv_all_done[OF assms(1,2) _ assms(3)] in
  \<open>blast | simp add: Run_main_def\<close>)+

lemma intr_inv_timeout:
  assumes "intr_inv view g s es" "Run_timeout s n = Some (s', es')"
  shows "intr_inv view g s' (es @ es')"
  using assms by (cases "rg_phase s") (auto simp: Run_timeout_def intr_defs split: if_splits)

text \<open>An interrupt can only begin or end after it was spawned, when the first error is known.\<close>

lemma intr_inv_begins:
  assumes "intr_inv view g s es" "interrupt_begins i s = Some (s', es')"
  shows "intr_inv view g s' (es @ es')"
proof -
  let ?l = "(rg_intr s)[i := Interrupting]"
  obtain e where i: "i < length (rg_intr s)" "rg_intr s ! i = Spawned" and e: "initialActorErr s = Some e"
    and s': "s' = s\<lparr>rg_intr := ?l\<rparr>" "es' = [EvInterrupt i (ae_err e)]"
    using assms(2) by (auto simp: interrupt_begins_def split: if_splits)
  have "length (filter active ?l) = length (filter active (rg_intr s))"
    using filter_update_length[OF i(1), of active Interrupting] i(2) by (simp add: active_def)
  with assms(1) i e show ?thesis
    unfolding s' by (cases "rg_phase s") (auto simp: intr_defs nth_list_update)
qed

lemma intr_inv_ends:
  assumes "counts_weight S view" "intr_inv view g s es" "interrupt_ends S i s = Some (s', es')"
  shows "intr_inv view g s' (es @ es')"
proof -
  let ?l = "(rg_intr s)[i := Interrupted]"
  have i: "i < length (rg_intr s)" "rg_intr s ! i = Interrupting"
    and s': "s' = s\<lparr>rg_intr := ?l, interruptWait := sem_Release S (interruptWait s) 1\<rparr>" "es' = [EvInterrupted i]"
    using assms(3) by (auto simp: interrupt_ends_def split: if_splits)
  have "length (filter active ?l) + 1 = length (filter active (rg_intr s))"
    using filter_update_length[OF i(1), of active Interrupted] i(2) by (simp add: active_def)
  then have "held_ok view g s \<Longrightarrow> held_ok view g s'"
    using counts_weightD(2)[OF assms(1), of "interruptWait s"] by (auto simp: held_ok_def s')
  with assms(2) i show ?thesis
    unfolding intr_inv_def intr_phase_def
    by (cases "rg_phase s") (auto simp: s' signalled_def quiet_def nth_list_update)
qed

lemma intr_inv_frame:
  assumes "intr_inv view g s es" "rg_intr s' = rg_intr s" "interruptWait s' = interruptWait s" "rg_phase s' = rg_phase s"
    and "initialActorErr s' = initialActorErr s" "rg_clock s \<le> rg_clock s'"
    and "\<And>i err. EvInterrupt i err \<notin> set es'" "\<And>i. occurs (is_interrupt i) es' = 0"
  shows "intr_inv view g s' (es @ es')"
  using assms by (cases "rg_phase s") (auto simp: intr_defs)

lemma intr_inv_step:
  assumes "counts_weight S view" "intr_inv view g s es" "rg_step S g a s = Some (s', es')"
  shows "intr_inv view g s' (es @ es')"
proof (cases a)
  case (ActReturns i err)
  with assms(3) show ?thesis
    by (auto simp: execute_ends_def Let_def intro!: intr_inv_frame[OF assms(2)] split: if_splits)
next
  case (ActPanics i r)
  with assms(3) show ?thesis
    by (auto simp: execute_ends_def Let_def intro!: intr_inv_frame[OF assms(2)] split: if_splits)
next
  case (ActSend i)
  with assms(3) show ?thesis
    by (auto simp: send_error_def intro!: intr_inv_frame[OF assms(2), where es' = "[]", simplified] split: if_splits exec_status.splits)
next
  case (ActTick t)
  with assms(3) show ?thesis
    by (auto intro!: intr_inv_frame[OF assms(2), where es' = "[]", simplified] split: if_splits)
qed (use assms in \<open>auto intro: intr_inv_main intr_inv_timeout intr_inv_begins intr_inv_ends\<close>)

lemma rg_reaches_inv:
  assumes "counts_weight S view" "rg_reaches S g s es"
  shows "exec_inv g s es" "intr_inv view g s es"
proof -
  have "exec_inv g s es \<and> intr_inv view g s es"
    using assms(2)
  proof (induction rule: rg_reaches.induct)
    case (init now)
    show ?case by (auto simp: Run_init_def exec_inv_def intr_defs)
  next
    case (step s es a s' es')
    then show ?case using exec_inv_step intr_inv_step[OF assms(1)] by blast
  qed
  then show "exec_inv g s es" "intr_inv view g s es" by simp_all
qed

subsection \<open>What a group guarantees\<close>

lemma send_never_blocks:
  assumes "exec_inv g s es" "i < actor_count g" "rg_exec s ! i = Sending e"
  shows "send_error g i s \<noteq> None"
proof -
  have "length (filter (\<lambda>x. x = Sent) (rg_exec s)) < length (rg_exec s)"
    using assms nth_mem[of i "rg_exec s"] by (intro length_filter_less[of "rg_exec s ! i"]) (simp_all add: exec_inv_def)
  then show ?thesis using assms by (simp add: exec_inv_def send_error_def)
qed

text \<open>C6: whatever the actors do and however their goroutines interleave, every actor is started and interrupted at
  most once, none is interrupted before an actor has stopped, and each is interrupted with the error of the
  first actor whose error was received, which is also what \<open>Run\<close> returns.  When it returns without a timeout of
  the wait for interrupts every interrupt has been called and has ended, without a timeout of the wait for the
  actors every actor has stopped, and no goroutine is ever stuck sending its error.\<close>

theorem rungroup_interrupts_once:
  assumes "counts_weight S view" and "rg_reaches S g s es"
  shows "(\<forall>i < actor_count g. occurs (is_start i) es \<le> 1 \<and> occurs (is_interrupt i) es \<le> 1) \<and>
    (\<forall>i err. EvInterrupt i err \<in> set es \<longrightarrow>
       (\<exists>j e. j < actor_count g \<and> EvStopped j e \<in> set es \<and> initialActorErr s = Some e \<and> err = ae_err e)) \<and>
    (\<forall>err. rg_phase s = Finished err \<and> rg_actors g \<noteq> [] \<longrightarrow>
       (\<exists>j e. j < actor_count g \<and> EvStopped j e \<in> set es \<and> initialActorErr s = Some e \<and> err = ae_err e) \<and>
       (EvInterruptTimeout \<notin> set es \<longrightarrow>
          (\<forall>i < actor_count g. occurs (is_interrupt i) es = 1 \<and> EvInterrupted i \<in> set es)) \<and>
       (EvExecuteTimeout \<notin> set es \<longrightarrow> (\<forall>i < actor_count g. \<exists>e. EvStopped i e \<in> set es))) \<and>
    (\<forall>i e. i < actor_count g \<and> rg_exec s ! i = Sending e \<longrightarrow> send_error g i s \<noteq> None)"
proof -
  note inv = rg_reaches_inv[OF assms]
  have stopped: "\<exists>j e. j < actor_count g \<and> EvStopped j e \<in> set es \<and> initialActorErr s = Some e \<and> err = ae_err e"
    if "map_option ae_err (initialActorErr s) = Some err" for err
    using that inv(1) by (auto simp: exec_inv_def)
  have "map_option ae_err (initialActorErr s) = Some err \<and> quiet g s es" if "rg_phase s = Finished err" "rg_actors g \<noteq> []" for err
    using that inv(2) by (auto simp: intr_inv_def intr_phase_def)
  moreover have "map_option ae_err (initialActorErr s) = Some err" if "EvInterrupt i err \<in> set es" for i err
    using that inv(2) by (auto simp: intr_inv_def)
  moreover have "occurs (is_start i) es \<le> 1 \<and> occurs (is_interrupt i) es \<le> 1" if "i < actor_count g" for i
    using that inv by (simp add: exec_inv_def intr_inv_def)
  moreover have "occurs (is_interrupt i) es = 1 \<and> EvInterrupted i \<in> set es"
    if "quiet g s es" "EvInterruptTimeout \<notin> set es" "i < actor_count g" for i
    using that inv(2) by (simp add: intr_inv_def quiet_def)
  moreover have "\<exists>e. EvStopped i e \<in> set es" if "rg_phase s = Finished err" "EvExecuteTimeout \<notin> set es" "i < actor_count g" for err i
    using that inv(1) by (simp add: exec_inv_def)
  moreover note stopped send_never_blocks[OF inv(1)]
  ultimately show ?thesis by (intro conjI allI impI; (elim conjE)?; blast)
qed

text \<open>A group of two in which the first actor fails and the second stops when it is interrupted.\<close>

definition counting_semaphore :: "(int \<times> int) semaphore" where
  "counting_semaphore =
     \<lparr>sem_NewWeighted = (\<lambda>n. (n, 0)),
      sem_Acquire = (\<lambda>(n, h) k. if h + k \<le> n then Some (n, h + k) else None),
      sem_Release = (\<lambda>(n, h) k. (n, h - k))\<rparr>"

lemma counting_semaphore_ok: "counts_weight counting_semaphore (\<lambda>w. w)"
  by (simp add: counts_weight_def counting_semaphore_def)

definition example_group :: Group where
  "example_group = rg_Add ''osquery'' (rg_Add ''signals'' NewRunGroup)"

definition example_actions :: "rg_action list" where
  "example_actions =
     [ActMain, ActMain, ActMain, ActReturns 0 (Some (ErrNew ''stopped'')), ActSend 0, ActMain, ActMain, ActMain, ActMain,
      ActInterrupt 1, ActReturns 1 None, ActInterrupt 0, ActInterrupted 0, ActSend 1, ActInterrupted 1, ActMain, ActMain, ActMain]"

lemma rg_run_reaches:
  "rg_reaches S g s es \<Longrightarrow> rg_run S g as s = Some (s', es') \<Longrightarrow> rg_reaches S g s' (es @ es')"
proof (induction as arbitrary: s es es')
  case (Cons a as)
  then show ?case
    by (auto split: option.splits simp flip: append_assoc dest: rg_reaches.step)
qed simp

theorem rungroup_interrupts_once_witness:
  "\<exists>s es. rg_run counting_semaphore example_group example_actions (Run_init counting_semaphore example_group 0) = Some (s, es) \<and>
    rg_phase s = Finished (Some (ErrNew ''stopped'')) \<and>
    (\<forall>i < 2. occurs (is_interrupt i) es = 1 \<and> EvInterrupted i \<in> set es) \<and> (\<forall>i < 2. \<exists>e. EvStopped i e \<in> set es)"
proof -
  let ?r = "rg_run counting_semaphore example_group example_actions (Run_init counting_semaphore example_group 0)"
  have "case ?r of None \<Rightarrow> False | Some (s, es) \<Rightarrow> rg_phase s = Finished (Some (ErrNew ''stopped'')) \<and>
      EvInterruptTimeout \<notin> set es \<and> EvExecuteTimeout \<notin> set es"
    by code_simp
  then obtain s es where r: "?r = Some (s, es)" "rg_phase s = Finished (Some (ErrNew ''stopped''))"
    "EvInterruptTimeout \<notin> set es" "EvExecuteTimeout \<notin> set es"
    by (auto split: option.splits)
  have "rg_reaches counting_semaphore example_group s es"
    using rg_run_reaches[OF rg_reaches.init r(1)] by simp
  from rungroup_interrupts_once[OF counting_semaphore_ok this] r show ?thesis
    by (auto simp: example_group_def rg_Add_def NewRunGroup_def)
qed

text \<open>What \<open>Run\<close> does by itself, and the time that passes meanwhile.\<close>

fun run_alone :: "rg_action \<Rightarrow> bool" where
  "run_alone ActMain = True"
| "run_alone ActTimeout = True"
| "run_alone (ActTick _) = True"
| "run_alone _ = False"

fun waiting_time :: "rg_action list \<Rightarrow> int" where
  "waiting_time [] = 0"
| "waiting_time (ActTick t # as) = t + waiting_time as"
| "waiting_time (_ # as) = waiting_time as"

definition finishes_within :: "'s semaphore \<Rightarrow> Group \<Rightarrow> int \<Rightarrow> 's rungroup \<Rightarrow> bool" where
  "finishes_within S g t s \<longleftrightarrow>
     (\<exists>as s' es err. list_all run_alone as \<and> waiting_time as \<le> t \<and> rg_run S g as s = Some (s', es) \<and> rg_phase s' = Finished err)"

lemma finishes_now: "rg_phase s = Finished err \<Longrightarrow> 0 \<le> t \<Longrightarrow> finishes_within S g t s"
  unfolding finishes_within_def by (intro exI[of _ "[]"]) simp

lemma finishes_step:
  assumes "finishes_within S g t s'" "rg_step S g a s = Some (s', es)" "a = ActMain \<or> a = ActTimeout"
  shows "finishes_within S g t s"
proof -
  obtain as s2 es2 err where "list_all run_alone as" "waiting_time as \<le> t" "rg_run S g as s' = Some (s2, es2)" "rg_phase s2 = Finished err"
    using assms(1) unfolding finishes_within_def by blast
  with assms(2,3) show ?thesis
    unfolding finishes_within_def by (intro exI[of _ "a # as"]) auto
qed

lemma finishes_tick:
  assumes "finishes_within S g t (s\<lparr>rg_clock := rg_clock s + d\<rparr>)" "0 \<le> d"
  shows "finishes_within S g (d + t) s"
proof -
  obtain as s2 es2 err where "list_all run_alone as" "waiting_time as \<le> t"
    "rg_run S g as (s\<lparr>rg_clock := rg_clock s + d\<rparr>) = Some (s2, es2)" "rg_phase s2 = Finished err"
    using assms(1) unfolding finishes_within_def by blast
  with assms(2) show ?thesis
    unfolding finishes_within_def by (intro exI[of _ "ActTick d # as"]) auto
qed

lemma finishes_mono: "finishes_within S g t s \<Longrightarrow> t \<le> t' \<Longrightarrow> finishes_within S g t' s"
  unfolding finishes_within_def by (meson order_trans)

lemma finishes_collecting:
  assumes "rg_phase s = Collecting i d" "initialActorErr s = Some e" "d \<le> rg_clock s + executeReturnTimeout"
  shows "finishes_within S g executeReturnTimeout s"
proof (cases "i < actor_count g")
  case True
  let ?t = "max 0 (d - rg_clock s)"
  let ?s = "s\<lparr>rg_clock := rg_clock s + ?t\<rparr>"
  have "finishes_within S g 0 (?s\<lparr>rg_phase := Finished (ae_err e)\<rparr>)" by (rule finishes_now) simp_all
  moreover have "rg_step S g ActTimeout ?s = Some (?s\<lparr>rg_phase := Finished (ae_err e)\<rparr>, [EvExecuteTimeout])"
    using assms True by (simp add: Run_timeout_def)
  ultimately have "finishes_within S g (?t + 0) s"
    by (intro finishes_tick) (auto intro: finishes_step[where a = ActTimeout])
  then show ?thesis
    by (rule finishes_mono) (use assms(3) in \<open>simp add: executeReturnTimeout_def\<close>)
next
  case False
  have "finishes_within S g executeReturnTimeout (s\<lparr>rg_phase := Finished (ae_err e)\<rparr>)"
    by (rule finishes_now) (simp_all add: executeReturnTimeout_def)
  then show ?thesis
    by (rule finishes_step[where a = ActMain]) (use False assms in \<open>auto simp: Run_main_def\<close>)
qed

lemma finishes_interrupts:
  assumes "rg_phase s = AwaitInterrupts d" "initialActorErr s = Some e" "d \<le> rg_clock s + InterruptTimeout"
  shows "finishes_within S g (InterruptTimeout + executeReturnTimeout) s"
proof -
  let ?t = "max 0 (d - rg_clock s)"
  let ?s = "s\<lparr>rg_clock := rg_clock s + ?t\<rparr>"
  let ?s' = "?s\<lparr>rg_phase := Collecting 1 (rg_clock ?s + executeReturnTimeout)\<rparr>"
  have "finishes_within S g executeReturnTimeout ?s'"
    by (rule finishes_collecting[where i = 1 and d = "rg_clock ?s + executeReturnTimeout" and e = e]) (use assms in simp_all)
  moreover have "rg_step S g ActTimeout ?s = Some (?s', [EvInterruptTimeout])"
    using assms by (simp add: Run_timeout_def)
  ultimately have "finishes_within S g (?t + executeReturnTimeout) s"
    by (intro finishes_tick) (auto intro: finishes_step[where a = ActTimeout])
  then show ?thesis
    by (rule finishes_mono) (use assms(3) in \<open>simp add: InterruptTimeout_def\<close>)
qed

lemma finishes_signalling:
  assumes "counts_weight S view" "rg_phase s = Signalling i" "intr_inv view g s es"
  shows "finishes_within S g (InterruptTimeout + executeReturnTimeout) s"
  using assms(2,3)
proof (induction "actor_count g - i" arbitrary: i s)
  case 0
  then obtain e where "initialActorErr s = Some e" by (auto simp: intr_defs)
  then have "finishes_within S g (InterruptTimeout + executeReturnTimeout) (s\<lparr>rg_phase := AwaitInterrupts (rg_clock s + InterruptTimeout)\<rparr>)"
    by (intro finishes_interrupts[where d = "rg_clock s + InterruptTimeout" and e = e]) simp_all
  then show ?case
    by (rule finishes_step[where a = ActMain]) (use 0 in \<open>auto simp: Run_main_def\<close>)
next
  case (Suc k)
  have i: "i < actor_count g" using Suc.hyps(2) by simp
  have v: "view (interruptWait s) = (int (actor_count g), int (length (filter active (rg_intr s))))"
    and l: "length (rg_intr s) = actor_count g" and n: "rg_intr s ! i = NotSpawned"
    using Suc.prems i by (simp_all add: intr_defs)
  have "length (filter active (rg_intr s)) < actor_count g"
    using length_filter_less[of "rg_intr s ! i" "rg_intr s" active] nth_mem[of i "rg_intr s"] l n i by (simp add: active_def)
  then obtain w where "sem_Acquire S (interruptWait s) 1 = Some w"
    using counts_weightD(4)[OF assms(1) v, of 1] by auto
  then have m: "Run_main S g s = Some (s\<lparr>interruptWait := w, rg_intr := (rg_intr s)[i := Spawned], rg_phase := Signalling (Suc i)\<rparr>, [])"
    using i Suc.prems(1) by (simp add: Run_main_def)
  have "finishes_within S g (InterruptTimeout + executeReturnTimeout) (s\<lparr>interruptWait := w, rg_intr := (rg_intr s)[i := Spawned], rg_phase := Signalling (Suc i)\<rparr>)"
    by (rule Suc.hyps(1)[of "Suc i"]) (use Suc.hyps(2) intr_inv_main[OF assms(1) Suc.prems(2) m] in simp_all)
  then show ?case
    by (rule finishes_step[where a = ActMain]) (use m in auto)
qed

text \<open>C40: once the first actor has stopped and its error was received, no actor can keep \<open>Run\<close> from returning: from
  every state of every interleaving, \<open>Run\<close> returns by its own steps alone, in which no more time passes than
  the two timeouts, even when no other goroutine takes a step.\<close>

theorem rungroup_shutdown_completes:
  assumes "counts_weight S view" and "rg_reaches S g s es" and "initialActorErr s \<noteq> None"
  shows "\<exists>as s' es' err. list_all run_alone as \<and> waiting_time as \<le> InterruptTimeout + executeReturnTimeout \<and>
    rg_run S g as s = Some (s', es') \<and> rg_phase s' = Finished err"
proof -
  note inv = rg_reaches_inv(2)[OF assms(1,2)]
  obtain e where e: "initialActorErr s = Some e" using assms(3) by blast
  have "finishes_within S g (InterruptTimeout + executeReturnTimeout) s"
  proof (cases "rg_phase s")
    case (Signalling i)
    then show ?thesis by (rule finishes_signalling[OF assms(1) _ inv])
  next
    case (AwaitInterrupts d)
    then show ?thesis by (rule finishes_interrupts[OF _ e]) (use inv AwaitInterrupts in \<open>simp add: intr_defs\<close>)
  next
    case (Collecting i d)
    then have "finishes_within S g executeReturnTimeout s"
      by (rule finishes_collecting[OF _ e]) (use inv Collecting in \<open>simp add: intr_defs\<close>)
    then show ?thesis by (rule finishes_mono) (simp add: InterruptTimeout_def)
  qed (use inv e in \<open>auto simp: intr_inv_def intr_phase_def InterruptTimeout_def executeReturnTimeout_def intro: finishes_now\<close>)
  then show ?thesis by (simp add: finishes_within_def)
qed

theorem rungroup_shutdown_completes_witness:
  "\<exists>s es as s' es' err. rg_run counting_semaphore example_group (take 6 example_actions) (Run_init counting_semaphore example_group 0) = Some (s, es) \<and>
    list_all run_alone as \<and> waiting_time as \<le> 15000000000 \<and> rg_run counting_semaphore example_group as s = Some (s', es') \<and>
    rg_phase s' = Finished err"
proof -
  let ?r = "rg_run counting_semaphore example_group (take 6 example_actions) (Run_init counting_semaphore example_group 0)"
  have "case ?r of None \<Rightarrow> False | Some (s, es) \<Rightarrow> initialActorErr s \<noteq> None" by code_simp
  then obtain s es where r: "?r = Some (s, es)" "initialActorErr s \<noteq> None"
    by (auto split: option.splits)
  have "rg_reaches counting_semaphore example_group s es"
    using rg_run_reaches[OF rg_reaches.init r(1)] by simp
  from rungroup_shutdown_completes[OF counting_semaphore_ok this r(2)] r(1) show ?thesis
    by (simp add: InterruptTimeout_def executeReturnTimeout_def)
qed

end
