(* ===== verification/Spec2Isabelle.thy ===== *)
theory Spec2Isabelle
  imports KVStore SendBuffer FlagController ActionQueue ControlService OsqueryHistory IdbComparator TufAutoupdate DataFlatten LogDedup RunGroup
begin

text \<open>
  A verification library of the launcher agent, \<open>src/\<close>.  Launcher runs osquery on a device, is
  configured by a control server, ships logs, and updates itself and osquery from a TUF repository.
  The theories model the parts of it below, each translated from the Go source, and prove what makes
  them correct; the statements named C1, C2, \<dots> are the claims about the program, every other lemma
  serves them.

  \<^bold>\<open>Conventions.\<close>  A Go struct is a record, an enumeration a datatype, an error a value of \<open>error\<close> and a
  fallible result \<open>error + 'a\<close>.  A panic, or a call that never returns, is \<open>None\<close>.  A Go map is an
  association list with distinct keys; its iteration order is \<open>go_range seed\<close>, where every seed is a
  permutation and every permutation has a seed, so a statement for all seeds is one for all orders.
  A section under a mutex is one step; what several routines may interleave is a step relation with
  labelled runs.  Clocks, random numbers, JSON and version libraries, HTTP and child processes are
  parameters, and what is relied on of them is a named hypothesis (\<open>json_ok\<close>, \<open>sorts_versions\<close>,
  \<open>reads_back\<close>, \<open>counts_weight\<close>) with an instance in the witnesses.  Logging, tracing and metrics are left out.

  \<^bold>\<open>Parts and theories.\<close>

  \<^item> \<open>Launcher_Prelude\<close>: errors, results, map order, three-way comparison of bytes.  \<open>Go_Strings\<close>: the
    functions of \<open>strings\<close>, \<open>strconv\<close> and \<open>time.ParseDuration\<close> the code uses, with
    \<open>ParseInt_FormatInt\<close> and \<open>ParseDuration_FormatInt\<close> as round trips.

  \<^item> \<open>KVStore\<close>: \<open>ee/agent/types/keyvalue_store.go\<close> as a record of operations whose contract is the
    locales \<open>kv_store\<close> and \<open>kv_updater\<close>, and the in-memory store of
    \<open>ee/agent/storage/inmemory\<close>, on which both are interpreted.  The clients below are verified once
    in locales over that contract and used through interpretations on this store.

  \<^item> \<open>SendBuffer\<close>: \<open>pkg/sendbuffer/sendbuffer.go\<close>.  A send is two critical sections with the network
    call between them; writes, updates and deletions interleave with it in \<open>sb_step\<close>.  Shown: delivery
    in order, and exactly once but for purges, which are accounted for; the size invariant; the greedy
    choice of a batch; what \<open>Drain\<close> leaves; and the two ways a send goes wrong: a purge without a send makes
    a payload be delivered twice, and \<open>DeleteAllData\<close> during a send makes its end panic or remove unsent logs.

  \<^item> \<open>FlagValues\<close>, \<open>FlagController\<close>: \<open>ee/agent/flags\<close>.  Flag values with defaults, clamping and
    overrides; the controller with every setter and getter, bulk update and observers.  Shown: bounds
    of every bounded flag (the sampling rate may be not a number), the set/get round trip of every flag with a
    setter, exact notification, overrides and their expiry.

  \<^item> \<open>ActionQueue\<close>: \<open>ee/control/actionqueue\<close>.  Shown: an action is performed at most once while its
    record is kept, refinement of an abstract queue, exact cleanup.

  \<^item> \<open>ControlService\<close>: \<open>ee/control/control.go\<close>.  Fetching the subsystem map, updating consumers and
    subscribers, callbacks into the service during a fetch, the run loop.  Shown: a fetch asks for
    exactly what changed; from every reachable state (\<open>service_reach\<close>) fetching converges when nothing fails,
    also over a restart; and what a requested full fetch does not retry.

  \<^item> \<open>OsqueryHistory\<close>: \<open>pkg/osquery/runtime/history\<close>.  Shown: the newest ten instances are kept, in
    memory and in the store; recording an exit changes exactly the instances of that run.

  \<^item> \<open>IdbComparator\<close>: \<open>pkg/indexeddbcomparator/comparer.go\<close> on byte lists.  The recursion over nested
    keys has fuel; with as much fuel as the key has bytes it returns.  Shown: on encoded keys the
    comparison is the order of the encoded values, a total preorder; antisymmetry on all keys that
    decode, and the case where it fails.

  \<^item> \<open>Filepath\<close>: \<open>path/filepath\<close> and the default paths, config file and root directory search of
    \<open>pkg/launcher\<close>.  \<open>FileSys\<close>: a file system on which every operation may fail, by a list of faults,
    and what an operation may change (\<open>changes_in\<close>); \<open>pkg/backoff/waitfor.go\<close>, whose number of attempts
    (a timeout in the code) is an argument and universally quantified.

  \<^item> \<open>Tuf_Version\<close>, \<open>TufLibrary\<close>, \<open>TufLookup\<close>, \<open>TufAutoupdate\<close>: \<open>ee/tuf\<close>.  The update library
    (download, verify, unpack, check, install, tidy), the selection of a target and of the executable
    to run, and the autoupdater with its run loop \<open>exec_step\<close>, interleaved with control server requests,
    flag changes and interrupts.  \<open>update_world\<close> is the contract of the world the autoupdater runs in;
    \<open>host_env\<close> puts the modelled library behind it and is its interpretation.  A section under a mutex and
    an iteration of \<open>Execute\<close> up to its next wait are one step, so a flag change between the reading of the initial delay
    and the creation of its timer is not represented.  Shown: what is downloaded and installed
    is runnable and comes from a verified archive, a failed verification leaves nothing, tidying removes exactly what it
    should, no restart during the initial delay, and no deferred restart is lost.

  \<^item> \<open>Jsonc\<close>, \<open>DataFlatten\<close>: \<open>ee/dataflatten\<close>.  The byte loop of \<open>jsonc.go\<close> and the recursion that flattens
    nested data into rows, with its query language and the formats that feed it; the decoders of the
    formats are parameters.  A property list inside a string is decoded and descended into again, so
    \<open>descend\<close> has fuel, one unit for each level of such nesting; by \<open>descend_returns\<close> the length of the
    longest string is enough when decoding a property list gives shorter strings than its text.
    Shown: the byte loop is the removal of comment and trailing comma tokens on the texts of tokens that
    \<open>tokens_ok\<close> describes; for every query the rows are those of the selected leaves of the data, under paths rewritten by
    the query; and a query that asks for arrays by index or wildcard only filters the rows of the unfiltered result.

  \<^item> \<open>LogDedup\<close>: \<open>pkg/log/dedup\<close>.  The engine with its cache, record hash, cleanup with summaries, and the
    handler.  Shown: every suppressed record is accounted for, a cleanup bounds the cache, and the
    hash does not sort the attributes.

  \<^item> \<open>RunGroup\<close>: \<open>pkg/rungroup/rungroup.go\<close>, which runs launcher's components as actors.  \<open>Run\<close> and the goroutines
    of the actors interleave in \<open>rg_step\<close>; the actors are arbitrary and the semaphore is a parameter with the
    hypothesis \<open>counts_weight\<close>.  Shown: who is interrupted, when and with which error, and that no actor
    can keep \<open>Run\<close> from returning.

  \<^item> This theory: properties across components.

  \<^bold>\<open>Not modelled.\<close>  Osquery tables and their parsers, the desktop process and its server, the local
  server, packaging, key and TPM access, the supervision of osquery processes, checkups, and the
  database-backed stores: most of their work is calls to the operating system or to libraries
  outside the repository.  So are the protobuf decoder and the CEL prefilter of data flattening, and
  the metrics of the log engine.  Of the modelled parts: the construction of HTTP and TUF clients, the
  variants of the executable checks for Windows and macOS, and real time between atomic sections.
\<close>

section \<open>Across components\<close>

subsection \<open>Updates that are ready to run\<close>

lemma host_library_simps:
  "w_lib (host_env took x sv ulm rt out) = host_library took x sv ulm rt"
  "w_ext (host_env took x sv ulm rt out) = x" "w_dec (host_env took x sv ulm rt out) = w_dec out"
  by (simp_all add: host_env_def)

lemma getSplay_host_fs:
  "getSplayDelaySeconds (host_env took x sv ulm rt out) ta h = (ta', h', d) \<Longrightarrow> host_fs h' = host_fs h"
  by (auto simp: getSplayDelaySeconds_def Let_def host_env_def host_does_def split: if_splits prod.splits)

lemma shouldDelay_host_fs:
  "shouldDelayDownload (host_env took x sv ulm rt out) seed b targets ta h = (ta', h', d) \<Longrightarrow> host_fs h' = host_fs h"
  by (auto simp: shouldDelayDownload_def Let_def split: if_splits prod.splits dest: getSplay_host_fs)

lemma host_Available:
  assumes "lib_Available (host_library took x sv ulm rt) b target h = (h', found)"
  shows "Available x ulm b target (host_fs h) = (host_fs h', found)"
  using assms by (auto simp: host_library_def host_does_def split: prod.splits)

lemma host_AddToLibrary:
  assumes "lib_AddToLibrary (host_library took x sv ulm rt) b current target meta h = (h', err)"
  shows "\<exists>m1 m2. AddToLibrary x ulm rt m1 m2 b current target meta (host_fs h) = (host_fs h', err)"
  using assms by (auto simp: host_library_def host_does_def split: prod.splits) blast

text \<open>C4: a target the autoupdater on the update library reports as ready to run is the one selected
  from the TUF targets, and its executable is in its place in the library with permission to execute.
  Either an executable was there already and passed the check that it runs (it is then not verified again), or an
  archive with the length and hashes of the selected metadata was downloaded, and the executable is the
  content of an entry of that archive (outside of NixOS, where executables are patched, and when no
  executable is left over in a directory the version is unpacked to).\<close>

theorem downloaded_update_is_ready:
  assumes "IsAbs (baseDir ulm)" and "is_name target" and "is_name (versionFromTarget binary target)"
    and "downloadUpdate (host_env took x sv ulm rt out) seed1 seed2 binary targets allowDelay ta h = (ta', h', Inr target)"
  shows "runnable (host_fs h') (executableLocation (Join [updatesDirectory binary (baseDir ulm), versionFromTarget binary target]) binary) \<and>
    (\<exists>meta. findTarget x (w_dec out) seed1 seed2 binary targets
              (case map_of (pinnedVersions ta) binary of None \<Rightarrow> '''' | Some v \<Rightarrow> v) (updateChannel ta) = Inr (target, meta) \<and>
       ((\<exists>fs. nodes fs = nodes (host_fs h) \<and> snd (Available x ulm binary target fs)) \<or>
        (\<exists>data actual. download_verified x ulm binary target meta = Inr data \<and> length data \<le> nat (tf_Length meta) \<and>
           GenerateTargetFileMeta x data (HashAlgorithms x meta) = Inr actual \<and> TargetFileMetaEqual x actual meta = None \<and>
           (\<not> IsNixOS x \<and> unpack_dirs_clear ulm binary (versionFromTarget binary target) (host_fs h) \<longrightarrow>
              (\<exists>c. file_at (host_fs h') (executableLocation (Join [updatesDirectory binary (baseDir ulm),
                     versionFromTarget binary target]) binary) c \<and> from_archive x data c)))))"
proof -
  let ?env = "host_env took x sv ulm rt out"
  let ?v = "case currentRunningVersion ?env binary h of Inl _ \<Rightarrow> '''' | Inr v \<Rightarrow> v"
  have ne: "target \<noteq> ''''" using assms(2) by (simp add: is_name_def)
  obtain meta where f: "findTarget x (w_dec out) seed1 seed2 binary targets
      (case map_of (pinnedVersions ta) binary of None \<Rightarrow> '''' | Some v \<Rightarrow> v) (updateChannel ta) = Inr (target, meta)"
    and cur: "?v \<noteq> versionFromTarget binary target"
    using assms(4) ne unfolding downloadUpdate_def host_library_simps Let_def
    by (auto split: sum.splits prod.splits if_splits bool.splits option.splits)
  obtain h1 found where a: "lib_Available (host_library took x sv ulm rt) binary target h = (h1, found)" by (metis surj_pair)
  note a' = host_Available[OF a]
  show ?thesis
  proof (cases found)
    case True
    then have "h' = h1" using assms(4) ne f cur a unfolding downloadUpdate_def host_library_simps Let_def
      by (auto split: if_splits)
    moreover have "snd (Available x ulm binary target (host_fs h))" using True a' by simp
    ultimately show ?thesis using Available_fs(3)[OF a'] True f by blast
  next
    case False
    obtain ta2 h2 delay where d: "(if allowDelay then shouldDelayDownload ?env seed1 binary targets ta h1 else (ta, h1, False)) = (ta2, h2, delay)"
      by (metis prod_cases3)
    then have fs2: "host_fs h2 = host_fs h1" using shouldDelay_host_fs by (auto split: if_splits)
    have "lib_AddToLibrary (host_library took x sv ulm rt) binary ?v target meta h2 = (h', None)"
      using assms(4) ne f cur a False d unfolding downloadUpdate_def host_library_simps Let_def
      by (auto split: if_splits prod.splits option.splits)
    from host_AddToLibrary[OF this] obtain m1 m2 where
      "AddToLibrary x ulm rt m1 m2 binary ?v target meta (host_fs h1) = (host_fs h', None)" unfolding fs2 by blast
    from AddToLibrary_installs[OF assms(1-3) cur this] f Available_fs(1)[OF a']
      unpack_dirs_clear_nodes[OF Available_fs(1)[OF a']] show ?thesis by blast
  qed
qed

text \<open>An empty library, to which osquery 2 is downloaded: the executable is the entry of the archive.\<close>

definition example_download :: "TufAutoupdater \<times> unit host \<times> (error + string)" where
  "example_download = downloadUpdate (example_env 0) [] [] binaryOsqueryd
     [(''osqueryd/linux/amd64/osqueryd-2.tar.gz'', \<lparr>tf_Length = 1, tf_Hashes = [], tf_Custom = None\<rparr>)] True
     ((NewTufAutoupdater (example_env 0) example_host)\<lparr>pinnedVersions := [(binaryOsqueryd, ''2'')]\<rparr>)
     (example_host\<lparr>host_fs := example_host_fs\<lparr>nodes := [(''/u'', FDir 0x1ED), (''/u/osqueryd'', FDir 0x1ED)]\<rparr>\<rparr>)"

theorem downloaded_update_is_ready_witness:
  "runnable (host_fs (fst (snd example_download))) ''/u/osqueryd/2/osqueryd'' \<and>
   (\<exists>c. file_at (host_fs (fst (snd example_download))) ''/u/osqueryd/2/osqueryd'' c \<and> from_archive example_ext [1] c)"
proof -
  let ?r = example_download and ?t = "''osqueryd-2.tar.gz''"
  let ?fs = "example_host_fs\<lparr>nodes := [(''/u'', FDir 0x1ED), (''/u/osqueryd'', FDir 0x1ED)]\<rparr>"
  have "snd (snd ?r) = Inr ?t" by code_simp
  then have r: "?r = (fst ?r, fst (snd ?r), Inr ?t)" by (metis prod.collapse)
  have h: "IsAbs (baseDir example_ulm)" "is_name ?t" "is_name (versionFromTarget binaryOsqueryd ?t)" by code_simp+
  have p: "executableLocation (Join [updatesDirectory binaryOsqueryd (baseDir example_ulm),
      versionFromTarget binaryOsqueryd ?t]) binaryOsqueryd = ''/u/osqueryd/2/osqueryd''" by code_simp
  have absent: "node_at ?fs ''/u/osqueryd/2/osqueryd'' = None" by code_simp
  have none: "\<not> snd (Available example_ext example_ulm binaryOsqueryd ?t fs)" if "nodes fs = nodes ?fs" for fs
  proof
    assume "snd (Available example_ext example_ulm binaryOsqueryd ?t fs)"
    from Available_runs[OF this] have "runnable fs ''/u/osqueryd/2/osqueryd''" unfolding p .
    with absent node_at_nodes[OF that, of "''/u/osqueryd/2/osqueryd''"] show False by (simp only: runnable_def option.case)
  qed
  have clear: "unpack_dirs_clear example_ulm binaryOsqueryd (versionFromTarget binaryOsqueryd ?t) ?fs"
    by (rule unpack_dirs_clear_no_files) simp
  have x: "\<not> IsNixOS example_ext" "from_archive example_ext data c \<Longrightarrow> from_archive example_ext [1] c" for data c
    by (auto simp: example_ext_def from_archive_def)
  have fs: "host_fs (example_host\<lparr>host_fs := ?fs\<rparr>) = ?fs" by simp
  note main = downloaded_update_is_ready[OF h r[unfolded example_download_def example_env_def],
    folded example_env_def, folded example_download_def, unfolded p fs]
  from main none clear x(1) obtain data c where
    "file_at (host_fs (fst (snd ?r))) ''/u/osqueryd/2/osqueryd'' c" "from_archive example_ext data c" by blast
  with main x(2) show ?thesis by blast
qed

end
